(* ===== verification/Prelude.thy ===== *)
theory Prelude
  imports Main
begin

text \<open>
  Shared ground of the development: the outcome of a run of C code (a value and a state, or a
  fault), the combinators the components are written with, the pieces of the C library the
  sources use on strings and numbers, and a weakest-precondition calculus for the combinators.

  Conventions:
  \<^item> a C string is a \<open>string\<close> without its terminating NUL;
  \<^item> an \<open>int\<close> result that is only tested for zero is a \<open>bool\<close>;
  \<^item> undefined behaviour and a failed \<open>assert\<close> end a run with a \<open>Fault\<close>, so that
    every theorem that a run returns a value also says that it did not meet one;
  \<^item> \<open>malloc\<close> may fail at any call: \<open>mem s i n\<close> says whether the \<open>i\<close>-th allocation
    of the run, of \<open>n\<close> bytes, succeeds. The number of the call is the identity of the block.
\<close>

section \<open>Outcomes\<close>

datatype fault =
    Out_Of_Bounds        \<comment> \<open>a read past the terminating NUL or past the end of an array\<close>
  | Buffer_Overflow      \<comment> \<open>a write past the end of an array\<close>
  | Use_After_Free       \<comment> \<open>a read through a pointer to a released object\<close>
  | Double_Free          \<comment> \<open>a block released twice\<close>
  | Uninitialised        \<comment> \<open>a read of a block that was never written\<close>
  | Assert_Failed        \<comment> \<open>a C assertion that does not hold\<close>
  | Signed_Overflow      \<comment> \<open>signed integer overflow\<close>
  | Bad_Shift            \<comment> \<open>a shift whose result the language does not define\<close>
  | Aborted              \<comment> \<open>\<open>abort()\<close> was called\<close>
  | Terminated           \<comment> \<open>\<open>std::terminate()\<close> was called\<close>
  | Deadlock             \<comment> \<open>a non-recursive mutex locked by its own holder\<close>
  | Out_Of_Fuel          \<comment> \<open>not a behaviour of the program: the model's recursion bound\<close>

datatype ('a, 's) res = Ok 'a 's | Fault fault

type_synonym ('a, 's) M = "'s \<Rightarrow> ('a, 's) res"

section \<open>Combinators\<close>

definition ret :: "'a \<Rightarrow> ('a, 's) M" where
  "ret x = (\<lambda>s. Ok x s)"

definition crash :: "fault \<Rightarrow> ('a, 's) M" where
  "crash e = (\<lambda>s. Fault e)"

definition bind :: "('a, 's) M \<Rightarrow> ('a \<Rightarrow> ('b, 's) M) \<Rightarrow> ('b, 's) M" where
  "bind m k = (\<lambda>s. case m s of Ok x s' \<Rightarrow> k x s' | Fault e \<Rightarrow> Fault e)"

text \<open>\<open>if (!m) return 0; k\<close>\<close>

definition check :: "(bool, 's) M \<Rightarrow> (bool, 's) M \<Rightarrow> (bool, 's) M" where
  "check m k = bind m (\<lambda>b. if b then k else ret False)"

text \<open>\<open>if ((x = m) == NULL) return 0; k x\<close>\<close>

definition check_some :: "('a option, 's) M \<Rightarrow> ('a \<Rightarrow> (bool, 's) M) \<Rightarrow> (bool, 's) M" where
  "check_some m k = bind m (\<lambda>x. case x of None \<Rightarrow> ret False | Some y \<Rightarrow> k y)"

text \<open>Reading a part of the state, and an assignment, each followed by the rest of the block.\<close>

definition gets :: "('s \<Rightarrow> 'a) \<Rightarrow> ('a \<Rightarrow> ('b, 's) M) \<Rightarrow> ('b, 's) M" where
  "gets f k = (\<lambda>s. k (f s) s)"

definition upd :: "('s \<Rightarrow> 's) \<Rightarrow> ('a, 's) M \<Rightarrow> ('a, 's) M" where
  "upd f k = (\<lambda>s. k (f s))"

definition c_assert :: "bool \<Rightarrow> ('a, 's) M \<Rightarrow> ('a, 's) M" where
  "c_assert b k = (if b then k else crash Assert_Failed)"

text \<open>
  A loop with a counter that gives up after a fixed number of rounds
  (\<open>if (limit++ > CPP_DEMANGLE_TRY_LIMIT) return 0;\<close> at the end of its body): the body says
  whether to go on with new loop variables or to leave the loop with a result.
\<close>

datatype ('x, 'y) ctl = Next 'x | Stop 'y

primrec limited :: "nat \<Rightarrow> 'y \<Rightarrow> ('x \<Rightarrow> (('x, 'y) ctl, 's) M) \<Rightarrow> 'x \<Rightarrow> ('y, 's) M" where
  "limited 0 z body x = bind (body x) (\<lambda>c. case c of Next _ \<Rightarrow> ret z | Stop y \<Rightarrow> ret y)"
| "limited (Suc k) z body x =
     bind (body x) (\<lambda>c. case c of Next x' \<Rightarrow> limited k z body x' | Stop y \<Rightarrow> ret y)"

section \<open>The allocator and the platform\<close>

record heap =
  mem :: "nat \<Rightarrow> nat \<Rightarrow> bool"     \<comment> \<open>does the \<open>i\<close>-th allocation, of \<open>n\<close> bytes, succeed\<close>
  brk :: nat                     \<comment> \<open>allocations made so far\<close>
  freed :: "nat list"            \<comment> \<open>strings released while a vector still refers to them\<close>
  sizeof_long_double :: nat      \<comment> \<open>10, 12 or 16 on the platforms the code names\<close>
  ld_x87 :: bool                 \<comment> \<open>is \<open>long double\<close> the x87 format (else IEEE binary128)\<close>
  nan_sign :: bool               \<comment> \<open>does \<open>printf\<close> write the sign of a NaN (glibc: yes)\<close>
  strtol_einval :: bool          \<comment> \<open>does \<open>strtol\<close> set \<open>errno\<close> when there is no digit (BSD: yes)\<close>

definition malloc :: "nat \<Rightarrow> (nat option, 'h heap_scheme) M" where
  "malloc n = (\<lambda>s. Ok (if mem s (brk s) n then Some (brk s) else None) (s\<lparr>brk := Suc (brk s)\<rparr>))"

text \<open>A platform on which every allocation succeeds and \<open>long double\<close> is the x87 format in 16 bytes.\<close>

definition h0 :: heap where
  "h0 = \<lparr>mem = (\<lambda>i n. True), brk = 0, freed = [], sizeof_long_double = 16, ld_x87 = True,
         nan_sign = True, strtol_einval = False\<rparr>"

section \<open>Character buffers\<close>

text \<open>
  What a \<open>char *\<close> points to: a NUL-terminated string, or a fresh block whose bytes were never
  written (\<open>vector_str_substr\<close> can return one).
\<close>

datatype cbuf = Chars string | Garbage

definition c_strlen :: "cbuf \<Rightarrow> (nat \<Rightarrow> ('a, 's) M) \<Rightarrow> ('a, 's) M" where
  "c_strlen b k = (case b of Chars cs \<Rightarrow> k (length cs) | Garbage \<Rightarrow> crash Uninitialised)"

definition NUL :: char where
  "NUL = CHR 0x00"

definition c_isdigit :: "char \<Rightarrow> bool" where
  "c_isdigit c \<longleftrightarrow> of_char c \<ge> (48::nat) \<and> of_char c \<le> (57::nat)"

definition c_isupper :: "char \<Rightarrow> bool" where
  "c_isupper c \<longleftrightarrow> of_char c \<ge> (65::nat) \<and> of_char c \<le> (90::nat)"

definition c_isspace :: "char \<Rightarrow> bool" where
  "c_isspace c \<longleftrightarrow> of_char c = (32::nat) \<or> (of_char c \<ge> (9::nat) \<and> of_char c \<le> (13::nat))"

text \<open>\<open>strncmp(a, b, n) == 0\<close> and \<open>strstr(a, b) != NULL\<close>.\<close>

definition strncmp_eq :: "string \<Rightarrow> string \<Rightarrow> nat \<Rightarrow> bool" where
  "strncmp_eq a b n \<longleftrightarrow> take n (a @ [NUL]) = take n (b @ [NUL])"

fun is_prefix :: "string \<Rightarrow> string \<Rightarrow> bool" where
  "is_prefix [] ys = True"
| "is_prefix (x # xs) [] = False"
| "is_prefix (x # xs) (y # ys) = (x = y \<and> is_prefix xs ys)"

fun strstr :: "string \<Rightarrow> string \<Rightarrow> bool" where
  "strstr [] b = is_prefix b []"
| "strstr (a # as) b = (is_prefix b (a # as) \<or> strstr as b)"

section \<open>Numbers\<close>

definition LONG_MAX :: int where
  "LONG_MAX = 9223372036854775807"

definition LONG_MIN :: int where
  "LONG_MIN = - 9223372036854775808"

text \<open>The value of a digit of \<open>strtol\<close> in a base up to 36.\<close>

definition digit_val :: "nat \<Rightarrow> char \<Rightarrow> nat option" where
  "digit_val base c =
     (let n = of_char c :: nat;
          v = (if 48 \<le> n \<and> n \<le> 57 then Some (n - 48)
               else if 65 \<le> n \<and> n \<le> 90 then Some (n - 55)
               else if 97 \<le> n \<and> n \<le> 122 then Some (n - 87)
               else None)
      in case v of None \<Rightarrow> None | Some d \<Rightarrow> if d < base then Some d else None)"

fun digits_val :: "nat \<Rightarrow> int \<Rightarrow> string \<Rightarrow> int" where
  "digits_val base acc [] = acc"
| "digits_val base acc (c # cs) =
     (case digit_val base c of None \<Rightarrow> acc
      | Some d \<Rightarrow> digits_val base (acc * int base + int d) cs)"

text \<open>
  \<open>strtol\<close>: leading white space, a sign, the longest run of digits, saturation at the range of
  \<open>long\<close>. The second component says that there was no digit to convert.
\<close>

definition strtol :: "string \<Rightarrow> nat \<Rightarrow> int \<times> bool" where
  "strtol str base =
     (let s1 = dropWhile c_isspace str;
          neg = (s1 \<noteq> [] \<and> hd s1 = CHR ''-'');
          s2 = (if s1 \<noteq> [] \<and> (hd s1 = CHR ''-'' \<or> hd s1 = CHR ''+'') then tl s1 else s1);
          none = (s2 = [] \<or> digit_val base (hd s2) = None);
          n = (if neg then - digits_val base 0 s2 else digits_val base 0 s2)
      in if none then (0, True) else (max LONG_MIN (min LONG_MAX n), False))"

text \<open>Decimal output, as \<open>printf\<close> writes it.\<close>

definition digit_char :: "nat \<Rightarrow> char" where
  "digit_char d = char_of (48 + d)"

fun show_nat :: "nat \<Rightarrow> string" where
  "show_nat n = (if n < 10 then [digit_char n] else show_nat (n div 10) @ [digit_char (n mod 10)])"

declare show_nat.simps [simp del]

definition show_int :: "int \<Rightarrow> string" where
  "show_int i = (if i < 0 then CHR ''-'' # show_nat (nat (- i)) else show_nat (nat i))"

section \<open>Weakest preconditions\<close>

text \<open>
  \<open>wp m E Q s\<close>: run from \<open>s\<close>, \<open>m\<close> returns a value and a state that satisfy \<open>Q\<close>,
  or it meets a fault that \<open>E\<close> accepts. The rules collected in \<open>wp\<close> push the predicate
  through the combinators.
\<close>

definition wp :: "('a, 's) M \<Rightarrow> (fault \<Rightarrow> bool) \<Rightarrow> ('a \<Rightarrow> 's \<Rightarrow> bool) \<Rightarrow> 's \<Rightarrow> bool" where
  "wp m E Q s = (case m s of Ok x s' \<Rightarrow> Q x s' | Fault e \<Rightarrow> E e)"

named_theorems wp_rules "weakest preconditions of the combinators and of the operations"
named_theorems run_rules "equations that evaluate a run on a concrete state"

lemma wp_ret [wp_rules]: "wp (ret x) E Q s = Q x s"
  by (simp add: wp_def ret_def)

lemma wp_crash [wp_rules]: "wp (crash e) E Q s = E e"
  by (simp add: wp_def crash_def)

lemma wp_bind [wp_rules]: "wp (bind m k) E Q s = wp m E (\<lambda>x. wp (k x) E Q) s"
  by (simp add: wp_def bind_def split: res.splits)

lemma wp_check [wp_rules]:
  "wp (check m k) E Q s = wp m E (\<lambda>b t. if b then wp k E Q t else Q False t) s"
  by (simp add: wp_def check_def bind_def ret_def split: res.splits)

lemma wp_check_some [wp_rules]:
  "wp (check_some m k) E Q s
     = wp m E (\<lambda>x t. case x of None \<Rightarrow> Q False t | Some y \<Rightarrow> wp (k y) E Q t) s"
  by (simp add: wp_def check_some_def bind_def ret_def split: res.splits option.splits)

lemma wp_gets [wp_rules]: "wp (gets f k) E Q s = wp (k (f s)) E Q s"
  by (simp add: wp_def gets_def)

lemma wp_upd [wp_rules]: "wp (upd f k) E Q s = wp k E Q (f s)"
  by (simp add: wp_def upd_def)

lemma wp_assert [wp_rules]: "wp (c_assert b k) E Q s = (if b then wp k E Q s else E Assert_Failed)"
  by (simp add: c_assert_def wp_crash)

lemma wp_if [wp_rules]:
  "wp (if b then m else m') E Q s = (if b then wp m E Q s else wp m' E Q s)"
  by simp

lemma wp_strlen [wp_rules]:
  "wp (c_strlen b k) E Q s
     = (case b of Chars cs \<Rightarrow> wp (k (length cs)) E Q s | Garbage \<Rightarrow> E Uninitialised)"
  by (simp add: c_strlen_def wp_crash split: cbuf.splits)

lemma wp_malloc [wp_rules]:
  "wp (malloc n) E Q s
     = Q (if mem s (brk s) n then Some (brk s) else None) (s\<lparr>brk := Suc (brk s)\<rparr>)"
  by (simp add: wp_def malloc_def)

lemma wp_mono:
  assumes "wp m E Q s" and "\<And>x t. Q x t \<Longrightarrow> Q' x t"
  shows "wp m E Q' s"
  using assms by (auto simp: wp_def split: res.splits)

lemma wp_OkI: "m s = Ok x t \<Longrightarrow> Q x t \<Longrightarrow> wp m E Q s"
  by (simp add: wp_def)

lemma wp_OkD: "wp m E Q s \<Longrightarrow> m s = Ok x t \<Longrightarrow> Q x t"
  by (simp add: wp_def)

text \<open>An invariant of the loop variables and the state is kept by a counted loop.\<close>

lemma wp_limited:
  assumes body: "\<And>x s. I x s \<Longrightarrow>
      wp (body x) E (\<lambda>c t. case c of Next x' \<Rightarrow> I x' t \<and> Q z t | Stop y \<Rightarrow> Q y t) s"
    and init: "I x s"
  shows "wp (limited k z body x) E Q s"
  using init
proof (induction k arbitrary: x s)
  case 0
  show ?case
    using body [OF 0] by (auto simp: wp_def bind_def ret_def split: res.splits ctl.splits)
next
  case (Suc k)
  show ?case
    using body [OF Suc.prems] Suc.IH
    by (fastforce simp: wp_def bind_def ret_def split: res.splits ctl.splits)
qed

section \<open>Evaluation\<close>

text \<open>
  A concrete run is evaluated by the simplifier. The congruence rules keep it out of the
  continuations until the computation before them has returned.
\<close>

lemma run_ret [run_rules]: "ret x s = Ok x s"
  by (simp add: ret_def)

lemma run_crash [run_rules]: "crash e s = Fault e"
  by (simp add: crash_def)

lemma run_bind [run_rules]:
  "bind m k s = (case m s of Ok x s' \<Rightarrow> k x s' | Fault e \<Rightarrow> Fault e)"
  by (simp add: bind_def)

lemma run_check [run_rules]:
  "check m k s = (case m s of Ok b s' \<Rightarrow> (if b then k s' else Ok False s') | Fault e \<Rightarrow> Fault e)"
  by (simp add: check_def bind_def ret_def split: res.splits)

lemma run_check_some [run_rules]:
  "check_some m k s =
     (case m s of Ok x s' \<Rightarrow> (case x of None \<Rightarrow> Ok False s' | Some y \<Rightarrow> k y s') | Fault e \<Rightarrow> Fault e)"
  by (simp add: check_some_def bind_def ret_def split: res.splits option.splits)

lemma run_gets [run_rules]: "gets f k s = k (f s) s"
  by (simp add: gets_def)

lemma run_upd [run_rules]: "upd f k s = k (f s)"
  by (simp add: upd_def)

lemma run_assert [run_rules]: "c_assert b k s = (if b then k s else Fault Assert_Failed)"
  by (simp add: c_assert_def crash_def)

lemma run_strlen [run_rules]:
  "c_strlen b k s = (case b of Chars cs \<Rightarrow> k (length cs) s | Garbage \<Rightarrow> Fault Uninitialised)"
  by (simp add: c_strlen_def crash_def split: cbuf.splits)

lemma run_malloc [run_rules]:
  "malloc n s = Ok (if mem s (brk s) n then Some (brk s) else None) (s\<lparr>brk := Suc (brk s)\<rparr>)"
  by (simp add: malloc_def)

lemma run_if [run_rules]: "(if b then m else m') s = (if b then m s else m' s)"
  by simp

lemma bind_weak: "s = s' \<Longrightarrow> bind m k s = bind m k s'" by simp
lemma check_weak: "s = s' \<Longrightarrow> check m k s = check m k s'" by simp
lemma check_some_weak: "s = s' \<Longrightarrow> check_some m k s = check_some m k s'" by simp
lemma gets_weak: "s = s' \<Longrightarrow> gets m k s = gets m k s'" by simp
lemma upd_weak: "s = s' \<Longrightarrow> upd m k s = upd m k s'" by simp
lemma case_res_weak: "r = r' \<Longrightarrow> (case r of Ok x s \<Rightarrow> f x s | Fault e \<Rightarrow> g e)
   = (case r' of Ok x s \<Rightarrow> f x s | Fault e \<Rightarrow> g e)" by simp

lemmas run_congs = bind_weak check_weak check_some_weak gets_weak upd_weak case_res_weak

section \<open>Facts about the C library\<close>

lemma is_prefix_iff: "is_prefix xs ys \<longleftrightarrow> (\<exists>zs. ys = xs @ zs)"
  by (induction xs ys rule: is_prefix.induct) auto

lemma strstr_iff: "strstr a b \<longleftrightarrow> (\<exists>u v. a = u @ b @ v)"
proof (induction a b rule: strstr.induct)
  case (1 b)
  show ?case by (auto simp: is_prefix_iff)
next
  case (2 a as b)
  have "(\<exists>u v. a # as = u @ b @ v) \<longleftrightarrow> (\<exists>v. a # as = b @ v) \<or> (\<exists>u v. as = u @ b @ v)"
    by (metis append_Cons append_Nil append_eq_Cons_conv list.inject)
  with 2 show ?case by (simp add: is_prefix_iff)
qed

lemma strncmp_eq_prefix:
  assumes "NUL \<notin> set b"
  shows "strncmp_eq a b (length b) \<longleftrightarrow> (\<exists>zs. a = b @ zs)"
proof
  assume "strncmp_eq a b (length b)"
  then have "a @ [NUL] = b @ drop (length b) (a @ [NUL])"
    by (metis append_eq_conv_conj append_take_drop_id strncmp_eq_def)
  then obtain zs where zs: "a @ [NUL] = b @ zs" by blast
  with assms have "zs \<noteq> []" by (auto dest: arg_cong [where f = set])
  with zs have "a = b @ butlast zs" by (metis butlast_append butlast_snoc)
  then show "\<exists>zs. a = b @ zs" ..
qed (auto simp: strncmp_eq_def)

end
