(* ===== verification/Vectors.thy ===== *)
theory Vectors
  imports Prelude
begin

text \<open>
  The three growable arrays of \<open>libelftc_dem_gnu3.c\<close>: \<open>vector_str\<close> (strings),
  \<open>vector_read_cmd\<close> (the stack of constructs being read) and \<open>vector_type_qualifier\<close>.

  A vector is a record of its \<open>capacity\<close> and of the elements below its \<open>size\<close>; the
  slots between size and capacity are never read. A string of a \<open>vector_str\<close> carries the number
  of the allocation that made it, because the demangler keeps a pointer to one
  (\<open>last_sname\<close>). The operations that allocate are computations over the \<open>heap\<close> part of
  any state. Releasing a temporary has no effect that the program can observe and is left out;
  releasing a vector that outlives a call (\<open>vector_str_dest\<close>) is modelled.

  The three arrays share one contract, stated as the locale \<open>growable\<close> and proved for each.
\<close>

section \<open>Definitions\<close>

text \<open>
  \<open>BUFFER_GROW(x)\<close> is \<open>(size_t)((x + 0.5) * 1.618)\<close>. The exact product
  \<open>(2 x + 1) * 809 / 1000\<close> is never an integer (its numerator is odd), and is at least
  \<open>1/1000\<close> away from one, so the conversion of the rounded product gives its integer part.
\<close>

definition BUFFER_GROW :: "nat \<Rightarrow> nat" where
  "BUFFER_GROW x = (2 * x + 1) * 809 div 1000"

definition VECTOR_DEF_CAPACITY :: nat where
  "VECTOR_DEF_CAPACITY = 8"

definition sizeof_ptr :: nat where "sizeof_ptr = 8"
definition sizeof_enum :: nat where "sizeof_enum = 4"
definition sizeof_cmd_item :: nat where "sizeof_cmd_item = 16"

definition SIZE_MAX :: nat where
  "SIZE_MAX = 18446744073709551615"

text \<open>\<open>n - 1\<close> and \<open>n + 1\<close> on \<open>size_t\<close>.\<close>

definition size_pred :: "nat \<Rightarrow> nat" where
  "size_pred n = (if n = 0 then SIZE_MAX else n - 1)"

definition size_succ :: "nat \<Rightarrow> nat" where
  "size_succ n = (n + 1) mod (SIZE_MAX + 1)"

subsection \<open>Vectors of strings\<close>

type_synonym str_obj = "nat \<times> string"

record vector_str =
  vs_capacity :: nat
  vs_container :: "str_obj list"

definition vs_size :: "vector_str \<Rightarrow> nat" where
  "vs_size v = length (vs_container v)"

definition vs_texts :: "vector_str \<Rightarrow> string list" where
  "vs_texts v = map snd (vs_container v)"

fun sum_strlen :: "str_obj list \<Rightarrow> nat" where
  "sum_strlen [] = 0"
| "sum_strlen (x # xs) = length (snd x) + sum_strlen xs"

definition get_strlen_sum :: "vector_str \<Rightarrow> (nat \<Rightarrow> ('a, 's) M) \<Rightarrow> ('a, 's) M" where
  "get_strlen_sum v k = c_assert (vs_size v > 0) (k (sum_strlen (vs_container v)))"

text \<open>A string that was already released is released again.\<close>

definition vector_str_dest :: "vector_str \<Rightarrow> (unit, 'h heap_scheme) M" where
  "vector_str_dest v = (\<lambda>s.
     if list_ex (\<lambda>x. List.member (freed s) (fst x)) (vs_container v) then Fault Double_Free else Ok () s)"

text \<open>
  \<open>-1\<close> for a null argument, \<open>0\<close> not found, \<open>1\<close> found. Each comparison reads at most
  \<open>l\<close> bytes of the argument.
\<close>

definition vector_str_find :: "vector_str \<Rightarrow> cbuf option \<Rightarrow> nat \<Rightarrow> (int, 's) M" where
  "vector_str_find v ob l =
     (case ob of None \<Rightarrow> ret (-1)
      | Some Garbage \<Rightarrow> (if vs_size v = 0 then ret 0 else if l = 0 then ret 1 else crash Uninitialised)
      | Some (Chars str) \<Rightarrow>
          ret (if list_ex (\<lambda>x. strncmp_eq (snd x) str l) (vs_container v) then 1 else 0))"

definition vector_str_get_flat :: "vector_str \<Rightarrow> ((string \<times> nat) option, 'h heap_scheme) M" where
  "vector_str_get_flat v =
     (if vs_size v = 0 then ret None
      else get_strlen_sum v (\<lambda>rtn_size.
        if rtn_size = 0 then ret None
        else bind (malloc (rtn_size + 1)) (\<lambda>p.
          case p of None \<Rightarrow> ret None
          | Some _ \<Rightarrow> ret (Some (concat (vs_texts v), rtn_size)))))"

definition vector_str_grow :: "vector_str \<Rightarrow> (bool \<times> vector_str, 'h heap_scheme) M" where
  "vector_str_grow v =
     c_assert (vs_capacity v > 0) (
       let tmp_cap = BUFFER_GROW (vs_capacity v) in
       c_assert (tmp_cap > vs_capacity v) (
         bind (malloc (sizeof_ptr * tmp_cap)) (\<lambda>p.
           case p of None \<Rightarrow> ret (False, v)
           | Some _ \<Rightarrow> ret (True, v\<lparr>vs_capacity := tmp_cap\<rparr>))))"

definition vector_str_init :: "(vector_str option, 'h heap_scheme) M" where
  "vector_str_init =
     bind (malloc (sizeof_ptr * VECTOR_DEF_CAPACITY)) (\<lambda>p.
       case p of None \<Rightarrow> ret None
       | Some _ \<Rightarrow> ret (Some \<lparr>vs_capacity = VECTOR_DEF_CAPACITY, vs_container = []\<rparr>))"

definition vector_str_pop :: "vector_str \<Rightarrow> vector_str" where
  "vector_str_pop v =
     (if vs_size v = 0 then v else v\<lparr>vs_container := butlast (vs_container v)\<rparr>)"

text \<open>The loop \<open>for (i = p_idx; i < idx; ++i) vector_str_pop(v)\<close> of the callers.\<close>

primrec pop_times :: "nat \<Rightarrow> vector_str \<Rightarrow> vector_str" where
  "pop_times 0 v = v"
| "pop_times (Suc n) v = pop_times n (vector_str_pop v)"

text \<open>
  \<open>copy_string(dst, src, dsize)\<close>: the bytes written before the terminating NUL. The byte at
  \<open>src[dsize - 1]\<close> is never read.
\<close>

fun copy_loop :: "nat \<Rightarrow> string \<Rightarrow> string" where
  "copy_loop remain [] = []"
| "copy_loop remain (c # src) = (if remain = 0 then [] else c # copy_loop (remain - 1) src)"

definition copy_string :: "cbuf \<Rightarrow> nat \<Rightarrow> (string \<Rightarrow> ('a, 's) M) \<Rightarrow> ('a, 's) M" where
  "copy_string src dsize k =
     (if dsize \<le> 1 then k []
      else case src of Chars cs \<Rightarrow> k (copy_loop (dsize - 1) cs) | Garbage \<Rightarrow> crash Uninitialised)"

definition vector_str_push :: "vector_str \<Rightarrow> cbuf \<Rightarrow> nat \<Rightarrow> (bool \<times> vector_str, 'h heap_scheme) M" where
  "vector_str_push v str len =
     bind (if vs_size v = vs_capacity v then vector_str_grow v else ret (True, v)) (\<lambda>(ok, v).
       if \<not> ok then ret (False, v)
       else bind (malloc (len + 1)) (\<lambda>p.
         case p of None \<Rightarrow> ret (False, v)
         | Some i \<Rightarrow> copy_string str (len + 1) (\<lambda>txt.
             if vs_size v < vs_capacity v
             then ret (True, v\<lparr>vs_container := vs_container v @ [(i, txt)]\<rparr>)
             else crash Buffer_Overflow)))"

definition VEC_PUSH_STR :: "vector_str \<Rightarrow> cbuf \<Rightarrow> (bool \<times> vector_str, 'h heap_scheme) M" where
  "VEC_PUSH_STR v str = c_strlen str (\<lambda>n. vector_str_push v str n)"

text \<open>\<open>strdup\<close> of each string in turn; \<open>None\<close> when one of the copies fails.\<close>

fun strdup_all :: "str_obj list \<Rightarrow> (str_obj list option, 'h heap_scheme) M" where
  "strdup_all [] = ret (Some [])"
| "strdup_all (x # xs) =
     bind (malloc (length (snd x) + 1)) (\<lambda>p.
       case p of None \<Rightarrow> ret None
       | Some i \<Rightarrow> bind (strdup_all xs) (\<lambda>r.
           case r of None \<Rightarrow> ret None | Some ys \<Rightarrow> ret (Some ((i, snd x) # ys))))"

definition vector_str_push_vector_head ::
    "vector_str \<Rightarrow> vector_str \<Rightarrow> (bool \<times> vector_str, 'h heap_scheme) M" where
  "vector_str_push_vector_head dst org =
     (let tmp_cap = BUFFER_GROW (vs_size dst + vs_size org) in
      bind (malloc (sizeof_ptr * tmp_cap)) (\<lambda>p.
        case p of None \<Rightarrow> ret (False, dst)
        | Some _ \<Rightarrow> bind (strdup_all (vs_container org)) (\<lambda>r.
            case r of None \<Rightarrow> ret (False, dst)
            | Some ys \<Rightarrow> ret (True, \<lparr>vs_capacity = tmp_cap, vs_container = ys @ vs_container dst\<rparr>))))"

text \<open>
  When a copy fails this one releases the first \<open>i + dst->size\<close> entries of the new array,
  among them the strings that \<open>dst\<close> still holds.
\<close>

definition vector_str_push_vector ::
    "vector_str \<Rightarrow> vector_str \<Rightarrow> (bool \<times> vector_str, 'h heap_scheme) M" where
  "vector_str_push_vector dst org =
     (let tmp_cap = BUFFER_GROW (vs_size dst + vs_size org) in
      bind (malloc (sizeof_ptr * tmp_cap)) (\<lambda>p.
        case p of None \<Rightarrow> ret (False, dst)
        | Some _ \<Rightarrow> bind (strdup_all (vs_container org)) (\<lambda>r.
            case r of None \<Rightarrow>
                upd (\<lambda>s. s\<lparr>freed := map fst (vs_container dst) @ freed s\<rparr>) (ret (False, dst))
            | Some ys \<Rightarrow> ret (True, \<lparr>vs_capacity = tmp_cap, vs_container = vs_container dst @ ys\<rparr>))))"

text \<open>
  The strings from \<open>begin\<close> to \<open>end\<close> as one fresh string, with its length. When the
  loops make no round the fresh block is returned as it came from \<open>malloc\<close>.
\<close>

definition vector_str_substr ::
    "vector_str \<Rightarrow> nat \<Rightarrow> nat \<Rightarrow> ((cbuf \<times> nat) option, 'h heap_scheme) M" where
  "vector_str_substr v begin end =
     (if begin > end then ret None
      else let stop = size_succ end in
        if begin < stop \<and> stop > vs_size v then crash Out_Of_Bounds
        else let xs = take (stop - begin) (drop begin (vs_container v)); len = sum_strlen xs in
          bind (malloc (len + 1)) (\<lambda>p.
            case p of None \<Rightarrow> ret None
            | Some _ \<Rightarrow> ret (Some (if begin < stop then Chars (concat (map snd xs)) else Garbage, len))))"

text \<open>\<open>vector_str_substr(v, p_idx, v->size - 1, ..)\<close>, the form of every call.\<close>

definition substr_from :: "vector_str \<Rightarrow> nat \<Rightarrow> ((cbuf \<times> nat) option, 'h heap_scheme) M" where
  "substr_from v p_idx = vector_str_substr v p_idx (size_pred (vs_size v))"

subsection \<open>Vectors of type qualifiers\<close>

datatype type_qualifier =
    TYPE_PTR | TYPE_REF | TYPE_CMX | TYPE_IMG | TYPE_EXT | TYPE_RST | TYPE_VAT
  | TYPE_CST | TYPE_VEC | TYPE_RREF

record vector_type_qualifier =
  vq_capacity :: nat
  vq_container :: "type_qualifier list"
  ext_name :: vector_str

definition vq_size :: "vector_type_qualifier \<Rightarrow> nat" where
  "vq_size v = length (vq_container v)"

definition vector_type_qualifier_dest :: "vector_type_qualifier \<Rightarrow> (unit, 'h heap_scheme) M" where
  "vector_type_qualifier_dest v = vector_str_dest (ext_name v)"

definition vector_type_qualifier_init :: "(vector_type_qualifier option, 'h heap_scheme) M" where
  "vector_type_qualifier_init =
     bind (malloc (sizeof_enum * VECTOR_DEF_CAPACITY)) (\<lambda>p.
       case p of None \<Rightarrow> ret None
       | Some _ \<Rightarrow> bind vector_str_init (\<lambda>e.
           case e of None \<Rightarrow> ret None
           | Some en \<Rightarrow> ret (Some \<lparr>vq_capacity = VECTOR_DEF_CAPACITY, vq_container = [],
                                     ext_name = en\<rparr>)))"

definition vector_type_qualifier_push ::
    "vector_type_qualifier \<Rightarrow> type_qualifier \<Rightarrow> (bool \<times> vector_type_qualifier, 'h heap_scheme) M" where
  "vector_type_qualifier_push v t =
     bind (if vq_size v = vq_capacity v
           then let tmp_cap = BUFFER_GROW (vq_capacity v) in
             bind (malloc (sizeof_enum * tmp_cap)) (\<lambda>p.
               case p of None \<Rightarrow> ret (False, v)
               | Some _ \<Rightarrow> ret (True, v\<lparr>vq_capacity := tmp_cap\<rparr>))
           else ret (True, v)) (\<lambda>(ok, v).
       if \<not> ok then ret (False, v)
       else if vq_size v < vq_capacity v
       then ret (True, v\<lparr>vq_container := vq_container v @ [t]\<rparr>)
       else crash Buffer_Overflow)"

subsection \<open>The stack of read commands\<close>

datatype read_cmd =
    READ_FAIL | READ_NEST | READ_TMPL | READ_EXPR | READ_EXPL | READ_LOCAL
  | READ_TYPE | READ_FUNC | READ_PTRMEM

text \<open>
  \<open>data\<close> is null or, for \<open>READ_PTRMEM\<close>, a pointer to the qualifier vector of the type
  being read. That vector does not change while the item is on the stack, so the item holds its
  value.
\<close>

record read_cmd_item =
  rc_cmd :: read_cmd
  rc_data :: "vector_type_qualifier option"

record vector_read_cmd =
  vr_capacity :: nat
  r_container :: "read_cmd_item list"

definition vr_size :: "vector_read_cmd \<Rightarrow> nat" where
  "vr_size v = length (r_container v)"

text \<open>Only the array itself is released: the items do not own what they point to.\<close>

definition vector_read_cmd_dest :: "vector_read_cmd \<Rightarrow> (unit, 'h heap_scheme) M" where
  "vector_read_cmd_dest v = ret ()"

definition vector_read_cmd_find :: "vector_read_cmd \<Rightarrow> read_cmd \<Rightarrow> read_cmd_item option" where
  "vector_read_cmd_find v dst =
     (if dst = READ_FAIL then None
      else List.find (\<lambda>it. rc_cmd it = dst) (rev (r_container v)))"

definition vector_read_cmd_init :: "(vector_read_cmd option, 'h heap_scheme) M" where
  "vector_read_cmd_init =
     bind (malloc (sizeof_cmd_item * VECTOR_DEF_CAPACITY)) (\<lambda>p.
       case p of None \<Rightarrow> ret None
       | Some _ \<Rightarrow> ret (Some \<lparr>vr_capacity = VECTOR_DEF_CAPACITY, r_container = []\<rparr>))"

definition vector_read_cmd_pop :: "vector_read_cmd \<Rightarrow> bool \<times> vector_read_cmd" where
  "vector_read_cmd_pop v =
     (if vr_size v = 0 then (False, v)
      else (True, v\<lparr>r_container := butlast (r_container v)\<rparr>))"

definition vector_read_cmd_push ::
    "vector_read_cmd \<Rightarrow> read_cmd_item \<Rightarrow> (bool \<times> vector_read_cmd, 'h heap_scheme) M" where
  "vector_read_cmd_push v it =
     bind (if vr_size v = vr_capacity v
           then let tmp_cap = BUFFER_GROW (vr_capacity v) in
             bind (malloc (sizeof_cmd_item * tmp_cap)) (\<lambda>p.
               case p of None \<Rightarrow> ret (False, v)
               | Some _ \<Rightarrow> ret (True, v\<lparr>vr_capacity := tmp_cap\<rparr>))
           else ret (True, v)) (\<lambda>(ok, v).
       if \<not> ok then ret (False, v)
       else if vr_size v < vr_capacity v
       then ret (True, v\<lparr>r_container := r_container v @ [it]\<rparr>)
       else crash Buffer_Overflow)"

section \<open>Growth\<close>

lemma BUFFER_GROW_ge: "n \<le> BUFFER_GROW n"
  by (simp add: BUFFER_GROW_def)

lemma BUFFER_GROW_gt: "0 < n \<Longrightarrow> n < BUFFER_GROW n"
  by (simp add: BUFFER_GROW_def)

lemma BUFFER_GROW_pos: "0 < n \<Longrightarrow> 0 < BUFFER_GROW n"
  using BUFFER_GROW_ge [of n] by simp

definition vs_fit :: "vector_str \<Rightarrow> bool" where
  "vs_fit v \<longleftrightarrow> vs_size v \<le> vs_capacity v"

definition vq_fit :: "vector_type_qualifier \<Rightarrow> bool" where
  "vq_fit v \<longleftrightarrow> vq_size v \<le> vq_capacity v \<and> 0 < vq_capacity v \<and> vs_fit (ext_name v)"

definition vr_fit :: "vector_read_cmd \<Rightarrow> bool" where
  "vr_fit v \<longleftrightarrow> vr_size v \<le> vr_capacity v \<and> 0 < vr_capacity v"

lemma vs_size_simps [simp]:
  "vs_size \<lparr>vs_capacity = c, vs_container = xs\<rparr> = length xs"
  "vs_size (v\<lparr>vs_capacity := c\<rparr>) = vs_size v"
  "vs_size (v\<lparr>vs_container := xs\<rparr>) = length xs"
  by (simp_all add: vs_size_def)

lemma vs_fit_simps [simp]:
  "vs_fit \<lparr>vs_capacity = c, vs_container = xs\<rparr> \<longleftrightarrow> length xs \<le> c"
  by (simp add: vs_fit_def)

lemma vs_texts_simps [simp]:
  "vs_texts \<lparr>vs_capacity = c, vs_container = xs\<rparr> = map snd xs"
  "vs_texts (v\<lparr>vs_capacity := c\<rparr>) = vs_texts v"
  "vs_texts (v\<lparr>vs_container := xs\<rparr>) = map snd xs"
  by (simp_all add: vs_texts_def)

lemma copy_loop_take: "copy_loop n src = take n src"
  by (induction n src rule: copy_loop.induct) (auto simp: take_Cons')

lemma sum_strlen_concat: "sum_strlen xs = length (concat (map snd xs))"
  by (induction xs) auto

section \<open>The contract of the three arrays\<close>

text \<open>
  \<open>elems\<close> are the elements below the size, \<open>stored x e\<close> says that \<open>e\<close> is what is kept of
  the argument \<open>x\<close>. A successful push appends one element, a failed one changes nothing, and
  from a state with room or with a positive capacity none goes out of bounds.
\<close>

definition room :: "('v \<Rightarrow> 'e list) \<Rightarrow> ('v \<Rightarrow> nat) \<Rightarrow> 'v \<Rightarrow> bool" where
  "room elems capacity v \<longleftrightarrow> length (elems v) \<le> capacity v \<and> 0 < capacity v"

primrec push_all :: "('v \<Rightarrow> 'x \<Rightarrow> (bool \<times> 'v, 's) M) \<Rightarrow> 'v \<Rightarrow> 'x list \<Rightarrow> (bool \<times> 'v, 's) M" where
  "push_all push v [] = ret (True, v)"
| "push_all push v (x # xs) = bind (push v x) (\<lambda>(ok, v'). if ok then push_all push v' xs else ret (False, v'))"

lemma push_all_map: "push_all push v (map f xs) = push_all (\<lambda>v x. push v (f x)) v xs"
  by (induction xs arbitrary: v) (simp_all cong: if_cong prod.case_cong)

locale growable =
  fixes elems :: "'v \<Rightarrow> 'e list" and capacity :: "'v \<Rightarrow> nat"
    and init :: "('v option, 'h heap_scheme) M"
    and push :: "'v \<Rightarrow> 'x \<Rightarrow> (bool \<times> 'v, 'h heap_scheme) M"
    and stored :: "'x \<Rightarrow> 'e \<Rightarrow> bool"
  assumes init_empty: "init s = Ok (Some v) t \<Longrightarrow> elems v = [] \<and> 0 < capacity v"
    and push_appends: "room elems capacity v \<Longrightarrow> push v x s = Ok (True, v') t
      \<Longrightarrow> room elems capacity v' \<and> capacity v \<le> capacity v' \<and> (\<exists>e. stored x e \<and> elems v' = elems v @ [e])"
    and push_keeps: "room elems capacity v \<Longrightarrow> push v x s = Ok (False, v') t
      \<Longrightarrow> room elems capacity v' \<and> capacity v \<le> capacity v' \<and> elems v' = elems v"
    and push_faults: "room elems capacity v \<Longrightarrow> push v x s = Fault e \<Longrightarrow> e = Uninitialised"
begin

lemma init_room: "init s = Ok (Some v) t \<Longrightarrow> room elems capacity v"
  using init_empty by (simp add: room_def)

lemma push_all_faults: "room elems capacity v \<Longrightarrow> push_all push v xs s = Fault e \<Longrightarrow> e = Uninitialised"
proof (induction xs arbitrary: v s)
  case (Cons x xs)
  from Cons.prems show ?case
    by (auto simp: bind_def ret_def dest: push_faults push_appends Cons.IH split: res.splits prod.splits if_splits)
qed (simp add: ret_def)

lemma push_all_appends:
  "room elems capacity v \<Longrightarrow> push_all push v xs s = Ok (True, v') t
   \<Longrightarrow> room elems capacity v' \<and> (\<exists>es. list_all2 stored xs es \<and> elems v' = elems v @ es)"
proof (induction xs arbitrary: v s)
  case (Cons x xs)
  from Cons.prems(2) obtain w u where w: "push v x s = Ok (True, w) u" "push_all push w xs u = Ok (True, v') t"
    by (auto simp: bind_def ret_def split: res.splits prod.splits if_splits)
  from push_appends [OF Cons.prems(1) w(1)] obtain e
    where e: "room elems capacity w" "stored x e" "elems w = elems v @ [e]" by blast
  from Cons.IH [OF e(1) w(2)] obtain es
    where "room elems capacity v'" "list_all2 stored xs es" "elems v' = elems w @ es" by blast
  with e show ?case by (intro conjI exI [of _ "e # es"]) auto
qed (simp add: ret_def)

text \<open>A whole life of an array: created, then filled.\<close>

lemma fill:
  assumes "init s = Ok (Some v) t" and "push_all push v xs t = Ok (True, v') u"
  shows "list_all2 stored xs (elems v') \<and> length xs \<le> capacity v'"
  using push_all_appends [OF init_room [OF assms(1)] assms(2)] init_empty [OF assms(1)]
  by (auto simp: room_def dest: list_all2_lengthD)

end

lemmas array_defs = room_def VECTOR_DEF_CAPACITY_def bind_def ret_def crash_def malloc_def c_assert_def Let_def
  BUFFER_GROW_gt BUFFER_GROW_ge BUFFER_GROW_pos Suc_le_eq

lemmas array_splits = res.splits option.splits if_splits cbuf.splits prod.splits

interpretation strs: growable vs_container vs_capacity vector_str_init
  "\<lambda>v (str, len). vector_str_push v str len"
  "\<lambda>(str, len) e. len = 0 \<and> snd e = [] \<or> (\<exists>txt. str = Chars txt \<and> snd e = take len txt)"
  by unfold_locales
    (auto simp: vector_str_init_def vector_str_push_def vector_str_grow_def copy_string_def copy_loop_take
      vs_size_def array_defs split: array_splits)

interpretation quals: growable vq_container vq_capacity vector_type_qualifier_init
  vector_type_qualifier_push "(=)"
  by unfold_locales
    (auto simp: vector_type_qualifier_init_def vector_type_qualifier_push_def vq_size_def array_defs
      split: array_splits)

interpretation cmds: growable r_container vr_capacity vector_read_cmd_init vector_read_cmd_push "(=)"
  by unfold_locales
    (auto simp: vector_read_cmd_init_def vector_read_cmd_push_def vr_size_def array_defs
      split: array_splits)

section \<open>Functional behaviour\<close>

definition all_ok :: "'h heap_scheme \<Rightarrow> bool" where
  "all_ok s \<longleftrightarrow> (\<forall>i n. mem s i n)"

lemma all_ok_brk [simp]: "all_ok (s\<lparr>brk := i\<rparr>) = all_ok s"
  by (simp add: all_ok_def)

lemma malloc_ok: "all_ok s \<Longrightarrow> malloc n s = Ok (Some (brk s)) (s\<lparr>brk := Suc (brk s)\<rparr>)"
  by (simp add: malloc_def all_ok_def)

lemma vector_str_push_ok:
  assumes "vs_fit v" and "0 < vs_capacity v" and "all_ok s"
  shows "\<exists>v' i. vector_str_push v (Chars txt) len s = Ok (True, v') (s\<lparr>brk := i\<rparr>)
    \<and> vs_texts v' = vs_texts v @ [take len txt] \<and> vs_fit v' \<and> vs_capacity v \<le> vs_capacity v'"
  using assms
  by (auto simp: vector_str_push_def vector_str_grow_def vs_fit_def vs_size_def vs_texts_def copy_string_def
      copy_loop_take malloc_ok array_defs(3-5,7-))

lemma vector_str_init_ok:
  "all_ok s \<Longrightarrow> vector_str_init s = Ok (Some \<lparr>vs_capacity = 8, vs_container = []\<rparr>) (s\<lparr>brk := Suc (brk s)\<rparr>)"
  by (simp add: vector_str_init_def bind_def ret_def malloc_ok VECTOR_DEF_CAPACITY_def)

lemma substr_from_ok:
  assumes "all_ok s" and "i < vs_size v" and "vs_size v \<le> SIZE_MAX"
  shows "substr_from v i s = Ok (Some (Chars (concat (drop i (vs_texts v))), length (concat (drop i (vs_texts v)))))
    (s\<lparr>brk := Suc (brk s)\<rparr>)"
proof -
  have "size_succ (size_pred (vs_size v)) = vs_size v"
    using assms(2,3) by (simp add: size_succ_def size_pred_def)
  moreover have "size_pred (vs_size v) = vs_size v - 1" using assms(2) by (simp add: size_pred_def)
  ultimately show ?thesis
    using assms(1,2)
    by (simp add: substr_from_def vector_str_substr_def Let_def bind_def ret_def malloc_ok sum_strlen_concat
        vs_texts_def vs_size_def drop_map)
qed

lemma strdup_all_ok:
  "all_ok s \<Longrightarrow> \<exists>ys. strdup_all xs s = Ok (Some ys) (s\<lparr>brk := brk s + length xs\<rparr>) \<and> map snd ys = map snd xs"
proof (induction xs arbitrary: s)
  case (Cons x xs)
  from Cons.prems Cons.IH [of "s\<lparr>brk := Suc (brk s)\<rparr>"] show ?case
    by (auto simp: bind_def ret_def malloc_ok)
qed (simp add: ret_def)

lemma strdup_all_texts: "strdup_all xs s = Ok (Some ys) t \<Longrightarrow> map snd ys = map snd xs"
proof (induction xs arbitrary: ys s t)
  case (Cons x xs)
  then show ?case by (fastforce simp: bind_def ret_def malloc_def split: res.splits option.splits if_splits)
qed (simp add: ret_def)

lemma strdup_all_total: "\<exists>r t. strdup_all xs s = Ok r t \<and> freed t = freed s"
proof (induction xs arbitrary: s)
  case (Cons x xs)
  show ?case using Cons.IH [of "s\<lparr>brk := Suc (brk s)\<rparr>"]
    by (auto simp: bind_def ret_def malloc_def split: option.split)
qed (simp add: ret_def)

section \<open>Properties\<close>

text \<open>
  Filling a fresh vector of strings: whatever pushes succeed, the vector then holds exactly the
  pushed strings in order, each cut to the length given, within its capacity.
\<close>

theorem vector_str_fill:
  assumes "vector_str_init s = Ok (Some v) t"
    and "push_all (\<lambda>v (txt, len). vector_str_push v (Chars txt) len) v xs t = Ok (True, v') u"
  shows "vs_texts v' = map (\<lambda>(txt, len). take len txt) xs \<and> vs_size v' \<le> vs_capacity v'"
proof -
  let ?ys = "map (\<lambda>(txt, len). (Chars txt, len)) xs"
  have "push_all (\<lambda>v (str, len). vector_str_push v str len) v ?ys t = Ok (True, v') u"
    using assms(2) by (simp add: push_all_map split_def)
  with strs.fill [OF assms(1), of ?ys]
  have *: "list_all2 (\<lambda>(str, len) e. len = 0 \<and> snd e = [] \<or> (\<exists>txt. str = Chars txt \<and> snd e = take len txt)) ?ys
      (vs_container v')" and "length xs \<le> vs_capacity v'" by auto
  from * have "vs_texts v' = map (\<lambda>(txt, len). take len txt) xs"
    unfolding vs_texts_def list_all2_map1 by (rule list_all2_induct) auto
  with \<open>length xs \<le> vs_capacity v'\<close> show ?thesis
    by (metis length_map vs_size_def vs_texts_def)
qed

theorem vector_str_fill_witness:
  "\<exists>v t v' u. vector_str_init h0 = Ok (Some v) t
     \<and> push_all (\<lambda>v (txt, len). vector_str_push v (Chars txt) len) v [(''abc'', 2), (''d'', 5)] t = Ok (True, v') u
     \<and> vs_texts v' = [''ab'', ''d''] \<and> vs_size v' \<le> vs_capacity v'"
proof -
  let ?v = "\<lparr>vs_capacity = 8, vs_container = []\<rparr>"
    and ?w = "\<lparr>vs_capacity = 8, vs_container = [(1, ''ab''), (2, ''d'')]\<rparr>"
  have v: "vector_str_init h0 = Ok (Some ?v) (h0\<lparr>brk := 1\<rparr>)"
    by (simp add: vector_str_init_def array_defs h0_def)
  have w: "push_all (\<lambda>v (txt, len). vector_str_push v (Chars txt) len) ?v [(''abc'', 2), (''d'', 5)] (h0\<lparr>brk := 1\<rparr>)
      = Ok (True, ?w) (h0\<lparr>brk := 3\<rparr>)"
    by (simp add: vector_str_push_def copy_string_def copy_loop_take array_defs h0_def)
  from vector_str_fill [OF v w] v w show ?thesis by fastforce
qed

text \<open>
  A push when memory is available: it succeeds on every well-formed vector of positive capacity,
  growing it when it is full, and the new string is the first \<open>len\<close> bytes of the argument.
\<close>

theorem vector_str_push_spec:
  assumes "vs_fit v" and "0 < vs_capacity v" and "all_ok s"
  shows "\<exists>v' t. vector_str_push v (Chars txt) len s = Ok (True, v') t
    \<and> vs_texts v' = vs_texts v @ [take len txt] \<and> vs_fit v' \<and> vs_capacity v \<le> vs_capacity v' \<and> all_ok t"
  using vector_str_push_ok [OF assms] assms(3) by fastforce

theorem vector_str_push_spec_witness:
  "\<exists>v' t. vector_str_push \<lparr>vs_capacity = 2, vs_container = [(5, ''a''), (6, ''b'')]\<rparr> (Chars ''foo_bar'') 3 h0 = Ok (True, v') t
    \<and> vs_texts v' = [''a'', ''b''] @ [take 3 ''foo_bar''] \<and> vs_fit v' \<and> 2 \<le> vs_capacity v' \<and> all_ok t"
  using vector_str_push_spec [of "\<lparr>vs_capacity = 2, vs_container = [(5, ''a''), (6, ''b'')]\<rparr>" h0 "''foo_bar''" 3]
  by (simp add: all_ok_def h0_def)

text \<open>
  Flattening: the result of \<open>vector_str_get_flat\<close> is the concatenation of the strings with
  its length; a null pointer comes back only for a vector without characters or without memory.
\<close>

theorem vector_str_get_flat_spec:
  "vector_str_get_flat v s =
     (let txt = concat (vs_texts v) in
      if txt = [] then Ok None s
      else Ok (if mem s (brk s) (length txt + 1) then Some (txt, length txt) else None) (s\<lparr>brk := Suc (brk s)\<rparr>))"
  by (cases "vs_container v")
    (auto simp: vector_str_get_flat_def get_strlen_sum_def sum_strlen_concat vs_texts_def vs_size_def Let_def
      c_assert_def bind_def malloc_def ret_def split: option.split)

text \<open>
  \<open>vector_str_find\<close> searches by prefix: for a string of \<open>l\<close> bytes it answers 1 exactly
  when some element of the vector begins with it, whether or not the element goes on.
\<close>

theorem vector_str_find_prefix:
  assumes "NUL \<notin> set txt"
  shows "vector_str_find v (Some (Chars txt)) (length txt) s
    = Ok (if \<exists>x \<in> set (vs_texts v). \<exists>zs. x = txt @ zs then 1 else 0) s"
  using strncmp_eq_prefix [OF assms]
  by (auto simp: vector_str_find_def ret_def vs_texts_def list_ex_iff)

theorem vector_str_find_prefix_witness:
  "vector_str_find \<lparr>vs_capacity = 8, vs_container = [(1, ''AB'')]\<rparr> (Some (Chars ''A'')) 1 h0 = Ok 1 h0"
  using vector_str_find_prefix [of "''A''" "\<lparr>vs_capacity = 8, vs_container = [(1, ''AB'')]\<rparr>" h0]
  by (simp add: NUL_def)

text \<open>
  Appending a vector: on success the destination holds its own strings followed by copies of
  those of the other vector.
\<close>

theorem vector_str_push_vector_spec:
  assumes "vector_str_push_vector dst org s = Ok (True, dst') t"
  shows "vs_texts dst' = vs_texts dst @ vs_texts org \<and> vs_fit dst'"
  using assms BUFFER_GROW_ge [of "vs_size dst + vs_size org"]
  by (auto simp: vector_str_push_vector_def Let_def bind_def ret_def upd_def malloc_def vs_texts_def vs_size_def
      dest!: strdup_all_texts [where xs = "vs_container org"] dest: map_eq_imp_length_eq
      split: res.splits option.splits if_splits)

theorem vector_str_push_vector_spec_witness:
  "\<exists>dst' t. vector_str_push_vector \<lparr>vs_capacity = 1, vs_container = [(1, ''a'')]\<rparr>
      \<lparr>vs_capacity = 1, vs_container = [(2, ''b'')]\<rparr> h0 = Ok (True, dst') t \<and> vs_texts dst' = [''a'', ''b''] \<and> vs_fit dst'"
proof -
  have r: "vector_str_push_vector \<lparr>vs_capacity = 1, vs_container = [(1, ''a'')]\<rparr>
      \<lparr>vs_capacity = 1, vs_container = [(2, ''b'')]\<rparr> h0
    = Ok (True, \<lparr>vs_capacity = 4, vs_container = [(1, ''a''), (1, ''b'')]\<rparr>) (h0\<lparr>brk := 2\<rparr>)"
    by (simp add: vector_str_push_vector_def array_defs(3-8) BUFFER_GROW_def h0_def)
  from vector_str_push_vector_spec [OF r] r show ?thesis by simp
qed

text \<open>
  The error path of \<open>vector_str_push_vector\<close>: when a copy fails after the new array was
  allocated, the strings of the destination have been released although it still holds them, so
  that releasing the destination (if it is not empty) frees them a second time.
\<close>

theorem vector_str_push_vector_double_free:
  assumes "mem s (brk s) (sizeof_ptr * BUFFER_GROW (vs_size dst + vs_size org))"
    and "vector_str_push_vector dst org s = Ok (False, dst') t" and "vs_size dst > 0"
  shows "vector_str_dest dst' t = Fault Double_Free"
  using assms strdup_all_total [of "vs_container org" "s\<lparr>brk := Suc (brk s)\<rparr>"]
  by (cases "vs_container dst")
    (auto simp: vector_str_push_vector_def Let_def bind_def ret_def upd_def malloc_def vs_size_def
      vector_str_dest_def split: res.splits option.splits if_splits)

theorem vector_str_push_vector_double_free_witness:
  "\<exists>dst' t. vector_str_push_vector \<lparr>vs_capacity = 1, vs_container = [(1, ''a'')]\<rparr>
      \<lparr>vs_capacity = 1, vs_container = [(2, ''b'')]\<rparr> (h0\<lparr>mem := \<lambda>i n. i = 0\<rparr>) = Ok (False, dst') t
     \<and> vector_str_dest dst' t = Fault Double_Free"
proof -
  let ?a = "\<lparr>vs_capacity = 1, vs_container = [(1, ''a'')]\<rparr>" and ?b = "\<lparr>vs_capacity = 1, vs_container = [(2, ''b'')]\<rparr>"
    and ?h = "h0\<lparr>mem := \<lambda>i n. i = 0\<rparr>"
  have r: "vector_str_push_vector ?a ?b ?h = Ok (False, ?a) (?h\<lparr>brk := 2, freed := [1]\<rparr>)"
    by (simp add: vector_str_push_vector_def array_defs(3-8) upd_def h0_def)
  have "vector_str_dest ?a (?h\<lparr>brk := 2, freed := [1]\<rparr>) = Fault Double_Free"
    by (rule vector_str_push_vector_double_free [OF _ r]) (simp_all add: h0_def)
  with r show ?thesis by blast
qed

end
