(* ===== verification/Demangle_Data.thy ===== *)
theory Demangle_Data
  imports Vectors
begin

text \<open>
  The state of the demangler (\<open>struct cpp_demangle_data\<close>) and the operations of
  \<open>libelftc_dem_gnu3.c\<close> on it that do not recurse into the grammar: reading the mangled name
  through the cursor, pushing output, substitutions, template parameters and type qualifiers,
  numbers, source names and thunk offsets.

  The mangled name is \<open>buf\<close>, its cursor \<open>cur\<close> an index; \<open>peek i\<close> is
  \<open>*(cur + i)\<close> and faults beyond the terminating NUL. \<open>cur_output\<close> points to one of the
  vectors of the state or to a vector in the stack frame of an active call
  (\<open>local_name\<close>, \<open>ret_type\<close>); those are kept in \<open>frames\<close>, the innermost last.
  \<open>last_sname\<close> points to a string of such a vector or to a literal.
\<close>

section \<open>State\<close>

datatype push_qualifier = PUSH_ALL_QUALIFIER | PUSH_CV_QUALIFIER | PUSH_NON_CV_QUALIFIER

datatype vloc = V_output | V_frame nat

datatype sname = Sname_lit string | Sname_ptr nat

record dd = heap +
  output_v :: vector_str
  subst :: vector_str
  tmpl :: vector_str
  class_type :: vector_str
  frames :: "vector_str list"
  cur_output :: vloc
  cmd :: vector_read_cmd
  mem_rst :: bool
  mem_vat :: bool
  mem_cst :: bool
  mem_ref :: bool
  mem_rref :: bool
  is_tmpl :: bool
  is_functype :: bool
  ref_qualifier :: bool
  ref_qualifier_type :: type_qualifier
  push_qualifier :: push_qualifier
  func_type :: int
  buf :: string
  cur :: nat
  last_sname :: "sname option"

record type_delimit =
  paren :: bool
  firstp :: bool

type_synonym 'a D = "('a, dd) M"

definition CPP_DEMANGLE_TRY_LIMIT :: nat where
  "CPP_DEMANGLE_TRY_LIMIT = 128"

text \<open>\<open>SIMPLE_HASH(x, y)\<close> on (signed) \<open>char\<close> values.\<close>

definition schar :: "char \<Rightarrow> int" where
  "schar c = (let n = of_char c in if n < (128::int) then n else n - 256)"

definition SIMPLE_HASH :: "char \<Rightarrow> char \<Rightarrow> int" where
  "SIMPLE_HASH x y = 64 * schar x + schar y"

section \<open>The cursor\<close>

definition peek :: "nat \<Rightarrow> (char \<Rightarrow> 'a D) \<Rightarrow> 'a D" where
  "peek i k = (\<lambda>s.
     if cur s + i < length (buf s) then k (buf s ! (cur s + i)) s
     else if cur s + i = length (buf s) then k NUL s
     else Fault Out_Of_Bounds)"

definition advance :: "nat \<Rightarrow> 'a D \<Rightarrow> 'a D" where
  "advance n k = upd (\<lambda>s. s\<lparr>cur := cur s + n\<rparr>) k"

text \<open>The C string at an index of the mangled name.\<close>

definition str_at :: "nat \<Rightarrow> (string \<Rightarrow> 'a D) \<Rightarrow> 'a D" where
  "str_at i k = (\<lambda>s. if i \<le> length (buf s) then k (drop i (buf s)) s else Fault Out_Of_Bounds)"

text \<open>\<open>while (*ddata->cur != c) ++ddata->cur;\<close> runs past the terminating NUL when there is no \<open>c\<close>.\<close>

definition skip_until :: "char \<Rightarrow> 'a D \<Rightarrow> 'a D" where
  "skip_until c k = gets cur (\<lambda>i. str_at i (\<lambda>str.
     if List.member str c then advance (length (takeWhile (\<lambda>x. x \<noteq> c) str)) k
     else crash Out_Of_Bounds))"

text \<open>\<open>while (ELFTC_ISDIGIT(*ddata->cur) != 0) ++ddata->cur;\<close>\<close>

definition skip_digits :: "'a D \<Rightarrow> 'a D" where
  "skip_digits k = gets cur (\<lambda>i. str_at i (\<lambda>str. advance (length (takeWhile c_isdigit str)) k))"

section \<open>Output vectors\<close>

definition vget :: "vloc \<Rightarrow> dd \<Rightarrow> vector_str option" where
  "vget l s = (case l of V_output \<Rightarrow> Some (output_v s)
     | V_frame k \<Rightarrow> if k < length (frames s) then Some (frames s ! k) else None)"

definition vput :: "vloc \<Rightarrow> vector_str \<Rightarrow> dd \<Rightarrow> dd" where
  "vput l v s = (case l of V_output \<Rightarrow> s\<lparr>output_v := v\<rparr>
     | V_frame k \<Rightarrow> s\<lparr>frames := (frames s)[k := v]\<rparr>)"

definition with_vec :: "vloc \<Rightarrow> (vector_str \<Rightarrow> 'a D) \<Rightarrow> 'a D" where
  "with_vec l k = (\<lambda>s. case vget l s of None \<Rightarrow> Fault Use_After_Free | Some v \<Rightarrow> k v s)"

definition on_vec :: "vloc \<Rightarrow> (vector_str \<Rightarrow> (bool \<times> vector_str) D) \<Rightarrow> bool D" where
  "on_vec l op = with_vec l (\<lambda>v. bind (op v) (\<lambda>(b, v'). upd (vput l v') (ret b)))"

definition on_subst :: "(vector_str \<Rightarrow> (bool \<times> vector_str) D) \<Rightarrow> bool D" where
  "on_subst op = gets subst (\<lambda>v. bind (op v) (\<lambda>(b, v'). upd (\<lambda>s. s\<lparr>subst := v'\<rparr>) (ret b)))"

definition on_tmpl :: "(vector_str \<Rightarrow> (bool \<times> vector_str) D) \<Rightarrow> bool D" where
  "on_tmpl op = gets tmpl (\<lambda>v. bind (op v) (\<lambda>(b, v'). upd (\<lambda>s. s\<lparr>tmpl := v'\<rparr>) (ret b)))"

definition on_class_type :: "(vector_str \<Rightarrow> (bool \<times> vector_str) D) \<Rightarrow> bool D" where
  "on_class_type op =
     gets class_type (\<lambda>v. bind (op v) (\<lambda>(b, v'). upd (\<lambda>s. s\<lparr>class_type := v'\<rparr>) (ret b)))"

definition on_cmd :: "(vector_read_cmd \<Rightarrow> (bool \<times> vector_read_cmd) D) \<Rightarrow> bool D" where
  "on_cmd op = gets cmd (\<lambda>v. bind (op v) (\<lambda>(b, v'). upd (\<lambda>s. s\<lparr>cmd := v'\<rparr>) (ret b)))"

text \<open>A vector in the frame of the running function: made and pointed to, and released.\<close>

definition frame_push :: "vector_str \<Rightarrow> 'a D \<Rightarrow> 'a D" where
  "frame_push v k = upd (\<lambda>s. s\<lparr>cur_output := V_frame (length (frames s)), frames := frames s @ [v]\<rparr>) k"

definition frame_pop :: "'a D \<Rightarrow> 'a D" where
  "frame_pop k = gets (\<lambda>s. last (frames s)) (\<lambda>v. bind (vector_str_dest v) (\<lambda>_.
     upd (\<lambda>s. s\<lparr>frames := butlast (frames s)\<rparr>) k))"

text \<open>Reading through \<open>last_sname\<close>: the string lives as long as a vector holds it.\<close>

definition deref_sname :: "sname \<Rightarrow> (string \<Rightarrow> 'a D) \<Rightarrow> 'a D" where
  "deref_sname p k = (case p of Sname_lit str \<Rightarrow> k str
     | Sname_ptr i \<Rightarrow> (\<lambda>s.
         if List.member (freed s) i then Fault Use_After_Free
         else case map_of (vs_container (output_v s) @ concat (map vs_container (frames s))) i of
             None \<Rightarrow> Fault Use_After_Free | Some str \<Rightarrow> k str s))"

section \<open>Creation and release\<close>

definition cpp_demangle_data_init :: "string \<Rightarrow> nat \<Rightarrow> bool D" where
  "cpp_demangle_data_init org i =
     check_some vector_str_init (\<lambda>vo.
     check_some vector_str_init (\<lambda>vs.
     check_some vector_str_init (\<lambda>vt.
     check_some vector_str_init (\<lambda>vc.
     check_some vector_read_cmd_init (\<lambda>vr.
     upd (\<lambda>s. s\<lparr>output_v := vo, subst := vs, tmpl := vt, class_type := vc, cmd := vr,
       mem_rst := False, mem_vat := False, mem_cst := False, mem_ref := False, mem_rref := False,
       is_tmpl := False, is_functype := False, ref_qualifier := False,
       push_qualifier := PUSH_ALL_QUALIFIER, func_type := 0, buf := org, cur := i,
       cur_output := V_output, last_sname := None\<rparr>) (ret True))))))"

definition cpp_demangle_data_dest :: "'a D \<Rightarrow> 'a D" where
  "cpp_demangle_data_dest k =
     gets cmd (\<lambda>v. bind (vector_read_cmd_dest v) (\<lambda>_.
     gets class_type (\<lambda>v. bind (vector_str_dest v) (\<lambda>_.
     gets tmpl (\<lambda>v. bind (vector_str_dest v) (\<lambda>_.
     gets subst (\<lambda>v. bind (vector_str_dest v) (\<lambda>_.
     gets output_v (\<lambda>v. bind (vector_str_dest v) (\<lambda>_. k))))))))))"

section \<open>Pushing strings\<close>

definition cpp_demangle_push_str :: "cbuf \<Rightarrow> nat \<Rightarrow> bool D" where
  "cpp_demangle_push_str str len =
     (if len = 0 then ret False
      else upd (\<lambda>s. s\<lparr>is_tmpl := False\<rparr>) (
        gets cur_output (\<lambda>l. on_vec l (\<lambda>v. vector_str_push v str len))))"

definition DEM_PUSH_STR :: "string \<Rightarrow> bool D" where
  "DEM_PUSH_STR str = cpp_demangle_push_str (Chars str) (length str)"

text \<open>The macro on a buffer that another function returned.\<close>

definition DEM_PUSH_BUF :: "cbuf \<Rightarrow> bool D" where
  "DEM_PUSH_BUF b = c_strlen b (\<lambda>n. cpp_demangle_push_str b n)"

definition cpp_demangle_pop_str :: "bool D" where
  "cpp_demangle_pop_str = gets cur_output (\<lambda>l. on_vec l (\<lambda>v. ret (True, vector_str_pop v)))"

definition cpp_demangle_push_subst :: "cbuf \<Rightarrow> nat \<Rightarrow> bool D" where
  "cpp_demangle_push_subst str len =
     (if len = 0 then ret False
      else gets subst (\<lambda>v. bind (vector_str_find v (Some str) len) (\<lambda>found.
        if found = 0 then on_subst (\<lambda>v. vector_str_push v str len) else ret True)))"

definition cpp_demangle_push_subst_v :: "vector_str \<Rightarrow> bool D" where
  "cpp_demangle_push_subst_v v =
     check_some (vector_str_get_flat v) (\<lambda>(str, str_len). cpp_demangle_push_subst (Chars str) str_len)"

definition cpp_demangle_push_fp :: "(string \<Rightarrow> nat \<Rightarrow> string option D) \<Rightarrow> bool D" where
  "cpp_demangle_push_fp decoder =
     gets cur (\<lambda>fp. skip_until (CHR ''E'') (gets cur (\<lambda>e. str_at fp (\<lambda>str.
       check_some (decoder str (e - fp)) (\<lambda>f.
         bind (if length f > 0 then cpp_demangle_push_str (Chars f) (length f) else ret False) (\<lambda>rtn.
           advance 1 (ret rtn)))))))"

section \<open>Type qualifiers\<close>

definition is_cv :: "type_qualifier \<Rightarrow> bool" where
  "is_cv t \<longleftrightarrow> t = TYPE_RST \<or> t = TYPE_VAT \<or> t = TYPE_CST"

text \<open>
  The qualifier's text goes to the output and, when the type is known, to the running name
  \<open>subst_v\<close> of the qualified type, which becomes a substitution unless \<open>hold\<close>.
\<close>

definition push_qual_str ::
    "string \<Rightarrow> bool \<Rightarrow> vector_str option \<Rightarrow> (vector_str option \<Rightarrow> bool D) \<Rightarrow> bool D" where
  "push_qual_str str hold subst_v k =
     check (DEM_PUSH_STR str) (
       case subst_v of None \<Rightarrow> k None
       | Some w \<Rightarrow> bind (VEC_PUSH_STR w (Chars str)) (\<lambda>(ok, w').
           if \<not> ok then ret False
           else if hold then k (Some w')
           else check (cpp_demangle_push_subst_v w') (k (Some w'))))"

definition push_qual_noncv ::
    "string \<Rightarrow> vector_str option \<Rightarrow> (vector_str option \<Rightarrow> bool D) \<Rightarrow> bool D" where
  "push_qual_noncv str subst_v k =
     gets push_qualifier (\<lambda>pq.
       if pq = PUSH_CV_QUALIFIER then k subst_v else push_qual_str str False subst_v k)"

definition push_qual_cv ::
    "string \<Rightarrow> bool \<Rightarrow> bool \<Rightarrow> vector_str option \<Rightarrow> (vector_str option \<Rightarrow> bool D) \<Rightarrow> bool D" where
  "push_qual_cv str cv hold subst_v k =
     gets push_qualifier (\<lambda>pq.
       if pq = PUSH_NON_CV_QUALIFIER \<and> cv then k subst_v
       else if pq = PUSH_CV_QUALIFIER \<and> \<not> cv then k subst_v
       else push_qual_str str hold subst_v k)"

text \<open>A vendor qualifier or a vector size: its text comes from \<open>ext_name\<close>.\<close>

definition push_qual_ext ::
    "string \<Rightarrow> string \<Rightarrow> vector_str \<Rightarrow> nat \<Rightarrow> vector_str option
       \<Rightarrow> (nat \<Rightarrow> vector_str option \<Rightarrow> bool D) \<Rightarrow> bool D" where
  "push_qual_ext open_s close_s ext e_idx subst_v k =
     gets push_qualifier (\<lambda>pq.
       if pq = PUSH_CV_QUALIFIER then k e_idx subst_v
       else if vs_size ext = 0 \<or> e_idx > vs_size ext - 1 then ret False
       else let name = snd (vs_container ext ! e_idx) in
         if length name = 0 then ret False
         else bind (malloc (length open_s + length name + length close_s + 1)) (\<lambda>p.
           case p of None \<Rightarrow> ret False
           | Some _ \<Rightarrow> push_qual_str (open_s @ name @ close_s) False subst_v (k (Suc e_idx))))"

text \<open>The loop over the qualifiers, the one read last first.\<close>

fun push_quals ::
    "vector_str \<Rightarrow> type_qualifier list \<Rightarrow> bool \<Rightarrow> nat \<Rightarrow> vector_str option \<Rightarrow> bool D" where
  "push_quals ext [] cv e_idx subst_v = ret True"
| "push_quals ext (t # ts) cv e_idx subst_v =
     (let hold = (ts \<noteq> [] \<and> is_cv (hd ts)) in
      case t of
        TYPE_PTR \<Rightarrow> push_qual_noncv ''*'' subst_v (push_quals ext ts False e_idx)
      | TYPE_REF \<Rightarrow> push_qual_noncv ''&'' subst_v (push_quals ext ts False e_idx)
      | TYPE_RREF \<Rightarrow> push_qual_noncv ''&&'' subst_v (push_quals ext ts False e_idx)
      | TYPE_CMX \<Rightarrow> push_qual_noncv '' complex'' subst_v (push_quals ext ts False e_idx)
      | TYPE_IMG \<Rightarrow> push_qual_noncv '' imaginary'' subst_v (push_quals ext ts False e_idx)
      | TYPE_EXT \<Rightarrow> push_qual_ext '' '' '''' ext e_idx subst_v (push_quals ext ts False)
      | TYPE_RST \<Rightarrow> push_qual_cv '' restrict'' cv hold subst_v (push_quals ext ts cv e_idx)
      | TYPE_VAT \<Rightarrow> push_qual_cv '' volatile'' cv hold subst_v (push_quals ext ts cv e_idx)
      | TYPE_CST \<Rightarrow> push_qual_cv '' const'' cv hold subst_v (push_quals ext ts cv e_idx)
      | TYPE_VEC \<Rightarrow> push_qual_ext '' __vector('' '')'' ext e_idx subst_v (push_quals ext ts False))"

definition cpp_demangle_push_type_qualifier :: "vector_type_qualifier \<Rightarrow> cbuf option \<Rightarrow> bool D" where
  "cpp_demangle_push_type_qualifier v type_str =
     (if vq_size v = 0 then ret True
      else case type_str of
        None \<Rightarrow> push_quals (ext_name v) (rev (vq_container v)) True 0 None
      | Some b \<Rightarrow> check_some vector_str_init (\<lambda>sv.
          bind (VEC_PUSH_STR sv b) (\<lambda>(ok, sv').
            if \<not> ok then ret False
            else push_quals (ext_name v) (rev (vq_container v)) True 0 (Some sv'))))"

section \<open>Substitutions and template parameters\<close>

definition cpp_demangle_get_subst :: "nat \<Rightarrow> bool D" where
  "cpp_demangle_get_subst idx = gets subst (\<lambda>v.
     if vs_size v \<le> idx then ret False
     else let str = snd (vs_container v ! idx) in
       if length str = 0 then ret False
       else check (cpp_demangle_push_str (Chars str) (length str)) (advance 1 (ret True)))"

definition cpp_demangle_get_tmpl_param :: "nat \<Rightarrow> bool D" where
  "cpp_demangle_get_tmpl_param idx = gets tmpl (\<lambda>v.
     if vs_size v \<le> idx then ret False
     else let str = snd (vs_container v ! idx) in
       if length str = 0 then ret False
       else check (cpp_demangle_push_str (Chars str) (length str)) (advance 1 (ret True)))"

text \<open>
  The base-36 sequence number of a substitution or a template parameter:
  \<open>strtol\<close>, its error test, \<open>++nth\<close>, the skip to the underscore and the assertion.
\<close>

definition read_seq_id :: "(nat \<Rightarrow> bool D) \<Rightarrow> bool D" where
  "read_seq_id k = gets cur (\<lambda>i. str_at i (\<lambda>str. gets strtol_einval (\<lambda>einval.
     let (nth, noconv) = strtol str 36 in
     if nth = 0 \<and> noconv \<and> einval then ret False
     else if nth = LONG_MAX then crash Signed_Overflow
     else skip_until (CHR ''_'') (c_assert (nth + 1 > 0) (k (nat (nth + 1)))))))"

definition cpp_demangle_read_tmpl_param :: "bool D" where
  "cpp_demangle_read_tmpl_param =
     peek 0 (\<lambda>c. if c \<noteq> CHR ''T'' then ret False
       else advance 1 (peek 0 (\<lambda>c.
         if c = CHR ''_'' then cpp_demangle_get_tmpl_param 0
         else read_seq_id cpp_demangle_get_tmpl_param)))"

section \<open>Numbers, source names and offsets\<close>

definition cpp_demangle_read_number :: "int option D" where
  "cpp_demangle_read_number = peek 0 (\<lambda>c.
     let negative_factor = (if c = CHR ''n'' then - 1 else 1) in
     advance (if c = CHR ''n'' then 1 else 0) (peek 0 (\<lambda>c.
       if \<not> c_isdigit c then ret None
       else gets cur (\<lambda>i. str_at i (\<lambda>str. gets strtol_einval (\<lambda>einval.
         let (len, noconv) = strtol str 10 in
         if len = 0 \<and> noconv \<and> einval then ret None
         else skip_digits (c_assert (len \<ge> 0) (ret (Some (len * negative_factor))))))))))"

definition cpp_demangle_read_number_as_string :: "string option D" where
  "cpp_demangle_read_number_as_string = bind cpp_demangle_read_number (\<lambda>n.
     case n of None \<Rightarrow> ret None
     | Some i \<Rightarrow> bind (malloc (length (show_int i) + 1)) (\<lambda>p.
         case p of None \<Rightarrow> ret None | Some _ \<Rightarrow> ret (Some (show_int i))))"

text \<open>\<open>memcmp(str, ddata->cur, n) == 0\<close> for a string literal of length \<open>n\<close>.\<close>

definition memcmp_cur :: "string \<Rightarrow> (bool \<Rightarrow> 'a D) \<Rightarrow> 'a D" where
  "memcmp_cur str k = (\<lambda>s.
     if cur s + length str \<le> length (buf s) + 1
     then k (take (length str) (drop (cur s) (buf s @ [NUL])) = str) s
     else Fault Out_Of_Bounds)"

definition cpp_demangle_read_sname :: "bool D" where
  "cpp_demangle_read_sname = check_some cpp_demangle_read_number (\<lambda>len.
     if len \<le> 0 then ret False
     else check (
       (if len = 12 then memcmp_cur ''_GLOBAL__N_1'' else (\<lambda>k. k False)) (\<lambda>anon.
         if anon then DEM_PUSH_STR ''(anonymous namespace)''
         else gets cur (\<lambda>i. str_at i (\<lambda>str. cpp_demangle_push_str (Chars str) (nat len))))) (
       gets cur_output (\<lambda>l. with_vec l (\<lambda>v. c_assert (vs_size v > 0) (
       gets cmd (\<lambda>cs.
         (if vector_read_cmd_find cs READ_TMPL = None
          then upd (\<lambda>s. s\<lparr>last_sname := Some (Sname_ptr (fst (last (vs_container v))))\<rparr>)
          else (\<lambda>k. k)) (advance (nat len) (ret True))))))))"

definition cpp_demangle_read_offset_number :: "bool D" where
  "cpp_demangle_read_offset_number = peek 0 (\<lambda>c.
     if c = NUL then ret False
     else let negative = (c = CHR ''n'') in
       gets cur (\<lambda>i. let start = (if negative then i + 1 else i) in
       skip_until (CHR ''_'') (
       check (if negative then DEM_PUSH_STR ''-'' else ret True) (
       gets cur (\<lambda>j. str_at start (\<lambda>str.
       check (cpp_demangle_push_str (Chars str) (j - start)) (
       check (DEM_PUSH_STR '' '') (
       advance 1 (ret True)))))))))"

definition cpp_demangle_read_nv_offset :: "bool D" where
  "cpp_demangle_read_nv_offset = check (DEM_PUSH_STR ''offset : '') cpp_demangle_read_offset_number"

text \<open>The last call's result is negated in the source.\<close>

definition cpp_demangle_read_v_offset :: "bool D" where
  "cpp_demangle_read_v_offset =
     check (DEM_PUSH_STR ''offset : '') (
     check cpp_demangle_read_offset_number (
     check (DEM_PUSH_STR ''virtual offset : '') (
     bind cpp_demangle_read_offset_number (\<lambda>b. ret (\<not> b)))))"

definition cpp_demangle_read_offset :: "bool D" where
  "cpp_demangle_read_offset = peek 0 (\<lambda>c.
     if c = CHR ''h'' then advance 1 cpp_demangle_read_nv_offset
     else if c = CHR ''v'' then advance 1 cpp_demangle_read_v_offset
     else ret False)"

text \<open>An optional discriminator \<open>_<digits>\<close>.\<close>

definition skip_discriminator :: "bool D" where
  "skip_discriminator = peek 0 (\<lambda>c.
     if c = CHR ''_'' then advance 1 (skip_digits (ret True)) else ret True)"

definition cpp_demangle_local_source_name :: "bool D" where
  "cpp_demangle_local_source_name = peek 0 (\<lambda>c.
     if c \<noteq> CHR ''L'' then ret False
     else advance 1 (check cpp_demangle_read_sname skip_discriminator))"

end
