(* ===== verification/Demangle_Tables.thy ===== *)
theory Demangle_Tables
  imports Demangle_Data
begin

text \<open>
  The fixed tables of the grammar: the operators of expressions, the operator names, the builtin
  types, the standard abbreviations and the prefixes of special names. The source writes them as
  \<open>switch\<close> statements over \<open>SIMPLE_HASH\<close> of two characters or over one character;
  a key of the first kind matches every pair of characters with the same hash, which is how
  \<open>hash_find\<close> looks it up.
\<close>

section \<open>Definitions\<close>

definition hash_of :: "string \<Rightarrow> int" where
  "hash_of k = SIMPLE_HASH (hd k) (hd (tl k))"

definition hash_find :: "(string \<times> 'b) list \<Rightarrow> int \<Rightarrow> 'b option" where
  "hash_find tab h = map_of (map (\<lambda>(k, x). (hash_of k, x)) tab) h"

text \<open>Operators of \<open>cpp_demangle_read_expression\<close>, with the number of operands read.\<close>

datatype expr_op = Binary string | Unary string

definition expr_operators1 :: "(string \<times> expr_op) list" where
  "expr_operators1 = [
     (''aa'', Binary ''&&''), (''ad'', Unary ''&''), (''an'', Binary ''&''), (''aN'', Binary ''&=''),
     (''aS'', Binary ''=''), (''cl'', Binary ''()''), (''cm'', Binary '',''), (''co'', Binary ''~''),
     (''cv'', Binary ''(cast)''), (''da'', Unary ''delete []''), (''de'', Unary ''*''),
     (''dl'', Unary ''delete''), (''dv'', Binary ''/''), (''dV'', Binary ''/=''),
     (''eo'', Binary ''^''), (''eO'', Binary ''^=''), (''eq'', Binary ''==''),
     (''ge'', Binary ''>=''), (''gt'', Binary ''>''), (''ix'', Binary ''[]''),
     (''le'', Binary ''<=''), (''ls'', Binary ''<<''), (''lS'', Binary ''<<=''),
     (''lt'', Binary ''<''), (''mi'', Binary ''-'')]"

definition expr_operators2 :: "(string \<times> expr_op) list" where
  "expr_operators2 = [
     (''mI'', Binary ''-=''), (''ml'', Binary ''*''), (''mL'', Binary ''*=''),
     (''mm'', Binary ''--''), (''na'', Unary ''new []''), (''ne'', Binary ''!=''),
     (''ng'', Unary ''-''), (''nt'', Binary ''!''), (''nw'', Unary ''new''), (''oo'', Binary ''||''),
     (''or'', Binary ''|''), (''oR'', Binary ''|=''), (''pl'', Binary ''+''),
     (''pL'', Binary ''+=''), (''pm'', Binary ''->*''), (''pp'', Binary ''++''),
     (''ps'', Unary ''+''), (''pt'', Binary ''->''), (''rm'', Binary ''%''), (''rM'', Binary ''%=''),
     (''rs'', Binary ''>>''), (''rS'', Binary ''>>=''), (''rz'', Unary ''sizeof''),
     (''sv'', Unary ''sizeof'')]"

definition expr_operators :: "(string \<times> expr_op) list" where
  "expr_operators = expr_operators1 @ expr_operators2"

text \<open>Operator names of \<open>cpp_demangle_read_uqname\<close> that take no operand.\<close>

definition uq_operators1 :: "(string \<times> string) list" where
  "uq_operators1 = [
     (''aa'', ''operator&&''), (''ad'', ''operator&''), (''an'', ''operator&''),
     (''aN'', ''operator&=''), (''aS'', ''operator=''), (''cl'', ''operator()''),
     (''cm'', ''operator,''), (''co'', ''operator~''), (''da'', ''operator delete []''),
     (''de'', ''operator*''), (''dl'', ''operator delete''), (''dv'', ''operator/''),
     (''dV'', ''operator/=''), (''eo'', ''operator^''), (''eO'', ''operator^=''),
     (''eq'', ''operator==''), (''ge'', ''operator>='')]"

definition uq_operators2 :: "(string \<times> string) list" where
  "uq_operators2 = [
     (''gt'', ''operator>''), (''ix'', ''operator[]''), (''le'', ''operator<=''),
     (''ls'', ''operator<<''), (''lS'', ''operator<<=''), (''lt'', ''operator<''),
     (''mi'', ''operator-''), (''mI'', ''operator-=''), (''ml'', ''operator*''),
     (''mL'', ''operator*=''), (''mm'', ''operator--''), (''na'', ''operator new []''),
     (''ne'', ''operator!=''), (''ng'', ''operator-''), (''nt'', ''operator!''),
     (''nw'', ''operator new''), (''oo'', ''operator||'')]"

definition uq_operators3 :: "(string \<times> string) list" where
  "uq_operators3 = [
     (''or'', ''operator|''), (''oR'', ''operator|=''), (''pl'', ''operator+''),
     (''pL'', ''operator+=''), (''pm'', ''operator->*''), (''pp'', ''operator++''),
     (''ps'', ''operator+''), (''pt'', ''operator->''), (''qu'', ''operator?''),
     (''rm'', ''operator%''), (''rM'', ''operator%=''), (''rs'', ''operator>>''),
     (''rS'', ''operator>>=''), (''rz'', ''operator sizeof ''),
     (''sr'', ''scope resolution operator ''), (''sv'', ''operator sizeof '')]"

definition uq_operators :: "(string \<times> string) list" where
  "uq_operators = uq_operators1 @ uq_operators2 @ uq_operators3"

text \<open>Builtin types of one letter.\<close>

definition builtin_types :: "(char \<times> string) list" where
  "builtin_types = [(CHR ''a'', ''signed char''), (CHR ''b'', ''bool''), (CHR ''c'', ''char''),
     (CHR ''d'', ''double''), (CHR ''e'', ''long double''), (CHR ''f'', ''float''),
     (CHR ''g'', ''__float128''), (CHR ''h'', ''unsigned char''), (CHR ''i'', ''int''),
     (CHR ''j'', ''unsigned int''), (CHR ''l'', ''long''), (CHR ''m'', ''unsigned long''),
     (CHR ''n'', ''__int128''), (CHR ''o'', ''unsigned __int128''), (CHR ''s'', ''short''),
     (CHR ''t'', ''unsigned short''), (CHR ''w'', ''wchar_t''), (CHR ''x'', ''long long''),
     (CHR ''y'', ''unsigned long long''), (CHR ''z'', ''...'')]"

text \<open>Builtin types \<open>D?\<close>.\<close>

definition builtin_types_D :: "(char \<times> string) list" where
  "builtin_types_D = [(CHR ''a'', ''auto''), (CHR ''c'', ''decltype(auto)''),
     (CHR ''d'', ''decimal64''), (CHR ''e'', ''decimal128''), (CHR ''f'', ''decimal32''),
     (CHR ''h'', ''half''), (CHR ''i'', ''char32_t''), (CHR ''n'', ''decltype(nullptr)''),
     (CHR ''s'', ''char16_t'')]"

text \<open>Qualifier letters that only add a qualifier.\<close>

definition qualifier_letters :: "(char \<times> type_qualifier) list" where
  "qualifier_letters = [(CHR ''C'', TYPE_CMX), (CHR ''G'', TYPE_IMG), (CHR ''K'', TYPE_CST),
     (CHR ''P'', TYPE_PTR), (CHR ''r'', TYPE_RST), (CHR ''V'', TYPE_VAT)]"

text \<open>
  Abbreviations \<open>Sa\<close>, \<open>Sb\<close>, .. of \<open>cpp_demangle_read_subst\<close>: the text and the new
  \<open>last_sname\<close>, if the case sets it.
\<close>

definition std_abbrevs :: "(string \<times> string \<times> string option) list" where
  "std_abbrevs = [
     (''Sa'', ''std::allocator'', None),
     (''Sb'', ''std::basic_string'', None),
     (''Sd'', ''std::basic_iostream<char, std::char_traits<char>>'', Some ''basic_iostream''),
     (''Si'', ''std::basic_istream<char, std::char_traits<char>>'', Some ''basic_istream''),
     (''So'', ''std::basic_ostream<char, std::char_traits<char>>'', Some ''basic_ostream''),
     (''Ss'', ''std::string'', Some ''string'')]"

text \<open>
  Special names of \<open>cpp_demangle_read_encoding\<close> that push a text, skip the two letters,
  stop at the end of the name and read one type.
\<close>

definition special_type_names :: "(string \<times> string) list" where
  "special_type_names = [
     (''TF'', ''typeinfo fn for ''), (''TI'', ''typeinfo for ''), (''TJ'', ''java Class for ''),
     (''TS'', ''typeinfo name for ''), (''TT'', ''VTT for ''), (''TV'', ''vtable for '')]"

text \<open>Special names that push a text, skip the two letters, stop at the end and go on to the name.\<close>

definition special_tls_names :: "(string \<times> string) list" where
  "special_tls_names = [
     (''TH'', ''TLS init function for ''), (''TW'', ''TLS wrapper function for '')]"

end
