(* ===== verification/Decode_Fp.thy ===== *)
theory Decode_Fp
  imports Prelude
begin

text \<open>
  Floating-point literals of \<open>libelftc_dem_gnu3.c\<close>: \<open>hex_to_dec\<close> and the
  \<open>decode_fp_to_*\<close> functions, which turn the hexadecimal digits of a literal into the bytes
  of a \<open>float\<close>, \<open>double\<close> or \<open>long double\<close> and print it with \<open>%f\<close>.

  The value of the bytes and its decimal expansion are computed exactly, with six digits after
  the point and ties to even, as \<open>printf\<close> does in the default rounding mode.
  \<open>ELFTC_BYTE_ORDER\<close> is defined nowhere in the sources, so both sides of the preprocessor
  test are \<open>0\<close> and the little-endian branch is the one that is compiled.
\<close>

section \<open>Definitions\<close>

definition FLOAT_SPRINTF_TRY_LIMIT :: nat where "FLOAT_SPRINTF_TRY_LIMIT = 5"
definition FLOAT_QUADRUPLE_BYTES :: nat where "FLOAT_QUADRUPLE_BYTES = 16"
definition FLOAT_EXTENED_BYTES :: nat where "FLOAT_EXTENED_BYTES = 10"
definition sizeof_double :: nat where "sizeof_double = 8"
definition sizeof_float :: nat where "sizeof_float = 4"

definition hex_table :: "(char \<times> int) list" where
  "hex_table = [(CHR ''0'', 0), (CHR ''1'', 1), (CHR ''2'', 2), (CHR ''3'', 3), (CHR ''4'', 4),
     (CHR ''5'', 5), (CHR ''6'', 6), (CHR ''7'', 7), (CHR ''8'', 8), (CHR ''9'', 9),
     (CHR ''a'', 10), (CHR ''b'', 11), (CHR ''c'', 12), (CHR ''d'', 13), (CHR ''e'', 14),
     (CHR ''f'', 15)]"

definition hex_to_dec :: "char \<Rightarrow> int" where
  "hex_to_dec c = (case map_of hex_table c of Some d \<Rightarrow> d | None \<Rightarrow> -1)"

text \<open>
  The byte loop: byte \<open>i\<close> comes from the digits \<open>len - 2 i - 2\<close> and \<open>len - 2 i - 1\<close>.
  A digit that is not hexadecimal counts as \<open>-1\<close>; only the sum of the two is checked.
\<close>

definition fp_byte :: "string \<Rightarrow> nat \<Rightarrow> nat \<Rightarrow> int" where
  "fp_byte p len i = hex_to_dec (p ! (len - i * 2 - 1)) + hex_to_dec (p ! (len - i * 2 - 2)) * 16"

definition fp_bytes :: "string \<Rightarrow> nat \<Rightarrow> nat \<Rightarrow> nat list option" where
  "fp_bytes p len nbytes =
     (if len = 0 \<or> len mod 2 \<noteq> 0 \<or> len div 2 > nbytes then None
      else let bs = map (fp_byte p len) [0 ..< len div 2] in
        if list_ex (\<lambda>b. b < 0 \<or> b > 255) bs then None
        else Some (map nat bs @ replicate (nbytes - len div 2) 0))"

fun le_value :: "nat list \<Rightarrow> nat" where
  "le_value [] = 0"
| "le_value (b # bs) = b + 256 * le_value bs"

text \<open>
  \<open>%f\<close> of a value with \<open>ebits\<close> exponent bits and \<open>mbits\<close> fraction bits; with
  \<open>explicit\<close> the leading bit of the significand is stored (the x87 format).
\<close>

definition round_half_even :: "nat \<Rightarrow> nat \<Rightarrow> nat" where
  "round_half_even n d =
     (let q = n div d; r = n mod d in if 2 * r > d \<or> (2 * r = d \<and> odd q) then q + 1 else q)"

definition pad6 :: "nat \<Rightarrow> string" where
  "pad6 n = (let t = show_nat n in replicate (6 - length t) (CHR ''0'') @ t)"

definition fixed6 :: "nat \<Rightarrow> int \<Rightarrow> string" where
  "fixed6 m e =
     (let q = (if e \<ge> 0 then m * 2 ^ nat e * 1000000
               else round_half_even (m * 1000000) (2 ^ nat (- e)))
      in show_nat (q div 1000000) @ ''.'' @ pad6 (q mod 1000000))"

definition fmt_f :: "bool \<Rightarrow> nat \<Rightarrow> nat \<Rightarrow> bool \<Rightarrow> nat \<Rightarrow> string" where
  "fmt_f nsign ebits mbits explicit n =
     (let sbits = (if explicit then mbits + 1 else mbits);
          frac = n mod 2 ^ sbits;
          e = (n div 2 ^ sbits) mod 2 ^ ebits;
          neg = (n div 2 ^ (sbits + ebits)) mod 2 = 1;
          bias = 2 ^ (ebits - 1) - 1;
          m = (if explicit \<or> e = 0 then frac else 2 ^ mbits + frac);
          minus = (\<lambda>b. if neg \<and> b then ''-'' else '''')
      in if e = 2 ^ ebits - 1
         then (if frac mod 2 ^ mbits = 0 then minus True @ ''inf'' else minus nsign @ ''nan'')
         else minus True @ fixed6 m (int (max e 1) - int bias - int mbits))"

text \<open>
  The retry loop around \<open>snprintf\<close>: a buffer of \<open>rtn_len\<close> bytes, grown by
  \<open>BUFFER_GROWFACTOR\<close> while it is too small, at most \<open>FLOAT_SPRINTF_TRY_LIMIT + 1\<close> times.
\<close>

fun sprintf_loop :: "nat \<Rightarrow> nat \<Rightarrow> string \<Rightarrow> (string option, 'h heap_scheme) M" where
  "sprintf_loop 0 rtn_len txt =
     bind (malloc rtn_len) (\<lambda>p. case p of None \<Rightarrow> ret None
       | Some _ \<Rightarrow> ret (if length txt \<ge> rtn_len then None else Some txt))"
| "sprintf_loop (Suc tries) rtn_len txt =
     bind (malloc rtn_len) (\<lambda>p. case p of None \<Rightarrow> ret None
       | Some _ \<Rightarrow> if length txt \<ge> rtn_len
           then sprintf_loop tries (rtn_len * 1618 div 1000) txt else ret (Some txt))"

definition decode_fp_to_double :: "string \<Rightarrow> nat \<Rightarrow> (string option, 'h heap_scheme) M" where
  "decode_fp_to_double p len =
     (case fp_bytes p len sizeof_double of None \<Rightarrow> ret None
      | Some bs \<Rightarrow> gets nan_sign (\<lambda>ns.
          sprintf_loop (FLOAT_SPRINTF_TRY_LIMIT + 1) 64 (fmt_f ns 11 52 False (le_value bs) @ ''ld'')))"

definition decode_fp_to_float :: "string \<Rightarrow> nat \<Rightarrow> (string option, 'h heap_scheme) M" where
  "decode_fp_to_float p len =
     (case fp_bytes p len sizeof_float of None \<Rightarrow> ret None
      | Some bs \<Rightarrow> gets nan_sign (\<lambda>ns.
          sprintf_loop (FLOAT_SPRINTF_TRY_LIMIT + 1) 64 (fmt_f ns 8 23 False (le_value bs) @ ''f'')))"

text \<open>\<open>%Lf\<close> of the bytes of a \<open>long double\<close>.\<close>

definition fmt_Lf :: "bool \<Rightarrow> bool \<Rightarrow> nat list \<Rightarrow> string" where
  "fmt_Lf ns x87 bs =
     (if x87 then fmt_f ns 15 63 True (le_value (take 10 bs)) else fmt_f ns 15 112 False (le_value bs))"

definition sprintf_Lfd :: "nat list \<Rightarrow> (string option, 'h heap_scheme) M" where
  "sprintf_Lfd bs = gets nan_sign (\<lambda>ns. gets ld_x87 (\<lambda>x87.
     sprintf_loop (FLOAT_SPRINTF_TRY_LIMIT + 1) 256 (fmt_Lf ns x87 bs @ ''d'')))"

definition decode_fp_to_long_double :: "string \<Rightarrow> nat \<Rightarrow> (string option, 'h heap_scheme) M" where
  "decode_fp_to_long_double p len = gets sizeof_long_double (\<lambda>sz.
     case fp_bytes p len sz of None \<Rightarrow> ret None | Some bs \<Rightarrow> sprintf_Lfd bs)"

definition decode_fp_to_float128 :: "string \<Rightarrow> nat \<Rightarrow> (string option, 'h heap_scheme) M" where
  "decode_fp_to_float128 p len = gets sizeof_long_double (\<lambda>sz.
     if sz = FLOAT_QUADRUPLE_BYTES then decode_fp_to_long_double p len
     else if sz = FLOAT_EXTENED_BYTES then
       (case fp_bytes p len FLOAT_QUADRUPLE_BYTES of None \<Rightarrow> ret None
        | Some bs \<Rightarrow> sprintf_Lfd (take FLOAT_EXTENED_BYTES bs))
     else ret None)"

definition decode_fp_to_float80 :: "string \<Rightarrow> nat \<Rightarrow> (string option, 'h heap_scheme) M" where
  "decode_fp_to_float80 p len = gets sizeof_long_double (\<lambda>sz.
     if sz = FLOAT_QUADRUPLE_BYTES then
       (case fp_bytes p len FLOAT_EXTENED_BYTES of None \<Rightarrow> ret None
        | Some bs \<Rightarrow> sprintf_Lfd (bs @ replicate (FLOAT_QUADRUPLE_BYTES - FLOAT_EXTENED_BYTES) 0))
     else if sz = FLOAT_EXTENED_BYTES then decode_fp_to_long_double p len
     else ret None)"

end
