(* ===== verification/Demangle_Read.thy ===== *)
theory Demangle_Read
  imports Demangle_Tables Decode_Fp
begin

text \<open>
  The recursive-descent reader of \<open>libelftc_dem_gnu3.c\<close>: one definition per
  \<open>cpp_demangle_read_*\<close> function of the grammar. The functions call each other in cycles;
  the cycles are broken at four functions, and at the label \<open>again\<close> of
  \<open>cpp_demangle_read_type\<close>: a call of one of them goes through the parameter \<open>rc\<close>,
  every other call is direct. \<open>step rc\<close> is one unfolding of all of them and
  \<open>run n\<close> the program with at most \<open>n\<close> nested calls through \<open>rc\<close>; the theory
  \<open>Demangle_Safe\<close> shows how many are enough.

  A pointer to a \<open>struct type_delimit\<close> of the caller is passed by value and returned.
  A pointer to a caller's \<open>vector_type_qualifier\<close> likewise.
\<close>

section \<open>Calls\<close>

datatype call =
    C_type "type_delimit option"
  | C_again "type_delimit option" vloc nat vector_type_qualifier
  | C_encoding
  | C_expression
  | C_name

type_synonym rcall = "call \<Rightarrow> (bool \<times> type_delimit option) D"

definition call :: "rcall \<Rightarrow> call \<Rightarrow> bool D" where
  "call rc c = bind (rc c) (\<lambda>(b, td). ret b)"

text \<open>\<open>if (!m) return 0; k\<close> in a function that also hands \<open>x\<close> back to its caller.\<close>

definition checkx :: "'x \<Rightarrow> bool D \<Rightarrow> (bool \<times> 'x) D \<Rightarrow> (bool \<times> 'x) D" where
  "checkx x m k = bind m (\<lambda>b. if b then k else ret (False, x))"

definition TRY_ROUNDS :: nat where
  "TRY_ROUNDS = CPP_DEMANGLE_TRY_LIMIT + 1"

text \<open>
  The strings that \<open>m\<close> pushes to the vector \<open>l\<close> are joined and taken off it again
  (\<open>cpp_demangle_read_expression_flat\<close>, \<open>.._name_flat\<close>, \<open>.._type_flat\<close> and the
  same lines in \<open>read_array\<close> and \<open>read_pointer_to_member\<close>).
\<close>

definition read_flat :: "vloc \<Rightarrow> bool D \<Rightarrow> (cbuf \<times> nat) option D" where
  "read_flat l m = with_vec l (\<lambda>v0. let p_idx = vs_size v0 in
     bind m (\<lambda>b. if \<not> b then ret None
       else with_vec l (\<lambda>v. bind (substr_from v p_idx) (\<lambda>r.
         case r of None \<Rightarrow> ret None
         | Some x \<Rightarrow> upd (vput l (pop_times (vs_size v - p_idx) v)) (ret (Some x))))))"

definition cpp_demangle_read_expression_flat :: "rcall \<Rightarrow> (cbuf \<times> nat) option D" where
  "cpp_demangle_read_expression_flat rc = read_flat V_output (call rc C_expression)"

definition cpp_demangle_read_name_flat :: "rcall \<Rightarrow> (cbuf \<times> nat) option D" where
  "cpp_demangle_read_name_flat rc = gets cur_output (\<lambda>l. read_flat l (call rc C_name))"

definition cpp_demangle_read_type_flat :: "rcall \<Rightarrow> (cbuf \<times> nat) option D" where
  "cpp_demangle_read_type_flat rc = gets cur_output (\<lambda>l. read_flat l (call rc (C_type None)))"

section \<open>Expressions and template arguments\<close>

definition cpp_demangle_read_array :: "rcall \<Rightarrow> bool D" where
  "cpp_demangle_read_array rc = advance 1 (peek 0 (\<lambda>c.
     if c = NUL then ret False
     else if c = CHR ''_'' then
       advance 1 (peek 0 (\<lambda>c.
         if c = NUL then ret False
         else check (call rc (C_type None)) (DEM_PUSH_STR '' []'')))
     else if c_isdigit c then
       gets cur (\<lambda>num. skip_digits (peek 0 (\<lambda>c.
         if c \<noteq> CHR ''_'' then ret False
         else gets cur (\<lambda>e. c_assert (e - num > 0) (advance 1 (peek 0 (\<lambda>c.
           if c = NUL then ret False
           else check (call rc (C_type None)) (
             check (DEM_PUSH_STR '' ['') (
             check (str_at num (\<lambda>str. cpp_demangle_push_str (Chars str) (e - num))) (
             DEM_PUSH_STR '']''))))))))))
     else check_some (read_flat V_output (call rc C_expression)) (\<lambda>(exp, exp_len).
       peek 0 (\<lambda>c. if c \<noteq> CHR ''_'' then ret False
         else advance 1 (peek 0 (\<lambda>c.
           if c = NUL then ret False
           else check (call rc (C_type None)) (
             check (DEM_PUSH_STR '' ['') (
             check (cpp_demangle_push_str exp exp_len) (
             DEM_PUSH_STR '']'')))))))))"

definition integer_literal_letters :: string where
  "integer_literal_letters = ''ijlmnstxy''"

definition read_integer_literal :: "bool D" where
  "read_integer_literal = advance 1 (peek 0 (\<lambda>c.
     check (if c = CHR ''n'' then check (DEM_PUSH_STR ''-'') (advance 1 (ret True)) else ret True) (
     gets cur (\<lambda>num. skip_digits (gets cur (\<lambda>e. peek 0 (\<lambda>c.
       if c \<noteq> CHR ''E'' then ret False
       else advance 1 (str_at num (\<lambda>str. cpp_demangle_push_str (Chars str) (e - num))))))))))"

definition cpp_demangle_read_expr_primary :: "rcall \<Rightarrow> bool D" where
  "cpp_demangle_read_expr_primary rc = advance 1 (peek 0 (\<lambda>c.
     if c = NUL then ret False
     else (if c = CHR ''_'' then peek 1 else (\<lambda>k. k NUL)) (\<lambda>c1.
       if c1 = CHR ''Z'' then
         advance 2 (peek 0 (\<lambda>c. if c = NUL then ret False
           else check (call rc C_encoding) (advance 1 (ret True))))
       else if c = CHR ''b'' then
         peek 2 (\<lambda>e. if e \<noteq> CHR ''E'' then ret False
           else advance 1 (peek 0 (\<lambda>c.
             if c = CHR ''0'' then advance 2 (DEM_PUSH_STR ''false'')
             else if c = CHR ''1'' then advance 2 (DEM_PUSH_STR ''true'')
             else ret False)))
       else if c = CHR ''d'' then advance 1 (cpp_demangle_push_fp decode_fp_to_double)
       else if c = CHR ''e'' then advance 1 (gets sizeof_long_double (\<lambda>sz.
         if sz = 10 then cpp_demangle_push_fp decode_fp_to_double
         else cpp_demangle_push_fp decode_fp_to_float80))
       else if c = CHR ''f'' then advance 1 (cpp_demangle_push_fp decode_fp_to_float)
       else if c = CHR ''g'' then advance 1 (gets sizeof_long_double (\<lambda>sz.
         if sz = 16 then cpp_demangle_push_fp decode_fp_to_double
         else cpp_demangle_push_fp decode_fp_to_float128))
       else if List.member integer_literal_letters c then read_integer_literal
       else ret False)))"

definition cpp_demangle_read_tmpl_arg :: "rcall \<Rightarrow> bool D" where
  "cpp_demangle_read_tmpl_arg rc = peek 0 (\<lambda>c.
     if c = NUL then ret False
     else if c = CHR ''L'' then cpp_demangle_read_expr_primary rc
     else if c = CHR ''X'' then
       advance 1 (check (call rc C_expression) (peek 0 (\<lambda>c. advance 1 (ret (c = CHR ''E'')))))
     else call rc (C_type None))"

text \<open>One round of the loop over the arguments.\<close>

definition tmpl_args_round :: "rcall \<Rightarrow> vloc \<Rightarrow> unit \<Rightarrow> (unit, bool) ctl D" where
  "tmpl_args_round rc l u = with_vec l (\<lambda>v0. let idx = vs_size v0 in
     bind (cpp_demangle_read_tmpl_arg rc) (\<lambda>b. if \<not> b then ret (Stop False)
       else with_vec l (\<lambda>v. bind (substr_from v idx) (\<lambda>r.
         case r of None \<Rightarrow> ret (Stop False)
         | Some (arg, arg_len) \<Rightarrow>
             bind (gets tmpl (\<lambda>tv. bind (vector_str_find tv (Some arg) arg_len) (\<lambda>found.
               if found = 0 then on_tmpl (\<lambda>tv. vector_str_push tv arg arg_len) else ret True))) (\<lambda>b.
             if \<not> b then ret (Stop False)
             else peek 0 (\<lambda>c.
               if c = CHR ''E'' then
                 advance 1 (bind (DEM_PUSH_STR ''>'') (\<lambda>b.
                   if \<not> b then ret (Stop False)
                   else upd (\<lambda>s. s\<lparr>is_tmpl := True\<rparr>) (ret (Stop True))))
               else bind (if c \<noteq> CHR ''I'' then DEM_PUSH_STR '', '' else ret True) (\<lambda>b.
                 ret (if b then Next () else Stop False))))))))"

definition cpp_demangle_read_tmpl_args :: "rcall \<Rightarrow> bool D" where
  "cpp_demangle_read_tmpl_args rc = peek 0 (\<lambda>c.
     if c = NUL then ret False
     else advance 1 (
       check (on_cmd (\<lambda>cs. vector_read_cmd_push cs \<lparr>rc_cmd = READ_TMPL, rc_data = None\<rparr>)) (
       check (DEM_PUSH_STR ''<'') (
       gets cur_output (\<lambda>l.
       check (limited TRY_ROUNDS False (tmpl_args_round rc l) ()) (
       on_cmd (\<lambda>cs. ret (vector_read_cmd_pop cs))))))))"

section \<open>Unqualified names and substitutions\<close>

definition ctor_dtor_name :: "string \<Rightarrow> bool D" where
  "ctor_dtor_name prefix = gets last_sname (\<lambda>ls.
     case ls of None \<Rightarrow> ret False
     | Some p \<Rightarrow> deref_sname p (\<lambda>str.
         if length str = 0 then ret False
         else check (DEM_PUSH_STR prefix) (
           check (cpp_demangle_push_str (Chars str) (length str)) (advance 2 (ret True)))))"

definition cpp_demangle_read_uqname :: "rcall \<Rightarrow> bool D" where
  "cpp_demangle_read_uqname rc = peek 0 (\<lambda>c.
     if c = NUL then ret False
     else peek 1 (\<lambda>c1. let h = SIMPLE_HASH c c1 in
       case hash_find uq_operators h of
         Some txt \<Rightarrow> check (DEM_PUSH_STR txt) (advance 2 (ret True))
       | None \<Rightarrow>
         if h = hash_of ''cv'' then
           check (DEM_PUSH_STR ''operator(cast)'') (advance 2 (call rc (C_type None)))
         else if c = CHR ''v'' \<and> c_isdigit c1 then
           check (DEM_PUSH_STR ''vendor extened operator '') (
           check (gets cur (\<lambda>i. str_at (i + 1) (\<lambda>str. cpp_demangle_push_str (Chars str) 1))) (
           advance 2 cpp_demangle_read_sname))
         else if h = hash_of ''C1'' \<or> h = hash_of ''C2'' \<or> h = hash_of ''C3'' then ctor_dtor_name ''::''
         else if h = hash_of ''D0'' \<or> h = hash_of ''D1'' \<or> h = hash_of ''D2'' then ctor_dtor_name ''::~''
         else if c_isdigit c then cpp_demangle_read_sname
         else if c = CHR ''L'' then cpp_demangle_local_source_name
         else ret True))"

text \<open>
  After a name: when template arguments follow, the name with its arguments is a substitution
  too (the end of \<open>read_name\<close> and of \<open>read_subst_std\<close>).
\<close>

definition push_named_subst :: "vloc \<Rightarrow> nat \<Rightarrow> vector_str \<Rightarrow> (vector_str \<Rightarrow> bool D) \<Rightarrow> bool D" where
  "push_named_subst l p_idx v k = with_vec l (\<lambda>ov.
     check_some (substr_from ov p_idx) (\<lambda>(str, len).
       bind (vector_str_push v str len) (\<lambda>(ok, v').
         if \<not> ok then ret False else check (cpp_demangle_push_subst_v v') (k v'))))"

definition read_tmpl_suffix :: "rcall \<Rightarrow> vloc \<Rightarrow> vector_str \<Rightarrow> bool D" where
  "read_tmpl_suffix rc l v = peek 0 (\<lambda>c.
     if c \<noteq> CHR ''I'' then ret True
     else with_vec l (\<lambda>ov. let p_idx = vs_size ov in
       check (cpp_demangle_read_tmpl_args rc) (push_named_subst l p_idx v (\<lambda>v'. ret True))))"

definition cpp_demangle_read_subst_std :: "rcall \<Rightarrow> bool D" where
  "cpp_demangle_read_subst_std rc =
     check_some vector_str_init (\<lambda>v.
     check (DEM_PUSH_STR ''std::'') (
     bind (VEC_PUSH_STR v (Chars ''std::'')) (\<lambda>(ok, v).
       if \<not> ok then ret False
       else advance 2 (gets cur_output (\<lambda>l. with_vec l (\<lambda>ov. let p_idx = vs_size ov in
         check (cpp_demangle_read_uqname rc) (
         push_named_subst l p_idx v (\<lambda>v. read_tmpl_suffix rc l v))))))))"

definition cpp_demangle_read_subst_stdtmpl :: "rcall \<Rightarrow> string \<Rightarrow> bool D" where
  "cpp_demangle_read_subst_stdtmpl rc str =
     (if length str = 0 then ret False
      else gets cur_output (\<lambda>l. with_vec l (\<lambda>ov. let p_idx = vs_size ov in
        check (cpp_demangle_read_tmpl_args rc) (
        with_vec l (\<lambda>ov. check_some (substr_from ov p_idx) (\<lambda>(substr, substr_len).
          bind (malloc (substr_len + length str + 1)) (\<lambda>p.
            case p of None \<Rightarrow> ret False
            | Some _ \<Rightarrow> copy_string substr (substr_len + 1) (\<lambda>t.
                cpp_demangle_push_subst (Chars (str @ t)) (substr_len + length str)))))))))"

definition cpp_demangle_read_subst :: "rcall \<Rightarrow> bool D" where
  "cpp_demangle_read_subst rc = peek 0 (\<lambda>c.
     if c = NUL then ret False
     else peek 1 (\<lambda>c1. let h = SIMPLE_HASH c c1 in
       case hash_find std_abbrevs h of
         Some (txt, ls) \<Rightarrow>
           check (DEM_PUSH_STR txt) (
           upd (\<lambda>s. case ls of None \<Rightarrow> s | Some n \<Rightarrow> s\<lparr>last_sname := Some (Sname_lit n)\<rparr>) (
           advance 2 (peek 0 (\<lambda>c.
             if c = CHR ''I'' then cpp_demangle_read_subst_stdtmpl rc txt else ret True))))
       | None \<Rightarrow>
         if h = hash_of ''St'' then cpp_demangle_read_subst_std rc
         else advance 1 (peek 0 (\<lambda>c.
           if c = NUL then ret False
           else if \<not> c_isdigit c \<and> \<not> c_isupper c \<and> c \<noteq> CHR ''_''
           then advance 1 (ret True)
           else if c = CHR ''_'' then cpp_demangle_get_subst 0
           else read_seq_id cpp_demangle_get_subst))))"

section \<open>Expressions\<close>

definition cpp_demangle_read_expression_binary :: "rcall \<Rightarrow> string \<Rightarrow> bool D" where
  "cpp_demangle_read_expression_binary rc name =
     check (call rc C_expression) (check (DEM_PUSH_STR name) (call rc C_expression))"

definition cpp_demangle_read_expression_unary :: "rcall \<Rightarrow> string \<Rightarrow> bool D" where
  "cpp_demangle_read_expression_unary rc name =
     check (call rc C_expression) (DEM_PUSH_STR name)"

definition cpp_demangle_read_expression_trinary :: "rcall \<Rightarrow> string \<Rightarrow> string \<Rightarrow> bool D" where
  "cpp_demangle_read_expression_trinary rc name1 name2 =
     check (call rc C_expression) (
     check (DEM_PUSH_STR name1) (
     check (call rc C_expression) (
     check (DEM_PUSH_STR name2) (
     call rc C_expression))))"

definition cpp_demangle_read_expression :: "rcall \<Rightarrow> bool D" where
  "cpp_demangle_read_expression rc = peek 0 (\<lambda>c.
     if c = NUL then ret False
     else peek 1 (\<lambda>c1. let h = SIMPLE_HASH c c1 in
       if h = hash_of ''st'' then advance 2 (call rc (C_type None))
       else if h = hash_of ''sr'' then
         advance 2 (
           check (call rc (C_type None)) (
           check (cpp_demangle_read_uqname rc) (
           peek 0 (\<lambda>c. if c = CHR ''I'' then cpp_demangle_read_tmpl_args rc else ret True))))
       else if h = hash_of ''qu'' then
         advance 2 (cpp_demangle_read_expression_trinary rc ''?'' '':'')
       else case hash_find expr_operators h of
         Some (Binary name) \<Rightarrow> advance 2 (cpp_demangle_read_expression_binary rc name)
       | Some (Unary name) \<Rightarrow> advance 2 (cpp_demangle_read_expression_unary rc name)
       | None \<Rightarrow>
         if c = CHR ''L'' then cpp_demangle_read_expr_primary rc
         else if c = CHR ''T'' then cpp_demangle_read_tmpl_param
         else ret False))"

section \<open>Names\<close>

text \<open>The flags of \<open>cpp_demangle_read_nested_name\<close>: the letters \<open>r V K R O\<close> after the \<open>N\<close>.\<close>

definition nested_qualifiers :: "'a D \<Rightarrow> 'a D" where
  "nested_qualifiers k = gets cur (\<lambda>i. str_at i (\<lambda>str.
     let qs = takeWhile (\<lambda>c. List.member ''rVKRO'' c) str in
     upd (\<lambda>s. s\<lparr>mem_rst := mem_rst s \<or> List.member qs (CHR ''r''),
                mem_vat := mem_vat s \<or> List.member qs (CHR ''V''),
                mem_cst := mem_cst s \<or> List.member qs (CHR ''K''),
                mem_ref := mem_ref s \<or> List.member qs (CHR ''R''),
                mem_rref := mem_rref s \<or> List.member qs (CHR ''O'')\<rparr>) (
     advance (length qs) k)))"

text \<open>One component of a nested name, up to the separator after it.\<close>

definition nested_component :: "rcall \<Rightarrow> bool D" where
  "nested_component rc = peek 0 (\<lambda>c.
     if c = CHR ''I'' then cpp_demangle_read_tmpl_args rc
     else if c = CHR ''S'' then cpp_demangle_read_subst rc
     else if c = CHR ''T'' then cpp_demangle_read_tmpl_param
     else cpp_demangle_read_uqname rc)"

definition nested_next :: "vloc \<Rightarrow> nat \<Rightarrow> vector_str \<Rightarrow> (vector_str, bool) ctl D" where
  "nested_next l p_idx v = peek 0 (\<lambda>c. with_vec l (\<lambda>ov.
     if c = CHR ''E'' then ret (Stop True)
     else if c \<noteq> CHR ''I'' \<and> c \<noteq> CHR ''C'' \<and> c \<noteq> CHR ''D'' \<and> p_idx \<noteq> vs_size ov then
       bind (DEM_PUSH_STR ''::'') (\<lambda>b. if \<not> b then ret (Stop False)
         else bind (VEC_PUSH_STR v (Chars ''::'')) (\<lambda>(ok, v').
           ret (if ok then Next v' else Stop False)))
     else ret (Next v)))"

definition nested_round :: "rcall \<Rightarrow> vloc \<Rightarrow> vector_str \<Rightarrow> (vector_str, bool) ctl D" where
  "nested_round rc l v = with_vec l (\<lambda>ov0. let p_idx = vs_size ov0 in
     bind (nested_component rc) (\<lambda>b. if \<not> b then ret (Stop False)
       else with_vec l (\<lambda>ov.
         if p_idx = vs_size ov then nested_next l p_idx v
         else bind (substr_from ov p_idx) (\<lambda>r.
           case r of None \<Rightarrow> ret (Stop False)
           | Some (str, len) \<Rightarrow> bind (vector_str_push v str len) (\<lambda>(ok, v').
               if \<not> ok then ret (Stop False)
               else bind (cpp_demangle_push_subst_v v') (\<lambda>b.
                 if \<not> b then ret (Stop False) else nested_next l p_idx v'))))))"

definition cpp_demangle_read_nested_name :: "rcall \<Rightarrow> bool D" where
  "cpp_demangle_read_nested_name rc = peek 0 (\<lambda>c.
     if c \<noteq> CHR ''N'' then ret False
     else advance 1 (peek 0 (\<lambda>c.
       if c = NUL then ret False
       else nested_qualifiers (gets cur_output (\<lambda>l.
         check_some vector_str_init (\<lambda>v.
         check (limited TRY_ROUNDS False (nested_round rc l) v) (advance 1 (ret True))))))))"

text \<open>The loop of \<open>cpp_demangle_read_local_name\<close> over the parameter types; \<open>None\<close> is a failure.\<close>

definition local_types_round ::
    "rcall \<Rightarrow> type_delimit \<times> bool \<Rightarrow> (type_delimit \<times> bool, (type_delimit \<times> bool) option) ctl D" where
  "local_types_round rc x = (case x of (td, more_type) \<Rightarrow> peek 0 (\<lambda>c.
     if c = NUL then ret (Stop (Some (td, more_type)))
     else bind (rc (C_type (Some td))) (\<lambda>(b, td').
       case td' of None \<Rightarrow> ret (Stop None)
       | Some t \<Rightarrow> if \<not> b then ret (Stop None)
           else peek 0 (\<lambda>c.
             if c = CHR ''E'' then ret (Stop (Some (t, False))) else ret (Next (t, False))))))"

definition local_entity :: "rcall \<Rightarrow> type_delimit \<Rightarrow> bool D" where
  "local_entity rc td = advance 1 (peek 0 (\<lambda>c.
     if c = NUL then ret False
     else check (if paren td then DEM_PUSH_STR '')'' else ret True) (
       peek 0 (\<lambda>c.
         check (if c = CHR ''s'' then advance 1 (ret True)
                else check (DEM_PUSH_STR ''::'') (call rc C_name))
           skip_discriminator))))"

definition cpp_demangle_read_local_name :: "rcall \<Rightarrow> bool D" where
  "cpp_demangle_read_local_name rc = advance 1 (peek 0 (\<lambda>c.
     if c = NUL then ret False
     else check_some vector_str_init (\<lambda>lv. frame_push lv (
       bind (call rc C_encoding) (\<lambda>b. if \<not> b then frame_pop (ret False)
         else upd (\<lambda>s. s\<lparr>cur_output := V_output\<rparr>) (
           gets is_tmpl (\<lambda>more_type.
             bind (if more_type
                   then upd (\<lambda>s. s\<lparr>is_tmpl := False\<rparr>) (call rc (C_type None)) else ret True) (\<lambda>b.
               if \<not> b then frame_pop (ret False)
               else gets (\<lambda>s. last (frames s)) (\<lambda>local_name.
                 bind (on_vec V_output (\<lambda>v. vector_str_push_vector v local_name)) (\<lambda>b.
                   if \<not> b then frame_pop (ret False)
                   else frame_pop (
                     bind (limited TRY_ROUNDS None (local_types_round rc)
                             (\<lparr>paren = False, firstp = True\<rparr>, more_type)) (\<lambda>r.
                       case r of None \<Rightarrow> ret False
                       | Some (td, more_type) \<Rightarrow>
                           if more_type then ret False else local_entity rc td))))))))))))"

definition cpp_demangle_read_name :: "rcall \<Rightarrow> bool D" where
  "cpp_demangle_read_name rc = peek 0 (\<lambda>c.
     if c = NUL then ret False
     else if c = CHR ''S'' then cpp_demangle_read_subst rc
     else if c = CHR ''N'' then cpp_demangle_read_nested_name rc
     else if c = CHR ''Z'' then cpp_demangle_read_local_name rc
     else gets cur_output (\<lambda>l. check_some vector_str_init (\<lambda>v.
       with_vec l (\<lambda>ov. let p_idx = vs_size ov in
         check (cpp_demangle_read_uqname rc) (
         with_vec l (\<lambda>ov. check_some (substr_from ov p_idx) (\<lambda>(str, len).
           if len > 8 \<and> (case str of Chars t \<Rightarrow> strstr t ''operator'' | Garbage \<Rightarrow> False) then ret True
           else bind (vector_str_push v str len) (\<lambda>(ok, v).
             if \<not> ok then ret False
             else check (cpp_demangle_push_subst_v v) (read_tmpl_suffix rc l v)))))))))"

section \<open>Function types and pointers to members\<close>

definition function_types_round ::
    "rcall \<Rightarrow> type_delimit \<Rightarrow> (type_delimit, type_delimit option) ctl D" where
  "function_types_round rc td = bind (rc (C_type (Some td))) (\<lambda>(b, td').
     case td' of None \<Rightarrow> ret (Stop None)
     | Some t \<Rightarrow> if \<not> b then ret (Stop None)
         else peek 0 (\<lambda>c. if c = CHR ''E'' then ret (Stop (Some t)) else ret (Next t)))"

text \<open>The class of a pointer to a member function, \<open>Class::*\<close>, with its qualifiers.\<close>

definition push_ptrmem_class :: "read_cmd_item \<Rightarrow> bool \<Rightarrow> bool D" where
  "push_ptrmem_class item non_cv_qualifier =
     check (if non_cv_qualifier then DEM_PUSH_STR '' '' else ret True) (
     gets class_type (\<lambda>cv.
       if vs_size cv = 0 then ret False
       else let ct = snd (last (vs_container cv)) in
         if length ct = 0 then ret False
         else check (cpp_demangle_push_str (Chars ct) (length ct)) (
           check (DEM_PUSH_STR ''::*'') (
           upd (\<lambda>s. s\<lparr>push_qualifier := PUSH_ALL_QUALIFIER\<rparr>) (
           check (case rc_data item of None \<Rightarrow> ret False
                  | Some q \<Rightarrow> cpp_demangle_push_type_qualifier q None) (
           upd (\<lambda>s. s\<lparr>func_type := func_type s + 1\<rparr>) (ret True)))))))"

definition push_ref_qualifier :: "bool D" where
  "push_ref_qualifier = gets ref_qualifier (\<lambda>rq. gets ref_qualifier_type (\<lambda>ty.
     if \<not> rq then ret True
     else check (case ty of TYPE_REF \<Rightarrow> DEM_PUSH_STR '' &'' | TYPE_RREF \<Rightarrow> DEM_PUSH_STR '' &&''
                 | _ \<Rightarrow> ret False) (
       upd (\<lambda>s. s\<lparr>ref_qualifier := False\<rparr>) (ret True))))"

text \<open>The declarator part before the parameters, and everything from the parameters on.\<close>

definition function_declarator :: "vector_type_qualifier \<Rightarrow> bool D" where
  "function_declarator v =
     check (DEM_PUSH_STR '' '') (
     let non_cv_qualifier = list_ex (\<lambda>t. \<not> is_cv t) (vq_container v) in
     gets (\<lambda>s. vector_read_cmd_find (cmd s) READ_PTRMEM) (\<lambda>item.
       let parens = (non_cv_qualifier \<or> item \<noteq> None) in
       check (if parens then DEM_PUSH_STR ''('' else ret True) (
       upd (\<lambda>s. s\<lparr>push_qualifier := PUSH_NON_CV_QUALIFIER\<rparr>) (
       check (cpp_demangle_push_type_qualifier v None) (
       check (case item of None \<Rightarrow> ret True | Some it \<Rightarrow> push_ptrmem_class it non_cv_qualifier) (
       if parens then DEM_PUSH_STR '')'' else ret True))))))"

text \<open>
  \<open>vector_type_qualifier_dest(v); if (!vector_type_qualifier_init(v)) return (0);\<close> When the
  second call fails, the caller's label \<open>clean\<close> releases the vector again: its
  \<open>ext_name\<close> is still the one just released when the first allocation fails, its
  \<open>q_container\<close> when the second does.
\<close>

definition requalify ::
    "vector_type_qualifier \<Rightarrow> (vector_type_qualifier \<Rightarrow> (bool \<times> vector_type_qualifier) D)
       \<Rightarrow> (bool \<times> vector_type_qualifier) D" where
  "requalify v k = bind (vector_type_qualifier_dest v) (\<lambda>_.
     bind vector_type_qualifier_init (\<lambda>v'.
       case v' of None \<Rightarrow> crash Double_Free | Some v' \<Rightarrow> k v'))"

definition function_parameters :: "rcall \<Rightarrow> vector_type_qualifier \<Rightarrow> (bool \<times> vector_type_qualifier) D" where
  "function_parameters rc v = upd (\<lambda>s. s\<lparr>is_functype := True\<rparr>) (
     bind (limited TRY_ROUNDS None (function_types_round rc) \<lparr>paren = False, firstp = True\<rparr>) (\<lambda>r.
       case r of None \<Rightarrow> ret (False, v)
       | Some td \<Rightarrow> upd (\<lambda>s. s\<lparr>is_functype := False\<rparr>) (
           checkx v (if paren td then DEM_PUSH_STR '')'' else ret True) (
           upd (\<lambda>s. s\<lparr>push_qualifier := PUSH_CV_QUALIFIER\<rparr>) (
           checkx v (cpp_demangle_push_type_qualifier v None) (
           upd (\<lambda>s. s\<lparr>push_qualifier := PUSH_ALL_QUALIFIER\<rparr>) (
           requalify v (\<lambda>v'. checkx v' push_ref_qualifier (advance 1 (ret (True, v')))))))))))"

definition cpp_demangle_read_function ::
    "rcall \<Rightarrow> vector_type_qualifier \<Rightarrow> (bool \<times> vector_type_qualifier) D" where
  "cpp_demangle_read_function rc v = peek 0 (\<lambda>c.
     if c \<noteq> CHR ''F'' then ret (False, v)
     else advance 1 (peek 0 (\<lambda>c. advance (if c = CHR ''Y'' then 1 else 0) (
       checkx v (call rc (C_type None)) (peek 0 (\<lambda>c.
         if c = CHR ''E'' then advance 1 (ret (True, v))
         else checkx v (function_declarator v) (function_parameters rc v)))))))"

text \<open>
  \<open>cpp_demangle_read_pointer_to_member\<close>: the class, then the member type with the class on
  the stack of class names. The labels \<open>clean3\<close>, \<open>clean2\<close> and \<open>clean1\<close> undo the
  pushes and replace the qualifier vector by an empty one.
\<close>

definition ptrmem_member :: "rcall \<Rightarrow> cbuf \<Rightarrow> nat \<Rightarrow> bool D" where
  "ptrmem_member rc ct ct_len = gets func_type (\<lambda>p_func_type.
     check (call rc (C_type None)) (
     gets func_type (\<lambda>ft.
       if p_func_type = ft then
         check (DEM_PUSH_STR '' '') (
         check (cpp_demangle_push_str ct ct_len) (
         DEM_PUSH_STR ''::*''))
       else ret True)))"

definition ptrmem_scoped :: "rcall \<Rightarrow> vector_type_qualifier \<Rightarrow> cbuf \<Rightarrow> nat \<Rightarrow> bool D" where
  "ptrmem_scoped rc v ct ct_len =
     check (on_cmd (\<lambda>cs. vector_read_cmd_push cs \<lparr>rc_cmd = READ_PTRMEM, rc_data = Some v\<rparr>)) (
     bind (on_class_type (\<lambda>cv. vector_str_push cv ct ct_len)) (\<lambda>pushed.
     bind (if \<not> pushed then ret False
           else bind (ptrmem_member rc ct ct_len) (\<lambda>rtn.
             upd (\<lambda>s. s\<lparr>class_type := vector_str_pop (class_type s)\<rparr>) (ret rtn))) (\<lambda>rtn.
     bind (on_cmd (\<lambda>cs. ret (vector_read_cmd_pop cs))) (\<lambda>popped. ret (rtn \<and> popped)))))"

definition cpp_demangle_read_pointer_to_member ::
    "rcall \<Rightarrow> vector_type_qualifier \<Rightarrow> (bool \<times> vector_type_qualifier) D" where
  "cpp_demangle_read_pointer_to_member rc v = peek 0 (\<lambda>c.
     if c \<noteq> CHR ''M'' then ret (False, v)
     else advance 1 (peek 0 (\<lambda>c.
       if c = NUL then ret (False, v)
       else bind (read_flat V_output (call rc (C_type None))) (\<lambda>r.
         case r of None \<Rightarrow> ret (False, v)
         | Some (ct, ct_len) \<Rightarrow> bind (ptrmem_scoped rc v ct ct_len) (\<lambda>rtn.
             requalify v (\<lambda>v'. ret (rtn, v')))))))"

end
