(* ===== verification/Demangle_Main.thy ===== *)
theory Demangle_Main
  imports Demangle_Read
begin

text \<open>
  The rest of the reader (\<open>cpp_demangle_read_encoding\<close>, \<open>cpp_demangle_read_type\<close>),
  the knot that ties the recursive calls (\<open>step\<close>, \<open>run\<close>), and the entry points
  \<open>__cxa_demangle_gnu3\<close> and \<open>is_cpp_mangled_gnu3\<close>.
\<close>

section \<open>Encodings\<close>

text \<open>
  The common start of a special name: its text, the two letters skipped, failure at the end.
\<close>

definition special_prefix :: "string \<Rightarrow> bool D \<Rightarrow> bool D" where
  "special_prefix txt k = check (DEM_PUSH_STR txt) (advance 2 (peek 0 (\<lambda>c.
     if c = NUL then ret False else k)))"

definition encoding_ref_temporary :: "rcall \<Rightarrow> bool D" where
  "encoding_ref_temporary rc = special_prefix ''reference temporary #'' (
     check_some (cpp_demangle_read_name_flat rc) (\<lambda>(name, name_len).
     check_some cpp_demangle_read_number_as_string (\<lambda>num_str.
     check (DEM_PUSH_STR num_str) (
     check (DEM_PUSH_STR '' for '') (
     DEM_PUSH_BUF name)))))"

definition encoding_transaction :: "rcall \<Rightarrow> bool D" where
  "encoding_transaction rc = advance 2 (peek 0 (\<lambda>c.
     if c = NUL then ret False
     else check (DEM_PUSH_STR (if c = CHR ''n'' then ''non-transaction clone for ''
                               else ''transaction clone for '')) (
       advance 1 (call rc C_encoding))))"

definition encoding_construction_vtable :: "rcall \<Rightarrow> bool D" where
  "encoding_construction_vtable rc = special_prefix ''construction vtable for '' (
     check_some (cpp_demangle_read_type_flat rc) (\<lambda>(type, type_len).
     check_some cpp_demangle_read_number (\<lambda>offset.
     peek 0 (\<lambda>c. advance 1 (
       if c \<noteq> CHR ''_'' then ret False
       else check (call rc (C_type None)) (
         check (DEM_PUSH_STR ''-in-'') (
         DEM_PUSH_BUF type)))))))"

definition cpp_demangle_read_encoding :: "rcall \<Rightarrow> bool D" where
  "cpp_demangle_read_encoding rc = peek 0 (\<lambda>c.
     if c = NUL then ret False
     else peek 1 (\<lambda>c1. let h = SIMPLE_HASH c c1 in
       if h = hash_of ''GA'' then special_prefix ''hidden alias for '' (call rc C_encoding)
       else if h = hash_of ''GR'' then encoding_ref_temporary rc
       else if h = hash_of ''GT'' then encoding_transaction rc
       else if h = hash_of ''GV'' then
         check (DEM_PUSH_STR ''guard variable for '') (advance 2 (call rc C_name))
       else if h = hash_of ''Tc'' then special_prefix ''virtual function covariant override '' (
         check cpp_demangle_read_offset (
         check cpp_demangle_read_offset (
         call rc C_encoding)))
       else if h = hash_of ''TC'' then encoding_construction_vtable rc
       else if h = hash_of ''Th'' then special_prefix ''virtual function non-virtual override '' (
         check cpp_demangle_read_nv_offset (call rc C_encoding))
       else if h = hash_of ''Tv'' then special_prefix ''virtual function virtual override '' (
         check cpp_demangle_read_v_offset (call rc C_encoding))
       else case hash_find special_type_names h of
         Some txt \<Rightarrow> special_prefix txt (call rc (C_type None))
       | None \<Rightarrow> (case hash_find special_tls_names h of
           Some txt \<Rightarrow> special_prefix txt (call rc C_name)
         | None \<Rightarrow> call rc C_name)))"

section \<open>Types\<close>

definition clear_firstp :: "type_delimit option \<Rightarrow> type_delimit option" where
  "clear_firstp td = map_option (\<lambda>t. t\<lparr>firstp := False\<rparr>) td"

text \<open>The delimiters before a parameter: the opening parenthesis once, a comma between.\<close>

definition type_delimiters ::
    "type_delimit option \<Rightarrow> (type_delimit option \<Rightarrow> (bool \<times> type_delimit option) D)
       \<Rightarrow> (bool \<times> type_delimit option) D" where
  "type_delimiters td k = (case td of None \<Rightarrow> k None
     | Some t \<Rightarrow>
         checkx td (if paren t then ret True
                    else check (DEM_PUSH_STR ''('') (gets output_v (\<lambda>ov. ret (vs_size ov \<ge> 2)))) (
         let t = t\<lparr>paren := True\<rparr> in
         checkx (Some t) (if firstp t then ret True
                   else peek 0 (\<lambda>c. if c \<noteq> CHR ''I'' then DEM_PUSH_STR '', '' else ret True)) (
         k (Some t))))"

text \<open>
  The label \<open>rtn\<close>: the type's text becomes a substitution unless it is builtin, and its
  qualifiers are written.
\<close>

definition type_rtn ::
    "type_delimit option \<Rightarrow> vloc \<Rightarrow> nat \<Rightarrow> vector_type_qualifier \<Rightarrow> bool \<Rightarrow> bool
       \<Rightarrow> (bool \<times> type_delimit option) D" where
  "type_rtn td l p_idx v is_builtin skip_ref_qualifier = with_vec l (\<lambda>ov.
     bind (substr_from ov p_idx) (\<lambda>r.
       let type_str = map_option fst r; type_str_len = (case r of None \<Rightarrow> 0 | Some x \<Rightarrow> snd x) in
       checkx td (
         if is_builtin then ret True
         else gets subst (\<lambda>sv. bind (vector_str_find sv type_str type_str_len) (\<lambda>found.
           if found \<noteq> 0 then ret True
           else case type_str of None \<Rightarrow> ret False
             | Some b \<Rightarrow> on_subst (\<lambda>sv. vector_str_push sv b type_str_len)))) (
       checkx td (if skip_ref_qualifier then ret True
                  else cpp_demangle_push_type_qualifier v type_str) (
       bind (vector_type_qualifier_dest v) (\<lambda>_. ret (True, clear_firstp td))))))"

text \<open>A qualifier letter: remember it and read on.\<close>

definition type_qualifier_letter ::
    "rcall \<Rightarrow> type_delimit option \<Rightarrow> vloc \<Rightarrow> nat \<Rightarrow> vector_type_qualifier \<Rightarrow> type_qualifier
       \<Rightarrow> (bool \<times> type_delimit option) D" where
  "type_qualifier_letter rc td l p_idx v q =
     bind (vector_type_qualifier_push v q) (\<lambda>(ok, v').
       if \<not> ok then ret (False, td)
       else advance 1 (rc (C_again (clear_firstp td) l p_idx v')))"

text \<open>\<open>R\<close> and \<open>O\<close> also record a possible ref-qualifier of a function type.\<close>

definition type_reference ::
    "rcall \<Rightarrow> type_delimit option \<Rightarrow> vloc \<Rightarrow> nat \<Rightarrow> vector_type_qualifier \<Rightarrow> type_qualifier
       \<Rightarrow> (bool \<times> type_delimit option) D" where
  "type_reference rc td l p_idx v q = gets ref_qualifier (\<lambda>rq.
     if rq then ret (False, td)
     else bind (vector_type_qualifier_push v q) (\<lambda>(ok, v').
       if \<not> ok then ret (False, td)
       else upd (\<lambda>s. s\<lparr>ref_qualifier := True, ref_qualifier_type := q\<rparr>) (
         advance 1 (rc (C_again (clear_firstp td) l p_idx v')))))"

text \<open>\<open>Dv\<close>: a vector size, a number or an expression.\<close>

definition type_vector ::
    "rcall \<Rightarrow> type_delimit option \<Rightarrow> vloc \<Rightarrow> nat \<Rightarrow> vector_type_qualifier
       \<Rightarrow> (bool \<times> type_delimit option) D" where
  "type_vector rc td l p_idx v = advance 1 (peek 0 (\<lambda>c.
     bind (if c = CHR ''_''
           then advance 1 (bind (cpp_demangle_read_expression_flat rc) (\<lambda>r.
             case r of None \<Rightarrow> ret (False, ext_name v)
             | Some (exp_str, _) \<Rightarrow> VEC_PUSH_STR (ext_name v) exp_str))
           else bind cpp_demangle_read_number_as_string (\<lambda>r.
             case r of None \<Rightarrow> ret (False, ext_name v)
             | Some num_str \<Rightarrow> VEC_PUSH_STR (ext_name v) (Chars num_str))) (\<lambda>(ok, en).
     if \<not> ok then ret (False, td)
     else peek 0 (\<lambda>c.
       if c \<noteq> CHR ''_'' then ret (False, td)
       else advance 1 (
         bind (vector_type_qualifier_push (v\<lparr>ext_name := en\<rparr>) TYPE_VEC) (\<lambda>(ok, v').
           if \<not> ok then ret (False, td) else rc (C_again (clear_firstp td) l p_idx v')))))))"

definition type_D ::
    "rcall \<Rightarrow> type_delimit option \<Rightarrow> vloc \<Rightarrow> nat \<Rightarrow> vector_type_qualifier
       \<Rightarrow> (bool \<times> type_delimit option) D" where
  "type_D rc td l p_idx v = advance 1 (peek 0 (\<lambda>c.
     case map_of builtin_types_D c of
       Some name \<Rightarrow> checkx td (DEM_PUSH_STR name) (advance 1 (type_rtn td l p_idx v True False))
     | None \<Rightarrow> if c = CHR ''v'' then type_vector rc td l p_idx v else ret (False, td)))"

text \<open>\<open>I\<close>: template arguments after a substitution.\<close>

definition type_tmpl_args ::
    "rcall \<Rightarrow> type_delimit option \<Rightarrow> vloc \<Rightarrow> vector_type_qualifier \<Rightarrow> (bool \<times> type_delimit option) D" where
  "type_tmpl_args rc td l v = with_vec l (\<lambda>ov. let p_idx = vs_size ov in
     checkx td (
       check (cpp_demangle_read_tmpl_args rc) (
       with_vec l (\<lambda>ov. check_some (substr_from ov p_idx) (\<lambda>(str, len).
         check_some vector_str_init (\<lambda>sv.
         bind (vector_str_push sv str len) (\<lambda>(ok, sv').
           if \<not> ok then ret False else cpp_demangle_push_subst_v sv')))))) (
     type_rtn td l p_idx v True False))"

text \<open>\<open>U\<close>: a vendor qualifier, its name kept in \<open>ext_name\<close>.\<close>

definition type_vendor_qualifier ::
    "rcall \<Rightarrow> type_delimit option \<Rightarrow> vloc \<Rightarrow> nat \<Rightarrow> vector_type_qualifier
       \<Rightarrow> (bool \<times> type_delimit option) D" where
  "type_vendor_qualifier rc td l p_idx v = advance 1 (
     bind cpp_demangle_read_number (\<lambda>r.
       case r of None \<Rightarrow> ret (False, td)
       | Some len \<Rightarrow>
         if len \<le> 0 then ret (False, td)
         else bind (gets cur (\<lambda>i. str_at i (\<lambda>str. vector_str_push (ext_name v) (Chars str) (nat len)))) (\<lambda>(ok, en).
           if \<not> ok then ret (False, td)
           else advance (nat len) (
             bind (vector_type_qualifier_push (v\<lparr>ext_name := en\<rparr>) TYPE_EXT) (\<lambda>(ok, v').
               if \<not> ok then ret (False, td) else rc (C_again (clear_firstp td) l p_idx v'))))))"

text \<open>\<open>v\<close>: \<open>void\<close> is not written when it is the whole parameter list.\<close>

definition omit_void :: "type_delimit option \<Rightarrow> string \<Rightarrow> bool" where
  "omit_void td rest = (case td of None \<Rightarrow> False
     | Some t \<Rightarrow> firstp t \<and>
         (let r = dropWhile (\<lambda>c. c = CHR ''R'' \<or> c = CHR ''O'') rest in r = [] \<or> hd r = CHR ''E''))"

definition type_void ::
    "type_delimit option \<Rightarrow> vloc \<Rightarrow> nat \<Rightarrow> vector_type_qualifier \<Rightarrow> (bool \<times> type_delimit option) D" where
  "type_void td l p_idx v = gets cur (\<lambda>i. str_at (i + 1) (\<lambda>rest.
     checkx td (if omit_void td rest then ret True else DEM_PUSH_STR ''void'') (
     advance 1 (type_rtn td l p_idx v True False))))"

text \<open>\<open>E\<close> ends a function type whose last parameter was a ref-qualifier.\<close>

definition type_end ::
    "type_delimit option \<Rightarrow> vloc \<Rightarrow> nat \<Rightarrow> vector_type_qualifier \<Rightarrow> (bool \<times> type_delimit option) D" where
  "type_end td l p_idx v = gets (\<lambda>s. ref_qualifier s \<and> is_functype s) (\<lambda>b.
     if b then bind cpp_demangle_pop_str (\<lambda>_. type_rtn td l p_idx v True True)
     else ret (False, td))"

text \<open>The cases of the switch that are neither a builtin type nor a plain qualifier.\<close>

definition type_compound ::
    "rcall \<Rightarrow> type_delimit option \<Rightarrow> vloc \<Rightarrow> nat \<Rightarrow> vector_type_qualifier \<Rightarrow> char
       \<Rightarrow> (bool \<times> type_delimit option) D" where
  "type_compound rc td l p_idx v c =
     (if c = CHR ''A'' then checkx td (cpp_demangle_read_array rc) (type_rtn td l p_idx v False False)
      else if c = CHR ''D'' then type_D rc td l p_idx v
      else if c = CHR ''E'' then type_end td l p_idx v
      else if c = CHR ''F'' then bind (cpp_demangle_read_function rc v) (\<lambda>(ok, v').
        if \<not> ok then ret (False, td) else type_rtn td l p_idx v' False False)
      else if c = CHR ''I'' then type_tmpl_args rc td l v
      else if c = CHR ''M'' then bind (cpp_demangle_read_pointer_to_member rc v) (\<lambda>(ok, v').
        if \<not> ok then ret (False, td) else type_rtn td l p_idx v' False False)
      else if c = CHR ''O'' then type_reference rc td l p_idx v TYPE_RREF
      else if c = CHR ''R'' then type_reference rc td l p_idx v TYPE_REF
      else if c = CHR ''S'' then checkx td (cpp_demangle_read_subst rc) (type_rtn td l p_idx v False False)
      else if c = CHR ''T'' then checkx td cpp_demangle_read_tmpl_param (type_rtn td l p_idx v False False)
      else if c = CHR ''u'' then
        advance 1 (checkx td cpp_demangle_read_sname (type_rtn td l p_idx v False False))
      else if c = CHR ''U'' then type_vendor_qualifier rc td l p_idx v
      else if c = CHR ''v'' then type_void td l p_idx v
      else checkx td (call rc C_name) (type_rtn td l p_idx v False False))"

text \<open>The label \<open>again\<close>.\<close>

definition type_again ::
    "rcall \<Rightarrow> type_delimit option \<Rightarrow> vloc \<Rightarrow> nat \<Rightarrow> vector_type_qualifier
       \<Rightarrow> (bool \<times> type_delimit option) D" where
  "type_again rc td l p_idx v = peek 0 (\<lambda>c.
     upd (\<lambda>s. if c \<noteq> CHR ''R'' \<and> c \<noteq> CHR ''O'' \<and> c \<noteq> CHR ''E'' then s\<lparr>ref_qualifier := False\<rparr> else s) (
       case map_of builtin_types c of
         Some name \<Rightarrow> checkx td (DEM_PUSH_STR name) (advance 1 (type_rtn td l p_idx v True False))
       | None \<Rightarrow> (case map_of qualifier_letters c of
           Some q \<Rightarrow> type_qualifier_letter rc td l p_idx v q
         | None \<Rightarrow> type_compound rc td l p_idx v c)))"

definition cpp_demangle_read_type :: "rcall \<Rightarrow> type_delimit option \<Rightarrow> (bool \<times> type_delimit option) D" where
  "cpp_demangle_read_type rc td = gets cur_output (\<lambda>l. type_delimiters td (\<lambda>td.
     bind vector_type_qualifier_init (\<lambda>v.
       case v of None \<Rightarrow> ret (False, td)
       | Some v \<Rightarrow> with_vec l (\<lambda>ov. rc (C_again td l (vs_size ov) v)))))"

section \<open>Tying the knot\<close>

definition step :: "rcall \<Rightarrow> rcall" where
  "step rc c = (case c of
     C_type td \<Rightarrow> cpp_demangle_read_type rc td
   | C_again td l p_idx v \<Rightarrow> type_again rc td l p_idx v
   | C_encoding \<Rightarrow> bind (cpp_demangle_read_encoding rc) (\<lambda>b. ret (b, None))
   | C_expression \<Rightarrow> bind (cpp_demangle_read_expression rc) (\<lambda>b. ret (b, None))
   | C_name \<Rightarrow> bind (cpp_demangle_read_name rc) (\<lambda>b. ret (b, None)))"

primrec run :: "nat \<Rightarrow> rcall" where
  "run 0 c = crash Out_Of_Fuel"
| "run (Suc n) c = step (run n) c"

section \<open>Entry points\<close>

definition is_cpp_mangled_gnu3 :: "string \<Rightarrow> bool" where
  "is_cpp_mangled_gnu3 org \<longleftrightarrow>
     (length org > 2 \<and> org ! 0 = CHR ''_'' \<and> org ! 1 = CHR ''Z'') \<or>
     (length org > 11 \<and> strncmp_eq org ''_GLOBAL__I_'' 11)"

text \<open>The label \<open>clean\<close>.\<close>

definition demangle_clean :: "bool \<Rightarrow> string option \<Rightarrow> string option D" where
  "demangle_clean has_ret rtn =
     (if has_ret then frame_pop (cpp_demangle_data_dest (ret rtn)) else cpp_demangle_data_dest (ret rtn))"

definition get_output :: "string option D" where
  "get_output = gets output_v (\<lambda>v. bind (vector_str_get_flat v) (\<lambda>r. ret (map_option fst r)))"

text \<open>
  One round of the loop over return and parameter types. The loop variables are the delimiter,
  \<open>has_ret\<close> and \<open>more_type\<close>; the result also says whether to go on after the loop.
\<close>

type_synonym main_vars = "type_delimit \<times> bool \<times> bool"

definition main_return_type :: "rcall \<Rightarrow> type_delimit \<Rightarrow> (main_vars, bool \<times> main_vars) ctl D" where
  "main_return_type rc td =
     bind (check (call rc (C_type None)) (
           check (on_vec (V_frame 0) (\<lambda>v. VEC_PUSH_STR v (Chars '' ''))) (
           with_vec (V_frame 0) (\<lambda>rv. on_vec V_output (\<lambda>v. vector_str_push_vector_head v rv))))) (\<lambda>b.
       if \<not> b then ret (Stop (False, td, True, False))
       else upd (\<lambda>s. s\<lparr>cur_output := V_output\<rparr>) (frame_pop (ret (Next (td, False, True)))))"

definition main_round :: "rcall \<Rightarrow> main_vars \<Rightarrow> (main_vars, bool \<times> main_vars) ctl D" where
  "main_round rc x = (case x of (td, has_ret, more_type) \<Rightarrow> peek 0 (\<lambda>c.
     if c = NUL then ret (Stop (True, x))
     else (if c = CHR ''@'' then peek 1 else (\<lambda>k. k NUL)) (\<lambda>c1.
       if c1 = CHR ''@'' then ret (Stop (True, x))
       else if has_ret then main_return_type rc td
       else bind (rc (C_type (Some td))) (\<lambda>(b, td').
         case td' of None \<Rightarrow> ret (Stop (False, x))
         | Some t \<Rightarrow> if b then ret (Next (t, False, False)) else ret (Stop (False, x))))))"

text \<open>The closing parenthesis and the qualifiers of a member function.\<close>

definition push_if :: "bool \<Rightarrow> string \<Rightarrow> bool D" where
  "push_if b str = (if b then on_vec V_output (\<lambda>v. VEC_PUSH_STR v (Chars str)) else ret True)"

definition main_finish :: "type_delimit \<Rightarrow> bool D" where
  "main_finish td =
     check (push_if (paren td) '')'') (
     gets mem_vat (\<lambda>b. check (push_if b '' volatile'') (
     gets mem_cst (\<lambda>b. check (push_if b '' const'') (
     gets mem_rst (\<lambda>b. check (push_if b '' restrict'') (
     gets mem_ref (\<lambda>b. check (push_if b '' &'') (
     gets mem_rref (\<lambda>b. push_if b '' &&''))))))))))"

text \<open>
  When the loop gives up it has made a round, so the return type (if any) has been moved and
  \<open>has_ret\<close> is false.
\<close>

definition main_types :: "rcall \<Rightarrow> bool \<Rightarrow> string option D" where
  "main_types rc has_ret =
     bind (limited TRY_ROUNDS (False, \<lparr>paren = False, firstp = True\<rparr>, False, False)
            (main_round rc) (\<lparr>paren = False, firstp = True\<rparr>, has_ret, False)) (\<lambda>(ok, td, has_ret, more_type).
       gets output_v (\<lambda>ov.
         if \<not> ok \<or> more_type \<or> vs_size ov = 0 then demangle_clean has_ret None
         else bind (main_finish td) (\<lambda>b.
           if \<not> b then demangle_clean has_ret None
           else bind get_output (\<lambda>rtn. demangle_clean has_ret rtn))))"

definition demangle_encoding :: "rcall \<Rightarrow> string option D" where
  "demangle_encoding rc =
     bind (call rc C_encoding) (\<lambda>b. if \<not> b then demangle_clean False None
       else peek 0 (\<lambda>c.
         upd (\<lambda>s. if c \<noteq> NUL \<and> vs_size (subst s) \<ge> 1
                   then s\<lparr>subst := vector_str_pop (subst s)\<rparr> else s) (
         gets is_tmpl (\<lambda>t.
           if \<not> t then main_types rc False
           else upd (\<lambda>s. s\<lparr>is_tmpl := False\<rparr>) (
             bind vector_str_init (\<lambda>rv.
               case rv of None \<Rightarrow> demangle_clean False None
               | Some rv \<Rightarrow> frame_push rv (main_types rc True)))))))"

definition demangle_type :: "rcall \<Rightarrow> string option D" where
  "demangle_type rc = bind (call rc (C_type None)) (\<lambda>b.
     if \<not> b then demangle_clean False None
     else bind get_output (\<lambda>rtn. demangle_clean False rtn))"

definition cxa_demangle_gnu3 :: "rcall \<Rightarrow> string option \<Rightarrow> string option D" where
  "cxa_demangle_gnu3 rc org = (case org of None \<Rightarrow> ret None
     | Some org \<Rightarrow>
       if length org < 2 \<or> (org ! 0 \<noteq> CHR ''_'' \<or> org ! 1 \<noteq> CHR ''Z'') then
         bind (cpp_demangle_data_init org 0) (\<lambda>b. if \<not> b then ret None else demangle_type rc)
       else if length org > 11 \<and> strncmp_eq org ''_GLOBAL__I_'' 11 then
         bind (malloc (length org + 19)) (\<lambda>p. case p of None \<Rightarrow> ret None
           | Some _ \<Rightarrow> ret (Some (''global constructors keyed to '' @ drop 11 org)))
       else
         bind (cpp_demangle_data_init org 2) (\<lambda>b. if \<not> b then ret None else demangle_encoding rc))"

text \<open>
  A whole call: fuel, the allocator and the platform, and the argument. The result is the fault
  the call meets, a null pointer, or the demangled name. The fields that
  \<open>cpp_demangle_data_init\<close> sets start with arbitrary values.
\<close>

definition initial_dd :: "heap \<Rightarrow> dd" where
  "initial_dd h = heap.extend h (dd.fields
     \<lparr>vs_capacity = 0, vs_container = []\<rparr> \<lparr>vs_capacity = 0, vs_container = []\<rparr>
     \<lparr>vs_capacity = 0, vs_container = []\<rparr> \<lparr>vs_capacity = 0, vs_container = []\<rparr>
     [] V_output \<lparr>vr_capacity = 0, r_container = []\<rparr>
     False False False False False False False False TYPE_PTR PUSH_ALL_QUALIFIER 0 '''' 0 None)"

definition demangle :: "nat \<Rightarrow> heap \<Rightarrow> string option \<Rightarrow> fault + string option" where
  "demangle n h org = (case cxa_demangle_gnu3 (run n) org (initial_dd h) of
     Ok r s \<Rightarrow> Inr r | Fault e \<Rightarrow> Inl e)"

text \<open>A recursion bound that is enough for a mangled name; see \<open>Demangle_Safe\<close>.\<close>

definition enough_fuel :: "string \<Rightarrow> nat" where
  "enough_fuel org = 4 * length org + 7"

end
