(* ===== verification/Demangle_Safe.thy ===== *)
theory Demangle_Safe
  imports Demangle_Main
begin

text \<open>
  Safety and termination of the demangler. \<open>wf_dd\<close> is the well-formedness of the state: no
  vector holds more elements than its capacity. \<open>safe p b R m\<close> says that \<open>m\<close>, started
  in a well-formed state with at most \<open>b / 4\<close> bytes of the mangled name left (the
  terminating NUL counts as one), never runs out of fuel and never writes past the end of a
  vector, keeps the state well-formed, leaves the mangled name alone, never moves the cursor
  back and returns a value that satisfies \<open>R\<close>. With \<open>p\<close> the cursor has been read
  since the bound was set, so that moving it by at least one byte lowers the bound by four.

  Each reader is safe when the calls it makes through \<open>rc\<close> are; the locale
  \<open>safe_callees\<close> states that assumption, with a rank for every call that bounds the calls
  made before the cursor moves. The program itself satisfies it with fuel as the bound.
\<close>

section \<open>Definitions\<close>

definition wf_dd :: "dd \<Rightarrow> bool" where
  "wf_dd s \<longleftrightarrow> vs_fit (output_v s) \<and> vs_fit (subst s) \<and> vs_fit (tmpl s) \<and> vs_fit (class_type s)
     \<and> (\<forall>v \<in> set (frames s). vs_fit v) \<and> vr_fit (cmd s)"

definition acceptable :: "fault \<Rightarrow> bool" where
  "acceptable e \<longleftrightarrow> e \<noteq> Out_Of_Fuel \<and> e \<noteq> Buffer_Overflow"

definition left :: "dd \<Rightarrow> int" where
  "left s = 4 * int (length (buf s) + 1 - cur s)"

definition pre :: "bool \<Rightarrow> int \<Rightarrow> dd \<Rightarrow> bool" where
  "pre p b s \<longleftrightarrow> wf_dd s \<and> left s \<le> b \<and> (p \<longrightarrow> cur s \<le> length (buf s) \<or> left s \<le> b - 4)"

definition post :: "dd \<Rightarrow> dd \<Rightarrow> bool" where
  "post s t \<longleftrightarrow> wf_dd t \<and> buf t = buf s \<and> cur s \<le> cur t"

definition safe :: "bool \<Rightarrow> int \<Rightarrow> ('a \<Rightarrow> bool) \<Rightarrow> 'a D \<Rightarrow> bool" where
  "safe p b R m \<longleftrightarrow> (\<forall>s. pre p b s \<longrightarrow> wp m acceptable (\<lambda>x t. post s t \<and> R x) s)"

text \<open>How many calls a call can make before the cursor moves.\<close>

fun rank :: "call \<Rightarrow> int" where
  "rank (C_type td) = 3"
| "rank (C_again td l p v) = 2"
| "rank C_encoding = 2"
| "rank C_expression = 1"
| "rank C_name = 1"

fun call_fit :: "call \<Rightarrow> bool" where
  "call_fit (C_again td l p v) = vq_fit v"
| "call_fit c = True"

section \<open>Rules of the combinators\<close>

lemma postI: "wf_dd t \<Longrightarrow> buf t = buf s \<Longrightarrow> cur s \<le> cur t \<Longrightarrow> post s t"
  by (simp add: post_def)

lemma post_refl: "wf_dd s \<Longrightarrow> post s s"
  by (simp add: post_def)

lemma post_trans: "post s t \<Longrightarrow> post t u \<Longrightarrow> post s u"
  by (simp add: post_def)

lemma left_mono: "post s t \<Longrightarrow> left t \<le> left s"
  by (simp add: post_def left_def diff_le_mono2)

lemma left_strict: "cur s \<le> length (buf s) \<Longrightarrow> buf t = buf s \<Longrightarrow> cur s < cur t \<Longrightarrow> left t \<le> left s - 4"
  by (simp add: left_def)

lemma pre_post: "pre p b s \<Longrightarrow> post s t \<Longrightarrow> pre p b t"
  using left_mono [of s t] left_strict [of s t]
  by (cases "cur t = cur s") (auto simp: pre_def post_def)

lemma pre_wf: "pre p b s \<Longrightarrow> wf_dd s"
  by (simp add: pre_def)

named_theorems safe_rules "safety of the combinators and of the operations"
named_theorems safe_fit "safety of the operations that return a vector"

lemma safeI: "(\<And>s. pre p b s \<Longrightarrow> wp m acceptable (\<lambda>x t. post s t \<and> R x) s) \<Longrightarrow> safe p b R m"
  by (simp add: safe_def)

lemma safeD: "safe p b R m \<Longrightarrow> pre p b s \<Longrightarrow> wp m acceptable (\<lambda>x t. post s t \<and> R x) s"
  by (simp add: safe_def)

lemma safe_conseq: "safe p b R m \<Longrightarrow> (\<And>x. R x \<Longrightarrow> R' x) \<Longrightarrow> safe p b R' m"
  by (auto simp: safe_def elim!: wp_mono)

lemma safe_weaken: "safe False b R m \<Longrightarrow> safe p b R m"
  by (auto simp: safe_def pre_def)

lemma safe_less: "safe p b' R m \<Longrightarrow> b \<le> b' \<Longrightarrow> safe p b R m"
  by (auto simp: safe_def pre_def)

lemma safe_bind [safe_rules]:
  assumes "safe p b R m" and "\<And>x. R x \<Longrightarrow> safe p b Q (k x)"
  shows "safe p b Q (bind m k)"
proof (rule safeI)
  fix s assume s: "pre p b s"
  show "wp (bind m k) acceptable (\<lambda>x t. post s t \<and> Q x) s"
    unfolding wp_bind
  proof (rule wp_mono [OF safeD [OF assms(1) s]])
    fix x t assume t: "post s t \<and> R x"
    then have "safe p b Q (k x)" and "pre p b t" using assms(2) s pre_post by auto
    from safeD [OF this] show "wp (k x) acceptable (\<lambda>x t. post s t \<and> Q x) t"
      by (rule wp_mono) (use t post_trans in blast)
  qed
qed

lemma safe_ret [safe_rules]: "R x \<Longrightarrow> safe p b R (ret x)"
  by (auto simp: safe_def wp_rules pre_def post_refl)

lemma safe_crash [safe_rules]: "acceptable e \<Longrightarrow> safe p b R (crash e)"
  by (simp add: safe_def wp_rules)

lemma safe_check [safe_rules]:
  assumes "safe p b (\<lambda>_. True) m" and "safe p b R k" and "R False"
  shows "safe p b R (check m k)"
  unfolding check_def by (rule safe_bind [OF assms(1)]) (auto intro: assms(2,3) safe_ret)

lemma safe_check_some_fit:
  assumes "safe p b (\<lambda>x. \<forall>y. x = Some y \<longrightarrow> Q y) m" and "\<And>x. Q x \<Longrightarrow> safe p b R (k x)" and "R False"
  shows "safe p b R (check_some m k)"
  unfolding check_some_def
  by (rule safe_bind [OF assms(1)]) (auto intro: assms(2,3) safe_ret split: option.split)

lemma safe_check_some [safe_rules]:
  assumes "safe p b (\<lambda>_. True) m" and "\<And>x. safe p b R (k x)" and "R False"
  shows "safe p b R (check_some m k)"
  unfolding check_some_def
  by (rule safe_bind [OF assms(1)]) (auto intro: assms(2,3) safe_ret split: option.split)

lemma safe_checkx [safe_rules]:
  assumes "safe p b (\<lambda>_. True) m" and "safe p b R k" and "R (False, x)"
  shows "safe p b R (checkx x m k)"
  unfolding checkx_def by (rule safe_bind [OF assms(1)]) (auto intro: assms(2,3) safe_ret)

lemma safe_gets [safe_rules]:
  assumes "\<And>s. wf_dd s \<Longrightarrow> safe p b R (k (f s))"
  shows "safe p b R (gets f k)"
  using assms by (auto simp: safe_def wp_rules dest: pre_wf)

lemma safe_upd:
  assumes "\<And>s. wf_dd s \<Longrightarrow> wf_dd (f s)" and "\<And>s. buf (f s) = buf s" and "\<And>s. cur (f s) = cur s"
    and k: "safe p b R k"
  shows "safe p b R (upd f k)"
proof (rule safeI)
  fix s assume s: "pre p b s"
  then have "post s (f s)" using assms(1-3) by (simp add: post_def pre_def)
  moreover from this have "pre p b (f s)" by (rule pre_post [OF s])
  ultimately show "wp (upd f k) acceptable (\<lambda>x t. post s t \<and> R x) s"
    unfolding wp_upd by (auto intro: wp_mono [OF safeD [OF k]] post_trans)
qed

lemma safe_assert [safe_rules]: "safe p b R k \<Longrightarrow> safe p b R (c_assert a k)"
  by (auto simp: c_assert_def acceptable_def intro: safe_crash)

lemma safe_if [safe_rules]:
  "(a \<Longrightarrow> safe p b R m) \<Longrightarrow> (\<not> a \<Longrightarrow> safe p b R m') \<Longrightarrow> safe p b R (if a then m else m')"
  by simp

lemma safe_if_app [safe_rules]:
  "(a \<Longrightarrow> safe p b R (F k)) \<Longrightarrow> (\<not> a \<Longrightarrow> safe p b R (G k)) \<Longrightarrow> safe p b R ((if a then F else G) k)"
  by simp

lemma safe_Let [safe_rules]: "(\<And>x. x = a \<Longrightarrow> safe p b R (f x)) \<Longrightarrow> safe p b R (let x = a in f x)"
  by simp

lemma safe_case_option [safe_rules]:
  "(x = None \<Longrightarrow> safe p b R m) \<Longrightarrow> (\<And>y. x = Some y \<Longrightarrow> safe p b R (k y))
   \<Longrightarrow> safe p b R (case x of None \<Rightarrow> m | Some y \<Rightarrow> k y)"
  by (simp split: option.split)

lemma safe_case_expr_op [safe_rules]:
  "(\<And>y. safe p b R (f y)) \<Longrightarrow> (\<And>y. safe p b R (g y))
   \<Longrightarrow> safe p b R (case x of Binary y \<Rightarrow> f y | Unary y \<Rightarrow> g y)"
  by (simp split: expr_op.split)

lemma safe_case_prod [safe_rules]:
  "(\<And>y z. x = (y, z) \<Longrightarrow> safe p b R (k y z)) \<Longrightarrow> safe p b R (case x of (y, z) \<Rightarrow> k y z)"
  by (simp split: prod.split)

lemma safe_strlen [safe_rules]: "(\<And>n. safe p b R (k n)) \<Longrightarrow> safe p b R (c_strlen txt k)"
  by (auto simp: c_strlen_def acceptable_def intro: safe_crash split: cbuf.split)

lemma safe_limited:
  assumes "\<And>x. I x \<Longrightarrow> safe p b (\<lambda>c. case c of Next x' \<Rightarrow> I x' | Stop y \<Rightarrow> R y) (body x)"
    and "I x" and "R z"
  shows "safe p b R (limited k z body x)"
  using assms(2)
proof (induction k arbitrary: x)
  case 0
  show ?case
    by (simp, rule safe_bind, rule assms(1) [OF 0]) (auto intro: safe_ret assms(3) split: ctl.splits)
next
  case (Suc k)
  show ?case
    by (simp, rule safe_bind, rule assms(1) [OF Suc.prems]) (auto intro: safe_ret Suc.IH split: ctl.splits)
qed

section \<open>The cursor\<close>

lemma safe_peek [safe_rules]:
  assumes "\<And>c. safe True b R (k c)"
  shows "safe p b R (peek i k)"
proof (rule safeI)
  fix s assume s: "pre p b s"
  show "wp (peek i k) acceptable (\<lambda>x t. post s t \<and> R x) s"
  proof (cases "cur s + i \<le> length (buf s)")
    case True
    with s have "pre True b s" by (simp add: pre_def)
    with True show ?thesis
      using safeD [OF assms] by (auto simp: wp_def peek_def)
  qed (simp add: wp_def peek_def acceptable_def)
qed

lemma safe_advance_any:
  assumes k: "safe False b R k"
  shows "safe p b R (advance n k)"
proof (rule safeI)
  fix s assume s: "pre p b s"
  then have "pre False b (s\<lparr>cur := cur s + n\<rparr>)"
    using left_mono [of s "s\<lparr>cur := cur s + n\<rparr>"] by (auto simp: pre_def post_def wf_dd_def)
  from safeD [OF k this] show "wp (advance n k) acceptable (\<lambda>x t. post s t \<and> R x) s"
    unfolding advance_def wp_upd by (rule wp_mono) (simp add: post_def)
qed

lemma safe_advance:
  assumes "0 < n" and k: "safe False (b - 4) R k"
  shows "safe True b R (advance n k)"
proof (rule safeI)
  fix s assume s: "pre True b s"
  with \<open>0 < n\<close> have "pre False (b - 4) (s\<lparr>cur := cur s + n\<rparr>)"
    using left_strict [of s "s\<lparr>cur := cur s + n\<rparr>"] left_mono [of s "s\<lparr>cur := cur s + n\<rparr>"]
    by (auto simp: pre_def post_def wf_dd_def)
  from safeD [OF k this] show "wp (advance n k) acceptable (\<lambda>x t. post s t \<and> R x) s"
    unfolding advance_def wp_upd by (rule wp_mono) (simp add: post_def)
qed

lemma safe_str_at [safe_rules]: "(\<And>str. safe p b R (k str)) \<Longrightarrow> safe p b R (str_at i k)"
  unfolding safe_def wp_def str_at_def by (auto simp: acceptable_def)

lemma safe_skip_until [safe_rules]: "safe False b R k \<Longrightarrow> safe p b R (skip_until c k)"
  unfolding skip_until_def
  by (intro safe_rules safe_advance_any) (auto simp: acceptable_def)

lemma safe_skip_digits [safe_rules]: "safe False b R k \<Longrightarrow> safe p b R (skip_digits k)"
  unfolding skip_digits_def by (intro safe_rules safe_advance_any)

lemma safe_memcmp_cur [safe_rules]: "(\<And>x. safe p b R (k x)) \<Longrightarrow> safe p b R (memcmp_cur str k)"
  unfolding safe_def wp_def memcmp_cur_def by (auto simp: acceptable_def)

section \<open>Vectors\<close>

lemma wf_dd_heap [simp]:
  "wf_dd (s\<lparr>brk := x\<rparr>) = wf_dd s" "wf_dd (s\<lparr>freed := y\<rparr>) = wf_dd s" "wf_dd (s\<lparr>cur := i\<rparr>) = wf_dd s"
  by (simp_all add: wf_dd_def)

lemma wf_dd_fields:
  assumes "wf_dd s"
  shows "vs_fit (output_v s)" "vs_fit (subst s)" "vs_fit (tmpl s)" "vs_fit (class_type s)"
    "vr_fit (cmd s)"
  using assms by (auto simp: wf_dd_def)

lemma safe_malloc [safe_rules]: "safe p b (\<lambda>_. True) (malloc n)"
  by (auto simp: safe_def wp_rules post_def pre_def)

lemma safe_vector_str_init: "safe p b (\<lambda>x. \<forall>v. x = Some v \<longrightarrow> vs_fit v) vector_str_init"
  unfolding vector_str_init_def
  by (rule safe_rules | simp add: VECTOR_DEF_CAPACITY_def; fail)+

lemmas safe_init [safe_fit] = safe_check_some_fit [OF safe_vector_str_init]

lemma safe_vector_str_grow:
  assumes "vs_fit v"
  shows "safe p b (\<lambda>x. vs_fit (snd x) \<and> vs_container (snd x) = vs_container v
     \<and> (fst x \<longrightarrow> vs_size v < vs_capacity (snd x))) (vector_str_grow v)"
  unfolding vector_str_grow_def Let_def c_assert_def
  by (rule safe_rules | use assms in \<open>simp add: acceptable_def vs_fit_def vs_size_def; fail\<close>)+

lemma safe_copy_string [safe_rules]: "(\<And>t. safe p b R (k t)) \<Longrightarrow> safe p b R (copy_string src d k)"
  by (auto simp: copy_string_def acceptable_def intro: safe_crash split: cbuf.split)

lemma safe_vector_str_push [safe_fit]:
  assumes "vs_fit v"
  shows "safe p b (\<lambda>x. vs_fit (snd x)) (vector_str_push v str len)"
  unfolding vector_str_push_def
proof (rule safe_bind [where R = "\<lambda>x. vs_fit (snd x) \<and> (fst x \<longrightarrow> vs_size (snd x) < vs_capacity (snd x))"])
  show "safe p b (\<lambda>x. vs_fit (snd x) \<and> (fst x \<longrightarrow> vs_size (snd x) < vs_capacity (snd x)))
     (if vs_size v = vs_capacity v then vector_str_grow v else ret (True, v))"
    using assms
    by (auto intro!: safe_ret safe_conseq [OF safe_vector_str_grow] simp: vs_fit_def vs_size_def)
qed (rule safe_rules | simp add: vs_fit_def vs_size_def; fail)+

lemma safe_VEC_PUSH_STR [safe_fit]: "vs_fit v \<Longrightarrow> safe p b (\<lambda>x. vs_fit (snd x)) (VEC_PUSH_STR v str)"
  unfolding VEC_PUSH_STR_def by (rule safe_rules safe_fit | assumption)+

lemma safe_strdup_all: "safe p b (\<lambda>x. \<forall>ys. x = Some ys \<longrightarrow> length ys = length xs) (strdup_all xs)"
proof (induction xs)
  case (Cons x xs)
  show ?case
    unfolding strdup_all.simps by (rule safe_rules Cons.IH | simp; fail)+
qed (simp add: safe_ret)

lemma safe_push_vector_head [safe_fit]:
  assumes "vs_fit dst"
  shows "safe p b (\<lambda>x. vs_fit (snd x)) (vector_str_push_vector_head dst org)"
  unfolding vector_str_push_vector_head_def
  by (rule safe_rules safe_strdup_all
    | use assms BUFFER_GROW_ge [of "vs_size dst + vs_size org"] in \<open>simp add: vs_size_def add.commute; fail\<close>)+

lemma safe_push_vector [safe_fit]:
  assumes "vs_fit dst"
  shows "safe p b (\<lambda>x. vs_fit (snd x)) (vector_str_push_vector dst org)"
  unfolding vector_str_push_vector_def
  by (rule safe_rules safe_strdup_all safe_upd
    | use assms BUFFER_GROW_ge [of "vs_size dst + vs_size org"] in \<open>simp add: vs_size_def; fail\<close>)+

lemma safe_find [safe_rules]: "safe p b (\<lambda>_. True) (vector_str_find v str l)"
  by (auto simp: vector_str_find_def acceptable_def intro!: safe_ret safe_crash split: option.split cbuf.split)

lemma safe_get_flat [safe_rules]: "safe p b (\<lambda>_. True) (vector_str_get_flat v)"
  unfolding vector_str_get_flat_def get_strlen_sum_def by (rule safe_rules | simp; fail)+

lemma safe_substr_from [safe_rules]: "safe p b (\<lambda>_. True) (substr_from v i)"
  unfolding substr_from_def vector_str_substr_def
  by (rule safe_rules | simp add: acceptable_def; fail)+

lemma safe_vector_str_dest [safe_rules]: "safe p b (\<lambda>_. True) (vector_str_dest v)"
  by (auto simp: safe_def wp_def vector_str_dest_def acceptable_def post_def pre_def)

lemma safe_vq_init: "safe p b (\<lambda>x. \<forall>v. x = Some v \<longrightarrow> vq_fit v) vector_type_qualifier_init"
  unfolding vector_type_qualifier_init_def
  by (rule safe_rules safe_vector_str_init
    | simp add: vq_fit_def vq_size_def VECTOR_DEF_CAPACITY_def; fail)+

lemma safe_vq_push [safe_fit]:
  assumes "vq_fit v"
  shows "safe p b (\<lambda>x. vq_fit (snd x)) (vector_type_qualifier_push v q)"
  unfolding vector_type_qualifier_push_def
  by (rule safe_bind [where R = "\<lambda>x. vq_fit (snd x) \<and> (fst x \<longrightarrow> vq_size (snd x) < vq_capacity (snd x))"]
    ; (rule safe_rules
      | use assms BUFFER_GROW_gt [of "vq_capacity v"] in \<open>simp add: vq_fit_def vq_size_def; fail\<close>)+)

lemma safe_vq_dest [safe_rules]: "safe p b (\<lambda>_. True) (vector_type_qualifier_dest v)"
  unfolding vector_type_qualifier_dest_def by (rule safe_vector_str_dest)

lemma safe_vr_dest [safe_rules]: "safe p b (\<lambda>_. True) (vector_read_cmd_dest v)"
  unfolding vector_read_cmd_dest_def by (simp add: safe_ret)

lemma safe_vr_init: "safe p b (\<lambda>x. \<forall>v. x = Some v \<longrightarrow> vr_fit v) vector_read_cmd_init"
  unfolding vector_read_cmd_init_def
  by (rule safe_rules | simp add: vr_fit_def vr_size_def VECTOR_DEF_CAPACITY_def; fail)+

lemma safe_vr_push [safe_fit]:
  assumes "vr_fit v"
  shows "safe p b (\<lambda>x. vr_fit (snd x)) (vector_read_cmd_push v it)"
  unfolding vector_read_cmd_push_def
  by (rule safe_bind [where R = "\<lambda>x. vr_fit (snd x) \<and> (fst x \<longrightarrow> vr_size (snd x) < vr_capacity (snd x))"]
    ; (rule safe_rules
      | use assms BUFFER_GROW_gt [of "vr_capacity v"] in \<open>simp add: vr_fit_def vr_size_def; fail\<close>)+)

lemma vr_fit_pop [simp]: "vr_fit v \<Longrightarrow> vr_fit (snd (vector_read_cmd_pop v))"
  by (auto simp: vector_read_cmd_pop_def vr_fit_def vr_size_def)

lemma vs_fit_pop [simp]: "vs_fit v \<Longrightarrow> vs_fit (vector_str_pop v)"
  by (auto simp: vector_str_pop_def vs_fit_def vs_size_def)

lemma vs_fit_pop_times [simp]: "vs_fit v \<Longrightarrow> vs_fit (pop_times n v)"
  by (induction n arbitrary: v) auto

section \<open>Operations on the state\<close>

lemma wf_vget: "wf_dd s \<Longrightarrow> vget l s = Some v \<Longrightarrow> vs_fit v"
  by (auto simp: vget_def wf_dd_def split: vloc.splits if_splits)

lemma wf_vput [simp]: "wf_dd s \<Longrightarrow> vs_fit v \<Longrightarrow> wf_dd (vput l v s)"
  by (auto simp: vput_def wf_dd_def dest!: set_update_subset_insert [THEN subsetD] split: vloc.splits)

lemma vput_simps [simp]: "buf (vput l v s) = buf s" "cur (vput l v s) = cur s"
  by (simp_all add: vput_def split: vloc.split)

lemma safe_with_vec [safe_rules]:
  assumes "\<And>v. vs_fit v \<Longrightarrow> safe p b R (k v)"
  shows "safe p b R (with_vec l k)"
  using assms unfolding safe_def wp_def with_vec_def
  by (auto simp: acceptable_def pre_def dest: wf_vget split: option.splits)

lemma safe_on_vec [safe_rules]:
  assumes "\<And>v. vs_fit v \<Longrightarrow> safe p b (\<lambda>x. vs_fit (snd x)) (op v)"
  shows "safe p b (\<lambda>_. True) (on_vec l op)"
  unfolding on_vec_def by (rule safe_rules assms safe_upd | simp; fail)+

lemma safe_on_subst [safe_rules]:
  assumes "\<And>v. vs_fit v \<Longrightarrow> safe p b (\<lambda>x. vs_fit (snd x)) (op v)"
  shows "safe p b (\<lambda>_. True) (on_subst op)"
  unfolding on_subst_def by (rule safe_rules assms safe_upd | simp add: wf_dd_def; fail)+

lemma safe_on_tmpl [safe_rules]:
  assumes "\<And>v. vs_fit v \<Longrightarrow> safe p b (\<lambda>x. vs_fit (snd x)) (op v)"
  shows "safe p b (\<lambda>_. True) (on_tmpl op)"
  unfolding on_tmpl_def by (rule safe_rules assms safe_upd | simp add: wf_dd_def; fail)+

lemma safe_on_class_type [safe_rules]:
  assumes "\<And>v. vs_fit v \<Longrightarrow> safe p b (\<lambda>x. vs_fit (snd x)) (op v)"
  shows "safe p b (\<lambda>_. True) (on_class_type op)"
  unfolding on_class_type_def by (rule safe_rules assms safe_upd | simp add: wf_dd_def; fail)+

lemma safe_on_cmd [safe_rules]:
  assumes "\<And>v. vr_fit v \<Longrightarrow> safe p b (\<lambda>x. vr_fit (snd x)) (op v)"
  shows "safe p b (\<lambda>_. True) (on_cmd op)"
  unfolding on_cmd_def by (rule safe_rules assms safe_upd | simp add: wf_dd_def; fail)+

lemma safe_frame_push [safe_rules]: "vs_fit v \<Longrightarrow> safe p b R k \<Longrightarrow> safe p b R (frame_push v k)"
  unfolding frame_push_def by (rule safe_upd) (auto simp: wf_dd_def)

lemma safe_frame_pop [safe_rules]: "safe p b R k \<Longrightarrow> safe p b R (frame_pop k)"
  unfolding frame_pop_def
  by (rule safe_rules safe_upd | auto simp: wf_dd_def dest: in_set_butlastD; fail)+

lemma safe_deref_sname [safe_rules]: "(\<And>t. safe p b R (k t)) \<Longrightarrow> safe p b R (deref_sname x k)"
  unfolding safe_def wp_def deref_sname_def
  by (auto simp: acceptable_def split: sname.splits option.splits)

lemma safe_push_str [safe_rules]: "safe p b (\<lambda>_. True) (cpp_demangle_push_str str len)"
  unfolding cpp_demangle_push_str_def
  by (rule safe_rules safe_fit safe_upd | assumption | simp add: wf_dd_def; fail)+

lemma safe_DEM_PUSH_STR [safe_rules]: "safe p b (\<lambda>_. True) (DEM_PUSH_STR str)"
  unfolding DEM_PUSH_STR_def by (rule safe_push_str)

lemma safe_DEM_PUSH_BUF [safe_rules]: "safe p b (\<lambda>_. True) (DEM_PUSH_BUF str)"
  unfolding DEM_PUSH_BUF_def by (rule safe_rules)+

lemma safe_pop_str [safe_rules]: "safe p b (\<lambda>_. True) cpp_demangle_pop_str"
  unfolding cpp_demangle_pop_str_def by (rule safe_rules | simp; fail)+

lemma safe_push_subst [safe_rules]: "safe p b (\<lambda>_. True) (cpp_demangle_push_subst str len)"
  unfolding cpp_demangle_push_subst_def by (rule safe_rules safe_fit | assumption | simp; fail)+

lemma safe_push_subst_v [safe_rules]: "safe p b (\<lambda>_. True) (cpp_demangle_push_subst_v v)"
  unfolding cpp_demangle_push_subst_v_def by (rule safe_rules | simp; fail)+

text \<open>A decoder only allocates.\<close>

lemma safe_sprintf_loop: "safe p b (\<lambda>_. True) (sprintf_loop tries len txt)"
proof (induction tries arbitrary: len)
  case 0
  show ?case unfolding sprintf_loop.simps by (rule safe_rules | simp; fail)+
next
  case (Suc tries)
  show ?case unfolding sprintf_loop.simps by (rule safe_rules Suc.IH | simp; fail)+
qed

lemma safe_decoders [safe_rules]:
  "safe p b (\<lambda>_. True) (decode_fp_to_double str len)"
  "safe p b (\<lambda>_. True) (decode_fp_to_float str len)"
  "safe p b (\<lambda>_. True) (decode_fp_to_long_double str len)"
  "safe p b (\<lambda>_. True) (decode_fp_to_float128 str len)"
  "safe p b (\<lambda>_. True) (decode_fp_to_float80 str len)"
  unfolding decode_fp_to_double_def decode_fp_to_float_def decode_fp_to_long_double_def
    decode_fp_to_float128_def decode_fp_to_float80_def sprintf_Lfd_def
  by (rule safe_rules safe_sprintf_loop | simp; fail)+

lemma safe_push_fp [safe_rules]:
  assumes "\<And>p b str len. safe p b (\<lambda>_. True) (decoder str len)"
  shows "safe p b (\<lambda>_. True) (cpp_demangle_push_fp decoder)"
  unfolding cpp_demangle_push_fp_def
  by (rule safe_rules safe_advance_any assms | simp; fail)+

text \<open>Type qualifiers.\<close>

lemma safe_push_qual_str:
  assumes "\<And>w. pred_option vs_fit w \<Longrightarrow> safe p b (\<lambda>_. True) (k w)" and "pred_option vs_fit w"
  shows "safe p b (\<lambda>_. True) (push_qual_str str hold w k)"
  unfolding push_qual_str_def
  by (rule safe_rules safe_fit assms(1) | use assms(2) in \<open>simp; fail\<close>)+

lemma safe_push_qual_noncv:
  assumes "\<And>w. pred_option vs_fit w \<Longrightarrow> safe p b (\<lambda>_. True) (k w)" and "pred_option vs_fit w"
  shows "safe p b (\<lambda>_. True) (push_qual_noncv str w k)"
  unfolding push_qual_noncv_def
  by (rule safe_rules safe_push_qual_str assms | assumption)+

lemma safe_push_qual_cv:
  assumes "\<And>w. pred_option vs_fit w \<Longrightarrow> safe p b (\<lambda>_. True) (k w)" and "pred_option vs_fit w"
  shows "safe p b (\<lambda>_. True) (push_qual_cv str cv hold w k)"
  unfolding push_qual_cv_def
  by (rule safe_rules safe_push_qual_str assms | assumption)+

lemma safe_push_qual_ext:
  assumes "\<And>e w. pred_option vs_fit w \<Longrightarrow> safe p b (\<lambda>_. True) (k e w)" and "pred_option vs_fit w"
  shows "safe p b (\<lambda>_. True) (push_qual_ext o_s c_s ext e w k)"
  unfolding push_qual_ext_def
  by (rule safe_rules safe_push_qual_str assms | assumption | simp; fail)+

lemma safe_push_quals:
  "pred_option vs_fit w \<Longrightarrow> safe p b (\<lambda>_. True) (push_quals ext ts cv e w)"
proof (induction ts arbitrary: cv e w)
  case Nil
  show ?case by (simp add: safe_ret)
next
  case (Cons t ts)
  show ?case
    by (cases t; simp only: push_quals.simps Let_def type_qualifier.case;
        rule safe_push_qual_noncv safe_push_qual_cv safe_push_qual_ext; (rule Cons)?; assumption)
qed

lemma safe_push_type_qualifier [safe_rules]:
  "safe p b (\<lambda>_. True) (cpp_demangle_push_type_qualifier v type_str)"
  unfolding cpp_demangle_push_type_qualifier_def
  by (rule safe_fit safe_rules safe_push_quals | assumption | simp; fail)+

text \<open>Substitutions, template parameters, numbers, names and offsets.\<close>

lemma safe_get_subst [safe_rules]: "safe p b (\<lambda>_. True) (cpp_demangle_get_subst i)"
  unfolding cpp_demangle_get_subst_def by (rule safe_rules safe_advance_any | simp; fail)+

lemma safe_get_tmpl_param [safe_rules]: "safe p b (\<lambda>_. True) (cpp_demangle_get_tmpl_param i)"
  unfolding cpp_demangle_get_tmpl_param_def by (rule safe_rules safe_advance_any | simp; fail)+

lemma safe_read_seq_id [safe_rules]:
  "(\<And>i. safe False b (\<lambda>_. True) (k i)) \<Longrightarrow> safe p b (\<lambda>_. True) (read_seq_id k)"
  unfolding read_seq_id_def by (rule safe_rules | assumption | simp add: acceptable_def; fail)+

lemma safe_read_tmpl_param [safe_rules]: "safe p b (\<lambda>_. True) cpp_demangle_read_tmpl_param"
  unfolding cpp_demangle_read_tmpl_param_def by (rule safe_rules safe_advance_any | simp; fail)+

lemma safe_read_number [safe_rules]: "safe p b (\<lambda>_. True) cpp_demangle_read_number"
  unfolding cpp_demangle_read_number_def by (rule safe_rules safe_advance_any | simp; fail)+

lemma safe_read_number_as_string [safe_rules]: "safe p b (\<lambda>_. True) cpp_demangle_read_number_as_string"
  unfolding cpp_demangle_read_number_as_string_def by (rule safe_rules | simp; fail)+

lemma safe_set_last_sname [safe_rules]:
  "safe p b R k \<Longrightarrow> safe p b R (upd (\<lambda>s. s\<lparr>last_sname := x\<rparr>) k)"
  by (rule safe_upd) (simp_all add: wf_dd_def)

lemma safe_read_sname [safe_rules]: "safe p b (\<lambda>_. True) cpp_demangle_read_sname"
  unfolding cpp_demangle_read_sname_def
  by (rule safe_rules safe_advance_any | simp; fail)+

lemma safe_read_offset_number [safe_rules]: "safe p b (\<lambda>_. True) cpp_demangle_read_offset_number"
  unfolding cpp_demangle_read_offset_number_def by (rule safe_rules safe_advance_any | simp; fail)+

lemma safe_read_nv_offset [safe_rules]: "safe p b (\<lambda>_. True) cpp_demangle_read_nv_offset"
  unfolding cpp_demangle_read_nv_offset_def by (rule safe_rules | simp; fail)+

lemma safe_read_v_offset [safe_rules]: "safe p b (\<lambda>_. True) cpp_demangle_read_v_offset"
  unfolding cpp_demangle_read_v_offset_def by (rule safe_rules | simp; fail)+

lemma safe_read_offset [safe_rules]: "safe p b (\<lambda>_. True) cpp_demangle_read_offset"
  unfolding cpp_demangle_read_offset_def by (rule safe_rules safe_advance_any | simp; fail)+

lemma safe_skip_discriminator [safe_rules]: "safe p b (\<lambda>_. True) skip_discriminator"
  unfolding skip_discriminator_def by (rule safe_rules safe_advance_any | simp; fail)+

lemma safe_local_source_name [safe_rules]: "safe p b (\<lambda>_. True) cpp_demangle_local_source_name"
  unfolding cpp_demangle_local_source_name_def by (rule safe_rules safe_advance_any | simp; fail)+

lemma safe_read_integer_literal [safe_rules]: "safe p b (\<lambda>_. True) read_integer_literal"
  unfolding read_integer_literal_def by (rule safe_rules safe_advance_any | simp; fail)+

lemma safe_ctor_dtor_name [safe_rules]: "safe p b (\<lambda>_. True) (ctor_dtor_name str)"
  unfolding ctor_dtor_name_def by (rule safe_rules safe_advance_any | simp; fail)+

section \<open>The readers\<close>

lemma safe_assignments [safe_rules]:
  "safe p b R k \<Longrightarrow> safe p b R (upd (\<lambda>s. s\<lparr>is_tmpl := x\<rparr>) k)"
  "safe p b R k \<Longrightarrow> safe p b R (upd (\<lambda>s. s\<lparr>is_functype := x\<rparr>) k)"
  "safe p b R k \<Longrightarrow> safe p b R (upd (\<lambda>s. s\<lparr>push_qualifier := q\<rparr>) k)"
  "safe p b R k \<Longrightarrow> safe p b R (upd (\<lambda>s. s\<lparr>cur_output := l\<rparr>) k)"
  "safe p b R k \<Longrightarrow> safe p b R (upd (\<lambda>s. s\<lparr>ref_qualifier := x\<rparr>) k)"
  "safe p b R k \<Longrightarrow> safe p b R (upd (\<lambda>s. s\<lparr>ref_qualifier := x, ref_qualifier_type := t\<rparr>) k)"
  "safe p b R k \<Longrightarrow> safe p b R (upd (\<lambda>s. s\<lparr>func_type := func_type s + i\<rparr>) k)"
  "safe p b R k \<Longrightarrow> safe p b R (upd (\<lambda>s. s\<lparr>class_type := vector_str_pop (class_type s)\<rparr>) k)"
  by (auto intro!: safe_upd simp: wf_dd_def)

lemma safe_read_flat [safe_rules]:
  assumes "safe p b (\<lambda>_. True) m"
  shows "safe p b (\<lambda>_. True) (read_flat l m)"
  unfolding read_flat_def by (rule safe_rules assms safe_upd | simp; fail)+

lemma safe_loop [safe_rules]:
  assumes "\<And>x. safe p b (\<lambda>_. True) (body x)"
  shows "safe p b (\<lambda>_. True) (limited k z body x)"
  by (rule safe_limited [where I = "\<lambda>_. True"]) (auto intro: safe_conseq [OF assms] split: ctl.split)

lemma safe_set_abbrev [safe_rules]:
  "safe p b R k
   \<Longrightarrow> safe p b R (upd (\<lambda>s. case ls of None \<Rightarrow> s | Some n \<Rightarrow> s\<lparr>last_sname := Some (Sname_lit n)\<rparr>) k)"
  by (rule safe_upd) (simp_all add: wf_dd_def split: option.split)

lemma safe_set_members [safe_rules]:
  "safe p b R k \<Longrightarrow> safe p b R (upd (\<lambda>s. s\<lparr>mem_rst := f s, mem_vat := g s, mem_cst := h s,
     mem_ref := i s, mem_rref := j s\<rparr>) k)"
  by (rule safe_upd) (simp_all add: wf_dd_def)

lemma safe_clear_ref_qualifier [safe_rules]:
  "safe p b R k \<Longrightarrow> safe p b R (upd (\<lambda>s. if a then s\<lparr>ref_qualifier := x\<rparr> else s) k)"
  by (rule safe_upd) (simp_all add: wf_dd_def)

lemma safe_push_ref_qualifier [safe_rules]: "safe p b (\<lambda>_. True) push_ref_qualifier"
  unfolding push_ref_qualifier_def
  by (rule safe_rules | auto intro: safe_rules split: type_qualifier.split; fail)+

lemma safe_push_ptrmem_class [safe_rules]: "safe p b (\<lambda>_. True) (push_ptrmem_class item n)"
  unfolding push_ptrmem_class_def by (rule safe_rules | simp; fail)+

lemma safe_function_declarator [safe_rules]: "safe p b (\<lambda>_. True) (function_declarator v)"
  unfolding function_declarator_def by (rule safe_rules | simp; fail)+

lemma safe_type_rtn [safe_rules]: "safe p b (\<lambda>_. True) (type_rtn td l i v builtin skip)"
  unfolding type_rtn_def by (rule safe_rules safe_fit | assumption | simp; fail)+

lemma safe_type_delimiters [safe_rules]:
  assumes "\<And>td'. safe p b (\<lambda>_. True) (k td')" and "\<And>td'. safe True b (\<lambda>_. True) (k td')"
  shows "safe p b (\<lambda>_. True) (type_delimiters td k)"
  unfolding type_delimiters_def by (rule safe_rules assms | simp; fail)+

lemma safe_type_void [safe_rules]: "safe p b (\<lambda>_. True) (type_void td l i v)"
  unfolding type_void_def by (rule safe_rules safe_advance_any | simp; fail)+

lemma safe_type_end [safe_rules]: "safe p b (\<lambda>_. True) (type_end td l i v)"
  unfolding type_end_def by (rule safe_rules | simp; fail)+

lemma vq_fit_ext_name [simp]: "vq_fit v \<Longrightarrow> vs_fit w \<Longrightarrow> vq_fit (v\<lparr>ext_name := w\<rparr>)"
  by (simp add: vq_fit_def vq_size_def)

lemma vq_fit_ext [simp]: "vq_fit v \<Longrightarrow> vs_fit (ext_name v)"
  by (simp add: vq_fit_def)

lemma safe_requalify [safe_rules]:
  assumes "\<And>v'. vq_fit v' \<Longrightarrow> safe p b R (k v')"
  shows "safe p b R (requalify v k)"
  unfolding requalify_def by (rule safe_rules safe_vq_init assms | simp add: acceptable_def; fail)+

locale safe_callees =
  fixes rc :: rcall and B :: int
  assumes rc_safe: "call_fit c \<Longrightarrow> b + rank c \<le> B \<Longrightarrow> safe p b (\<lambda>_. True) (rc c)"
begin

lemma safe_call: "call_fit c \<Longrightarrow> b + rank c \<le> B \<Longrightarrow> safe p b (\<lambda>_. True) (call rc c)"
  unfolding call_def by (rule safe_rules rc_safe | assumption | simp; fail)+

lemma safe_array: "b \<le> B + 1 \<Longrightarrow> safe True b (\<lambda>_. True) (cpp_demangle_read_array rc)"
  unfolding cpp_demangle_read_array_def
  by (rule safe_advance safe_rules safe_advance_any safe_call | simp; fail)+

lemma safe_expr_primary: "b \<le> B + 1 \<Longrightarrow> safe True b (\<lambda>_. True) (cpp_demangle_read_expr_primary rc)"
  unfolding cpp_demangle_read_expr_primary_def
  by (rule safe_advance safe_rules safe_fit safe_advance_any safe_call | assumption | simp; fail)+

lemma safe_tmpl_arg: "b + 3 \<le> B \<Longrightarrow> safe p b (\<lambda>_. True) (cpp_demangle_read_tmpl_arg rc)"
  unfolding cpp_demangle_read_tmpl_arg_def
  by (rule safe_advance safe_rules safe_fit safe_advance_any safe_call safe_expr_primary | assumption | simp; fail)+

lemma safe_tmpl_args: "b \<le> B + 1 \<Longrightarrow> safe p b (\<lambda>_. True) (cpp_demangle_read_tmpl_args rc)"
  unfolding cpp_demangle_read_tmpl_args_def tmpl_args_round_def
  by (rule safe_advance safe_rules safe_fit safe_advance_any safe_call safe_tmpl_arg | assumption | simp; fail)+

lemma safe_uqname: "b \<le> B + 1 \<Longrightarrow> safe p b (\<lambda>_. True) (cpp_demangle_read_uqname rc)"
  unfolding cpp_demangle_read_uqname_def
  by (rule safe_advance safe_rules safe_fit safe_advance_any safe_call | assumption | simp; fail)+

lemma safe_push_named_subst:
  assumes "vs_fit v" and "\<And>w. vs_fit w \<Longrightarrow> safe p b (\<lambda>_. True) (k w)"
  shows "safe p b (\<lambda>_. True) (push_named_subst l i v k)"
  unfolding push_named_subst_def
  by (rule safe_rules safe_fit assms | use assms(1) in \<open>simp; fail\<close>)+

lemma safe_tmpl_suffix: "b \<le> B + 1 \<Longrightarrow> vs_fit v \<Longrightarrow> safe p b (\<lambda>_. True) (read_tmpl_suffix rc l v)"
  unfolding read_tmpl_suffix_def
  by (rule safe_advance safe_rules safe_fit safe_advance_any safe_call safe_tmpl_args safe_push_named_subst | assumption | simp; fail)+

lemma safe_subst_std: "b \<le> B + 1 \<Longrightarrow> safe p b (\<lambda>_. True) (cpp_demangle_read_subst_std rc)"
  unfolding cpp_demangle_read_subst_std_def
  by (rule safe_advance safe_rules safe_fit safe_advance_any safe_call safe_uqname safe_push_named_subst safe_tmpl_suffix | assumption | simp; fail)+

lemma safe_subst_stdtmpl: "b \<le> B + 1 \<Longrightarrow> safe p b (\<lambda>_. True) (cpp_demangle_read_subst_stdtmpl rc str)"
  unfolding cpp_demangle_read_subst_stdtmpl_def
  by (rule safe_advance safe_rules safe_fit safe_advance_any safe_call safe_tmpl_args | assumption | simp; fail)+

lemma safe_subst: "b \<le> B + 1 \<Longrightarrow> safe p b (\<lambda>_. True) (cpp_demangle_read_subst rc)"
  unfolding cpp_demangle_read_subst_def
  by (rule safe_advance safe_rules safe_fit safe_advance_any safe_call safe_subst_std safe_subst_stdtmpl | assumption | simp; fail)+

lemma safe_expression: "b \<le> B \<Longrightarrow> safe p b (\<lambda>_. True) (cpp_demangle_read_expression rc)"
  unfolding cpp_demangle_read_expression_def cpp_demangle_read_expression_binary_def
    cpp_demangle_read_expression_unary_def cpp_demangle_read_expression_trinary_def
  by (rule safe_advance safe_rules safe_fit safe_advance_any safe_call safe_uqname safe_tmpl_args safe_expr_primary | assumption | simp; fail)+

lemma safe_nested_component: "b \<le> B + 1 \<Longrightarrow> safe p b (\<lambda>_. True) (nested_component rc)"
  unfolding nested_component_def
  by (rule safe_advance safe_rules safe_fit safe_advance_any safe_call safe_tmpl_args safe_subst safe_uqname | assumption | simp; fail)+

lemma safe_nested_round:
  "b \<le> B + 1 \<Longrightarrow> vs_fit v \<Longrightarrow>
   safe p b (\<lambda>c. case c of Next w \<Rightarrow> vs_fit w | Stop y \<Rightarrow> True) (nested_round rc l v)"
  unfolding nested_round_def nested_next_def
  by (rule safe_nested_component safe_rules safe_fit | assumption | simp; fail)+

lemma safe_nested_name: "b \<le> B + 1 \<Longrightarrow> safe p b (\<lambda>_. True) (cpp_demangle_read_nested_name rc)"
  unfolding cpp_demangle_read_nested_name_def nested_qualifiers_def
  by (rule safe_limited [where I = vs_fit] safe_nested_round safe_rules safe_fit safe_advance_any
    | assumption | simp; fail)+

lemma safe_local_name: "b \<le> B + 1 \<Longrightarrow> safe True b (\<lambda>_. True) (cpp_demangle_read_local_name rc)"
  unfolding cpp_demangle_read_local_name_def local_types_round_def local_entity_def
  by (rule safe_advance safe_rules safe_fit safe_advance_any safe_call rc_safe | assumption | simp; fail)+

lemma safe_name: "b \<le> B + 1 \<Longrightarrow> safe p b (\<lambda>_. True) (cpp_demangle_read_name rc)"
  unfolding cpp_demangle_read_name_def
  by (rule safe_advance safe_rules safe_fit safe_advance_any safe_call safe_subst safe_nested_name safe_local_name safe_uqname safe_tmpl_suffix | assumption | simp; fail)+

lemma safe_function_parameters: "b + 3 \<le> B \<Longrightarrow> safe p b (\<lambda>_. True) (function_parameters rc v)"
  unfolding function_parameters_def function_types_round_def
  by (rule safe_advance safe_rules safe_fit safe_advance_any safe_call rc_safe safe_vq_init | assumption | simp; fail)+

lemma safe_function: "b \<le> B + 1 \<Longrightarrow> safe p b (\<lambda>_. True) (cpp_demangle_read_function rc v)"
  unfolding cpp_demangle_read_function_def
  by (rule safe_advance safe_rules safe_fit safe_advance_any safe_call safe_function_parameters | assumption | simp; fail)+

lemma safe_ptrmem_member: "b + 3 \<le> B \<Longrightarrow> safe p b (\<lambda>_. True) (ptrmem_member rc ct n)"
  unfolding ptrmem_member_def
  by (rule safe_rules safe_call | simp; fail)+

lemma safe_ptrmem_scoped: "b + 3 \<le> B \<Longrightarrow> safe p b (\<lambda>_. True) (ptrmem_scoped rc v ct n)"
  unfolding ptrmem_scoped_def
  by (rule safe_bind [where R = "\<lambda>_. True"] safe_rules safe_fit safe_ptrmem_member | assumption | simp; fail)+

lemma safe_pointer_to_member: "b \<le> B + 1 \<Longrightarrow> safe p b (\<lambda>_. True) (cpp_demangle_read_pointer_to_member rc v)"
  unfolding cpp_demangle_read_pointer_to_member_def
  by (rule safe_advance safe_rules safe_fit safe_advance_any safe_call safe_ptrmem_scoped safe_vq_init | assumption | simp; fail)+

lemma safe_special_prefix:
  "safe True (b - 4) (\<lambda>_. True) k \<Longrightarrow> safe True b (\<lambda>_. True) (special_prefix txt k)"
  unfolding special_prefix_def
  by (rule safe_advance safe_rules | assumption | simp; fail)+

lemma safe_encoding: "b \<le> B - 1 \<Longrightarrow> safe p b (\<lambda>_. True) (cpp_demangle_read_encoding rc)"
  unfolding cpp_demangle_read_encoding_def encoding_ref_temporary_def encoding_transaction_def
    encoding_construction_vtable_def cpp_demangle_read_name_flat_def cpp_demangle_read_type_flat_def
  by (rule safe_advance safe_rules safe_fit safe_advance_any safe_call safe_special_prefix | assumption | simp; fail)+

lemma safe_qualifier_letter:
  "b \<le> B + 1 \<Longrightarrow> vq_fit v \<Longrightarrow> safe True b (\<lambda>_. True) (type_qualifier_letter rc td l i v q)"
  unfolding type_qualifier_letter_def
  by (rule safe_advance safe_rules safe_fit safe_advance_any safe_call rc_safe
    | assumption | simp; fail)+

lemma safe_reference:
  "b \<le> B + 1 \<Longrightarrow> vq_fit v \<Longrightarrow> safe True b (\<lambda>_. True) (type_reference rc td l i v q)"
  unfolding type_reference_def
  by (rule safe_advance safe_rules safe_fit safe_advance_any safe_call rc_safe
    | assumption | simp; fail)+

lemma safe_type_vector:
  assumes "b \<le> B + 1" and "vq_fit v"
  shows "safe True b (\<lambda>_. True) (type_vector rc td l i v)"
  unfolding type_vector_def cpp_demangle_read_expression_flat_def
  by (rule safe_bind [where R = "\<lambda>x. vs_fit (snd x)"] safe_advance safe_rules safe_fit safe_advance_any safe_call rc_safe
    | use assms in \<open>simp; fail\<close>)+

lemma safe_type_D:
  "b \<le> B + 1 \<Longrightarrow> vq_fit v \<Longrightarrow> safe True b (\<lambda>_. True) (type_D rc td l i v)"
  unfolding type_D_def
  by (rule safe_advance safe_rules safe_fit safe_advance_any safe_call safe_type_vector
    | assumption | simp; fail)+

lemma safe_type_tmpl_args:
  "b \<le> B + 1 \<Longrightarrow> safe p b (\<lambda>_. True) (type_tmpl_args rc td l v)"
  unfolding type_tmpl_args_def
  by (rule safe_advance safe_rules safe_fit safe_advance_any safe_call safe_tmpl_args
    | assumption | simp; fail)+

lemma safe_vendor_qualifier:
  "b \<le> B + 1 \<Longrightarrow> vq_fit v \<Longrightarrow> safe True b (\<lambda>_. True) (type_vendor_qualifier rc td l i v)"
  unfolding type_vendor_qualifier_def
  by (rule safe_advance safe_rules safe_fit safe_advance_any safe_call rc_safe
    | assumption | simp; fail)+

lemma safe_type_compound:
  "b \<le> B - 1 \<Longrightarrow> vq_fit v \<Longrightarrow> safe True b (\<lambda>_. True) (type_compound rc td l i v c)"
  unfolding type_compound_def
  by (rule safe_advance safe_rules safe_fit safe_advance_any safe_call safe_array safe_type_D safe_function safe_pointer_to_member
      safe_type_tmpl_args safe_reference safe_subst safe_vendor_qualifier
    | assumption | simp; fail)+

lemma safe_type_again:
  "b \<le> B - 1 \<Longrightarrow> vq_fit v \<Longrightarrow> safe p b (\<lambda>_. True) (type_again rc td l i v)"
  unfolding type_again_def
  by (rule safe_advance safe_rules safe_fit safe_advance_any safe_call safe_qualifier_letter safe_type_compound
    | assumption | simp; fail)+

lemma safe_read_type: "b + 2 \<le> B \<Longrightarrow> safe p b (\<lambda>_. True) (cpp_demangle_read_type rc td)"
  unfolding cpp_demangle_read_type_def
  by (rule safe_rules rc_safe safe_vq_init | simp; fail)+

lemma safe_step: "call_fit c \<Longrightarrow> b + rank c \<le> B + 1 \<Longrightarrow> safe p b (\<lambda>_. True) (step rc c)"
  unfolding step_def
  by (cases c; simp only: call.case;
      (rule safe_read_type safe_type_again safe_encoding safe_expression safe_name safe_rules | simp; fail)+)

lemma safe_callees_step: "safe_callees (step rc) (B + 1)"
  by unfold_locales (rule safe_step)

end

section \<open>The program\<close>

text \<open>A negative bound admits no state: nothing runs without fuel.\<close>

lemma safe_negative: "b < 0 \<Longrightarrow> safe p b R m"
  by (auto simp: safe_def pre_def left_def)

lemma rank_positive: "0 < rank c"
  by (cases c) auto

lemma safe_callees_run: "safe_callees (run n) (int n)"
proof (induction n)
  case 0
  show ?case
  proof unfold_locales
    fix c b p assume "b + rank c \<le> int 0"
    with rank_positive [of c] show "safe p b (\<lambda>_. True) (run 0 c)" by (intro safe_negative) simp
  qed
next
  case (Suc n)
  from safe_callees.safe_callees_step [OF this] show ?case
    by (simp add: safe_callees_def add.commute)
qed

interpretation runs: safe_callees "run n" "int n" for n
  by (rule safe_callees_run)

text \<open>The entry points. They start at most \<open>length org + 1\<close> bytes before the end.\<close>

lemma safe_data_dest [safe_rules]: "safe p b R k \<Longrightarrow> safe p b R (cpp_demangle_data_dest k)"
  unfolding cpp_demangle_data_dest_def by (rule safe_rules | assumption | simp; fail)+

lemma safe_clean [safe_rules]: "safe p b (\<lambda>_. True) (demangle_clean has_ret r)"
  unfolding demangle_clean_def by (rule safe_rules | simp; fail)+

lemma safe_get_output [safe_rules]: "safe p b (\<lambda>_. True) get_output"
  unfolding get_output_def by (rule safe_rules | simp; fail)+

lemma safe_push_if [safe_rules]: "safe p b (\<lambda>_. True) (push_if a str)"
  unfolding push_if_def by (rule safe_rules safe_fit | assumption | simp; fail)+

lemma safe_main_finish [safe_rules]: "safe p b (\<lambda>_. True) (main_finish td)"
  unfolding main_finish_def by (rule safe_rules | simp; fail)+

lemma safe_main_return_type:
  "b + 3 \<le> int n \<Longrightarrow> safe p b (\<lambda>_. True) (main_return_type (run n) td)"
  unfolding main_return_type_def
  by (rule safe_rules safe_fit runs.safe_call | assumption | simp; fail)+

lemma safe_main_types:
  "b + 3 \<le> int n \<Longrightarrow> safe p b (\<lambda>_. True) (main_types (run n) has_ret)"
  unfolding main_types_def main_round_def
  by (rule safe_rules safe_main_return_type runs.rc_safe | assumption | simp; fail)+

lemma safe_drop_subst [safe_rules]:
  "safe p b R k \<Longrightarrow>
   safe p b R (upd (\<lambda>s. if c \<and> vs_size (subst s) \<ge> 1 then s\<lparr>subst := vector_str_pop (subst s)\<rparr> else s) k)"
  by (rule safe_upd) (auto simp: wf_dd_def)

lemma safe_demangle_encoding:
  "b + 3 \<le> int n \<Longrightarrow> safe p b (\<lambda>_. True) (demangle_encoding (run n))"
  unfolding demangle_encoding_def
  by (rule safe_vector_str_init safe_main_types runs.safe_call safe_rules | simp; fail)+

lemma safe_demangle_type:
  "b + 3 \<le> int n \<Longrightarrow> safe p b (\<lambda>_. True) (demangle_type (run n))"
  unfolding demangle_type_def
  by (rule safe_rules runs.safe_call | simp; fail)+

text \<open>Every field of the state is set before the mangled name is read.\<close>

lemma wp_vector_str_init [wp_rules]:
  "wp vector_str_init E Q s
     = Q (if mem s (brk s) (sizeof_ptr * VECTOR_DEF_CAPACITY)
          then Some \<lparr>vs_capacity = VECTOR_DEF_CAPACITY, vs_container = []\<rparr> else None) (s\<lparr>brk := Suc (brk s)\<rparr>)"
  by (simp add: vector_str_init_def wp_rules split: option.split)

lemma wp_vector_read_cmd_init [wp_rules]:
  "wp vector_read_cmd_init E Q s
     = Q (if mem s (brk s) (sizeof_cmd_item * VECTOR_DEF_CAPACITY)
          then Some \<lparr>vr_capacity = VECTOR_DEF_CAPACITY, r_container = []\<rparr> else None) (s\<lparr>brk := Suc (brk s)\<rparr>)"
  by (simp add: vector_read_cmd_init_def wp_rules split: option.split)

lemma data_init_establishes:
  assumes "frames s = []"
  shows "wp (cpp_demangle_data_init org i) E (\<lambda>b t. b \<longrightarrow> wf_dd t \<and> buf t = org \<and> cur t = i) s"
  using assms
  by (simp add: cpp_demangle_data_init_def wp_rules wf_dd_def vr_fit_def vr_size_def VECTOR_DEF_CAPACITY_def
      split: if_split)

lemma enough: "wf_dd t \<Longrightarrow> buf t = org \<Longrightarrow> enough_fuel org \<le> n \<Longrightarrow> pre False (int n - 3) t"
  by (auto simp: pre_def left_def enough_fuel_def)

lemma demangle_acceptable:
  assumes "enough_fuel org \<le> n"
  shows "wp (cxa_demangle_gnu3 (run n) (Some org)) acceptable (\<lambda>r t. True) (initial_dd h)"
proof -
  have init: "wp (bind (cpp_demangle_data_init org i) (\<lambda>b. if \<not> b then ret None else k)) acceptable
      (\<lambda>r t. True) (initial_dd h)"
    if k: "safe False (int n - 3) (\<lambda>_. True) k" for i k
    unfolding wp_bind
  proof (rule wp_mono [OF data_init_establishes])
    show "frames (initial_dd h) = []"
      by (simp add: initial_dd_def dd.defs heap.defs)
    fix b t assume "b \<longrightarrow> wf_dd t \<and> buf t = org \<and> cur t = i"
    then show "wp (if \<not> b then ret None else k) acceptable (\<lambda>r t. True) t"
      using enough [of t org n] assms wp_mono [OF safeD [OF k]] by (simp add: wp_ret)
  qed
  show ?thesis
    unfolding cxa_demangle_gnu3_def
    using init [OF safe_demangle_type [of _ n], of 0] init [OF safe_demangle_encoding [of _ n], of 2]
    by (simp add: wp_rules split: option.split)
qed

end
