(* ===== verification/Demangle_Fuel.thy ===== *)
theory Demangle_Fuel
  imports Demangle_Safe
begin

text \<open>
  The recursion bound of the model is not part of its meaning: with more fuel a run gives the
  same result, unless it ran out. \<open>approx m m'\<close> says that \<open>m\<close> runs out of fuel or does
  what \<open>m'\<close> does; every reader is monotone in its callees for it. Together with the bound of
  \<open>Demangle_Safe\<close> this makes \<open>enough_fuel\<close> the whole semantics of the program.
\<close>

section \<open>Approximation\<close>

definition approx :: "('a, 's) M \<Rightarrow> ('a, 's) M \<Rightarrow> bool" where
  "approx m m' \<longleftrightarrow> (\<forall>s. m s = Fault Out_Of_Fuel \<or> m s = m' s)"

named_theorems approx_rules "monotonicity of the combinators and of the readers"

lemma approx_refl: "approx m m"
  by (simp add: approx_def)

lemma approx_trans: "approx l m \<Longrightarrow> approx m n \<Longrightarrow> approx l n"
  unfolding approx_def by metis

lemma approx_bottom: "approx (crash Out_Of_Fuel) m"
  by (simp add: approx_def crash_def)

lemma approx_bind [approx_rules]:
  assumes m: "approx m m'" and k: "\<And>x. approx (k x) (k' x)"
  shows "approx (bind m k) (bind m' k')"
  unfolding approx_def
proof
  fix s
  from m consider "m s = Fault Out_Of_Fuel" | "m s = m' s" unfolding approx_def by blast
  then show "bind m k s = Fault Out_Of_Fuel \<or> bind m k s = bind m' k' s"
    by cases (use k in \<open>auto simp: bind_def approx_def split: res.split\<close>)
qed

lemma approx_check [approx_rules]:
  "approx m m' \<Longrightarrow> approx k k' \<Longrightarrow> approx (check m k) (check m' k')"
  unfolding check_def by (rule approx_bind) (auto intro: approx_refl)

lemma approx_check_some [approx_rules]:
  "approx m m' \<Longrightarrow> (\<And>x. approx (k x) (k' x)) \<Longrightarrow> approx (check_some m k) (check_some m' k')"
  unfolding check_some_def by (rule approx_bind) (auto intro: approx_refl split: option.split)

lemma approx_checkx [approx_rules]:
  "approx m m' \<Longrightarrow> approx k k' \<Longrightarrow> approx (checkx x m k) (checkx x m' k')"
  unfolding checkx_def by (rule approx_bind) (auto intro: approx_refl)

lemma approx_gets [approx_rules]: "(\<And>x. approx (k x) (k' x)) \<Longrightarrow> approx (gets f k) (gets f k')"
  by (simp add: approx_def gets_def)

lemma approx_upd [approx_rules]: "approx k k' \<Longrightarrow> approx (upd f k) (upd f k')"
  by (simp add: approx_def upd_def)

lemma approx_assert [approx_rules]: "approx k k' \<Longrightarrow> approx (c_assert a k) (c_assert a k')"
  by (simp add: approx_def c_assert_def)

lemma approx_if [approx_rules]:
  "approx m m' \<Longrightarrow> approx n n' \<Longrightarrow> approx (if a then m else n) (if a then m' else n')"
  by simp

lemma approx_if_app [approx_rules]:
  "approx (F k) (F k') \<Longrightarrow> approx (G k) (G k') \<Longrightarrow> approx ((if a then F else G) k) ((if a then F else G) k')"
  by simp

lemma approx_Let [approx_rules]: "(\<And>x. approx (f x) (f' x)) \<Longrightarrow> approx (let x = a in f x) (let x = a in f' x)"
  by simp

lemma approx_case_option [approx_rules]:
  "approx m m' \<Longrightarrow> (\<And>y. approx (k y) (k' y))
   \<Longrightarrow> approx (case x of None \<Rightarrow> m | Some y \<Rightarrow> k y) (case x of None \<Rightarrow> m' | Some y \<Rightarrow> k' y)"
  by (simp split: option.split)

lemma approx_case_prod [approx_rules]:
  "(\<And>y z. approx (k y z) (k' y z)) \<Longrightarrow> approx (case x of (y, z) \<Rightarrow> k y z) (case x of (y, z) \<Rightarrow> k' y z)"
  by (simp split: prod.split)

lemma approx_case_expr_op [approx_rules]:
  "(\<And>y. approx (f y) (f' y)) \<Longrightarrow> (\<And>y. approx (g y) (g' y))
   \<Longrightarrow> approx (case x of Binary y \<Rightarrow> f y | Unary y \<Rightarrow> g y) (case x of Binary y \<Rightarrow> f' y | Unary y \<Rightarrow> g' y)"
  by (simp split: expr_op.split)

lemma approx_strlen [approx_rules]:
  "(\<And>n. approx (k n) (k' n)) \<Longrightarrow> approx (c_strlen t k) (c_strlen t k')"
  by (simp add: approx_def c_strlen_def split: cbuf.split)

lemma approx_limited [approx_rules]:
  assumes "\<And>x. approx (body x) (body' x)"
  shows "approx (limited n z body x) (limited n z body' x)"
proof (induction n arbitrary: x)
  case 0
  show ?case by (simp, rule approx_bind [OF assms]) (rule approx_refl)
next
  case (Suc n)
  show ?case
    by (simp, rule approx_bind [OF assms]) (auto intro: approx_refl Suc split: ctl.split)
qed

lemma approx_peek [approx_rules]: "(\<And>c. approx (k c) (k' c)) \<Longrightarrow> approx (peek i k) (peek i k')"
  by (simp add: approx_def peek_def)

lemma approx_advance [approx_rules]: "approx k k' \<Longrightarrow> approx (advance n k) (advance n k')"
  unfolding advance_def by (rule approx_upd)

lemma approx_str_at [approx_rules]: "(\<And>t. approx (k t) (k' t)) \<Longrightarrow> approx (str_at i k) (str_at i k')"
  by (simp add: approx_def str_at_def)

lemma approx_with_vec [approx_rules]: "(\<And>v. approx (k v) (k' v)) \<Longrightarrow> approx (with_vec l k) (with_vec l k')"
  by (auto simp: approx_def with_vec_def split: option.split)

lemma approx_memcmp_cur [approx_rules]:
  "(\<And>x. approx (k x) (k' x)) \<Longrightarrow> approx (memcmp_cur str k) (memcmp_cur str k')"
  by (simp add: approx_def memcmp_cur_def)

lemma approx_skip_digits [approx_rules]: "approx k k' \<Longrightarrow> approx (skip_digits k) (skip_digits k')"
  unfolding skip_digits_def by (rule approx_rules | assumption)+

lemma approx_frame_push [approx_rules]: "approx k k' \<Longrightarrow> approx (frame_push v k) (frame_push v k')"
  unfolding frame_push_def by (rule approx_upd)

lemma approx_frame_pop [approx_rules]: "approx k k' \<Longrightarrow> approx (frame_pop k) (frame_pop k')"
  unfolding frame_pop_def by (rule approx_rules approx_refl | assumption)+

lemma approx_read_flat [approx_rules]: "approx m m' \<Longrightarrow> approx (read_flat l m) (read_flat l m')"
  unfolding read_flat_def by (rule approx_rules approx_refl | assumption)+

lemma approx_requalify [approx_rules]:
  "(\<And>v. approx (k v) (k' v)) \<Longrightarrow> approx (requalify v k) (requalify v k')"
  unfolding requalify_def by (rule approx_rules approx_refl | assumption)+

section \<open>Readers\<close>

locale approx_callees =
  fixes rc rc' :: rcall
  assumes rc_approx: "approx (rc c) (rc' c)"
begin

lemma approx_call: "approx (call rc c) (call rc' c)"
  unfolding call_def by (rule approx_rules rc_approx approx_refl)+

lemma approx_array: "approx (cpp_demangle_read_array rc) (cpp_demangle_read_array rc')"
  unfolding cpp_demangle_read_array_def
  by (rule approx_call approx_refl approx_rules)+

lemma approx_expr_primary:
  "approx (cpp_demangle_read_expr_primary rc) (cpp_demangle_read_expr_primary rc')"
  unfolding cpp_demangle_read_expr_primary_def
  by (rule approx_call rc_approx approx_refl approx_rules)+

lemma approx_tmpl_arg:
  "approx (cpp_demangle_read_tmpl_arg rc) (cpp_demangle_read_tmpl_arg rc')"
  unfolding cpp_demangle_read_tmpl_arg_def
  by (rule approx_call rc_approx approx_expr_primary approx_refl approx_rules)+

lemma approx_tmpl_args:
  "approx (cpp_demangle_read_tmpl_args rc) (cpp_demangle_read_tmpl_args rc')"
  unfolding cpp_demangle_read_tmpl_args_def tmpl_args_round_def
  by (rule approx_call rc_approx approx_tmpl_arg approx_refl approx_rules)+

lemma approx_uqname:
  "approx (cpp_demangle_read_uqname rc) (cpp_demangle_read_uqname rc')"
  unfolding cpp_demangle_read_uqname_def
  by (rule approx_call rc_approx approx_refl approx_rules)+

lemma approx_push_named_subst:
  assumes "\<And>w. approx (k w) (k' w)"
  shows "approx (push_named_subst l i v k) (push_named_subst l i v k')"
  unfolding push_named_subst_def by (rule approx_rules approx_refl assms)+

lemma approx_tmpl_suffix:
  "approx (read_tmpl_suffix rc l v) (read_tmpl_suffix rc' l v)"
  unfolding read_tmpl_suffix_def
  by (rule approx_call rc_approx approx_tmpl_args approx_push_named_subst approx_refl approx_rules)+

lemma approx_subst_std:
  "approx (cpp_demangle_read_subst_std rc) (cpp_demangle_read_subst_std rc')"
  unfolding cpp_demangle_read_subst_std_def
  by (rule approx_call rc_approx approx_uqname approx_push_named_subst approx_tmpl_suffix approx_refl approx_rules)+

lemma approx_subst_stdtmpl:
  "approx (cpp_demangle_read_subst_stdtmpl rc str) (cpp_demangle_read_subst_stdtmpl rc' str)"
  unfolding cpp_demangle_read_subst_stdtmpl_def
  by (rule approx_call rc_approx approx_tmpl_args approx_refl approx_rules)+

lemma approx_subst:
  "approx (cpp_demangle_read_subst rc) (cpp_demangle_read_subst rc')"
  unfolding cpp_demangle_read_subst_def
  by (rule approx_call rc_approx approx_subst_std approx_subst_stdtmpl approx_refl approx_rules)+

lemma approx_expression:
  "approx (cpp_demangle_read_expression rc) (cpp_demangle_read_expression rc')"
  unfolding cpp_demangle_read_expression_def cpp_demangle_read_expression_binary_def
    cpp_demangle_read_expression_unary_def cpp_demangle_read_expression_trinary_def
  by (rule approx_call rc_approx approx_uqname approx_tmpl_args approx_expr_primary approx_refl approx_rules)+

lemma approx_nested_component:
  "approx (nested_component rc) (nested_component rc')"
  unfolding nested_component_def
  by (rule approx_call rc_approx approx_tmpl_args approx_subst approx_uqname approx_refl approx_rules)+

lemma approx_nested_qualifiers:
  "approx k k' \<Longrightarrow> approx (nested_qualifiers k) (nested_qualifiers k')"
  unfolding nested_qualifiers_def by (rule approx_rules | assumption)+

lemma approx_nested_name:
  "approx (cpp_demangle_read_nested_name rc) (cpp_demangle_read_nested_name rc')"
  unfolding cpp_demangle_read_nested_name_def nested_round_def
  by (rule approx_call rc_approx approx_nested_component approx_nested_qualifiers approx_refl approx_rules)+

lemma approx_local_name:
  "approx (cpp_demangle_read_local_name rc) (cpp_demangle_read_local_name rc')"
  unfolding cpp_demangle_read_local_name_def local_types_round_def local_entity_def
  by (rule approx_call rc_approx  approx_refl approx_rules)+

lemma approx_name:
  "approx (cpp_demangle_read_name rc) (cpp_demangle_read_name rc')"
  unfolding cpp_demangle_read_name_def
  by (rule approx_call rc_approx approx_subst approx_nested_name approx_local_name approx_uqname
      approx_tmpl_suffix approx_refl approx_rules)+

lemma approx_function:
  "approx (cpp_demangle_read_function rc v) (cpp_demangle_read_function rc' v)"
  unfolding cpp_demangle_read_function_def function_parameters_def function_types_round_def
  by (rule approx_call rc_approx approx_refl approx_rules)+

lemma approx_pointer_to_member:
  "approx (cpp_demangle_read_pointer_to_member rc v) (cpp_demangle_read_pointer_to_member rc' v)"
  unfolding cpp_demangle_read_pointer_to_member_def ptrmem_scoped_def ptrmem_member_def
  by (rule approx_call rc_approx approx_refl approx_rules)+

lemma approx_special_prefix:
  "approx k k' \<Longrightarrow> approx (special_prefix txt k) (special_prefix txt k')"
  unfolding special_prefix_def by (rule approx_refl approx_rules | assumption)+

lemma approx_encoding:
  "approx (cpp_demangle_read_encoding rc) (cpp_demangle_read_encoding rc')"
  unfolding cpp_demangle_read_encoding_def encoding_ref_temporary_def encoding_transaction_def
    encoding_construction_vtable_def cpp_demangle_read_name_flat_def cpp_demangle_read_type_flat_def
  by (rule approx_call rc_approx approx_special_prefix approx_refl approx_rules)+

lemma approx_type_vector:
  "approx (type_vector rc td l i v) (type_vector rc' td l i v)"
  unfolding type_vector_def cpp_demangle_read_expression_flat_def
  by (rule approx_call rc_approx approx_refl approx_rules)+

lemma approx_type_compound:
  "approx (type_compound rc td l i v c) (type_compound rc' td l i v c)"
  unfolding type_compound_def type_D_def type_tmpl_args_def type_reference_def
    type_vendor_qualifier_def
  by (rule approx_call rc_approx approx_array approx_type_vector approx_function
      approx_pointer_to_member approx_tmpl_args approx_subst approx_refl approx_rules)+

lemma approx_type_again:
  "approx (type_again rc td l i v) (type_again rc' td l i v)"
  unfolding type_again_def type_qualifier_letter_def
  by (rule approx_call rc_approx approx_type_compound approx_refl approx_rules)+

lemma approx_type_delimiters:
  "(\<And>td. approx (k td) (k' td)) \<Longrightarrow> approx (type_delimiters td k) (type_delimiters td k')"
  unfolding type_delimiters_def by (rule approx_refl approx_rules | assumption)+

lemma approx_read_type:
  "approx (cpp_demangle_read_type rc td) (cpp_demangle_read_type rc' td)"
  unfolding cpp_demangle_read_type_def
  by (rule approx_call rc_approx approx_type_delimiters approx_refl approx_rules)+

lemma approx_step: "approx (step rc c) (step rc' c)"
  unfolding step_def
  by (cases c; simp only: call.case;
      (rule approx_read_type approx_type_again approx_encoding approx_expression approx_name
        approx_refl approx_rules)+)

lemma approx_main_types:
  "approx (main_types rc has_ret) (main_types rc' has_ret)"
  unfolding main_types_def main_round_def main_return_type_def
  by (rule approx_call rc_approx approx_refl approx_rules)+

lemma approx_demangle:
  "approx (cxa_demangle_gnu3 rc org) (cxa_demangle_gnu3 rc' org)"
  unfolding cxa_demangle_gnu3_def demangle_type_def demangle_encoding_def
  by (rule approx_call rc_approx approx_main_types approx_refl approx_rules)+

lemma approx_callees_step: "approx_callees (step rc) (step rc')"
  by unfold_locales (rule approx_step)

end

section \<open>Fuel\<close>

lemma approx_callees_run: "m \<le> n \<Longrightarrow> approx_callees (run m) (run n)"
proof (induction m arbitrary: n)
  case 0
  show ?case by unfold_locales (simp add: approx_bottom)
next
  case (Suc m)
  then obtain k where k: "n = Suc k" "m \<le> k" by (cases n) auto
  from approx_callees.approx_callees_step [OF Suc.IH [OF k(2)]] show ?case
    by (simp add: k(1) approx_callees_def)
qed

interpretation fuel: approx_callees "run n" "run (n + k)" for n k
  by (rule approx_callees_run) simp

lemma demangle_more_fuel:
  assumes "m \<le> n" and "demangle m h org \<noteq> Inl Out_Of_Fuel"
  shows "demangle n h org = demangle m h org"
proof -
  let ?run = "\<lambda>k. cxa_demangle_gnu3 (run k) org (initial_dd h)"
  from fuel.approx_demangle [of m org "n - m"] assms(1)
  have "?run m = Fault Out_Of_Fuel \<or> ?run m = ?run n" by (simp add: approx_def)
  with assms(2) show ?thesis by (auto simp: demangle_def)
qed

lemma enough_fuel_demangle:
  assumes "enough_fuel org \<le> n"
  shows "demangle n h (Some org) \<noteq> Inl Out_Of_Fuel" and "demangle n h (Some org) \<noteq> Inl Buffer_Overflow"
  using demangle_acceptable [OF assms, of h]
  by (auto simp: demangle_def wp_def acceptable_def split: res.splits)

lemma run_keeps:
  assumes "run n c s = Ok x t" and "wf_dd s" and "call_fit c"
  shows "post s t"
proof -
  define k where "k = n + nat (left s + rank c)"
  from fuel.rc_approx [of n c "k - n"] assms(1) have "run k c s = Ok x t"
    unfolding approx_def k_def by (metis diff_add_inverse res.distinct(1))
  moreover have "safe False (left s) (\<lambda>_. True) (run k c)"
    by (rule runs.rc_safe [OF assms(3)]) (simp add: k_def)
  moreover have "pre False (left s) s" using assms(2) by (simp add: pre_def)
  ultimately show ?thesis by (auto dest: safeD simp: wp_def)
qed

section \<open>Properties\<close>

text \<open>
  C4. The demangler terminates: fuel linear in the length of the mangled name is enough, and any
  more gives the same result. The recursion never runs out on any input, whichever
  allocations fail.
\<close>

theorem demangle_terminates:
  assumes "enough_fuel org \<le> n"
  shows "demangle n h (Some org) = demangle (enough_fuel org) h (Some org)
    \<and> demangle n h (Some org) \<noteq> Inl Out_Of_Fuel"
  using demangle_more_fuel [OF assms] enough_fuel_demangle by auto

theorem demangle_terminates_witness:
  "demangle 1000 h0 (Some ''_Z3fooi'') = demangle (enough_fuel ''_Z3fooi'') h0 (Some ''_Z3fooi'')
    \<and> demangle 1000 h0 (Some ''_Z3fooi'') \<noteq> Inl Out_Of_Fuel"
  by (rule demangle_terminates) (simp add: enough_fuel_def)


end
