(* ===== verification/Demangle_Runs.thy ===== *)
theory Demangle_Runs
  imports Demangle_Fuel
begin

text \<open>
  Complete runs of the demangler on concrete mangled names, evaluated by the simplifier: the
  behaviours that do not follow from the general theorems, most of them defects.
  \<open>h0\<close> is a platform on which every allocation succeeds.
\<close>

section \<open>Evaluation\<close>

lemmas vectors_run_defs =
  BUFFER_GROW_def VECTOR_DEF_CAPACITY_def sizeof_ptr_def sizeof_enum_def sizeof_cmd_item_def size_pred_def
  size_succ_def vs_size_def vs_texts_def get_strlen_sum_def vector_str_dest_def vector_str_find_def
  vector_str_get_flat_def vector_str_grow_def vector_str_init_def vector_str_pop_def copy_string_def
  vector_str_push_def VEC_PUSH_STR_def vector_str_push_vector_head_def vector_str_push_vector_def
  vector_str_substr_def substr_from_def vq_size_def vector_type_qualifier_dest_def
  vector_type_qualifier_init_def vector_type_qualifier_push_def vr_size_def vector_read_cmd_dest_def
  vector_read_cmd_find_def vector_read_cmd_init_def vector_read_cmd_pop_def vector_read_cmd_push_def

lemmas demangle_data_run_defs =
  CPP_DEMANGLE_TRY_LIMIT_def schar_def SIMPLE_HASH_def peek_def advance_def str_at_def skip_until_def
  skip_digits_def vget_def vput_def with_vec_def on_vec_def on_subst_def on_tmpl_def on_class_type_def
  on_cmd_def frame_push_def frame_pop_def deref_sname_def cpp_demangle_data_init_def
  cpp_demangle_data_dest_def cpp_demangle_push_str_def DEM_PUSH_STR_def DEM_PUSH_BUF_def
  cpp_demangle_pop_str_def cpp_demangle_push_subst_def cpp_demangle_push_subst_v_def
  cpp_demangle_push_fp_def is_cv_def push_qual_str_def push_qual_noncv_def push_qual_cv_def
  push_qual_ext_def cpp_demangle_push_type_qualifier_def cpp_demangle_get_subst_def
  cpp_demangle_get_tmpl_param_def read_seq_id_def cpp_demangle_read_tmpl_param_def
  cpp_demangle_read_number_def cpp_demangle_read_number_as_string_def memcmp_cur_def
  cpp_demangle_read_sname_def cpp_demangle_read_offset_number_def cpp_demangle_read_nv_offset_def
  cpp_demangle_read_v_offset_def cpp_demangle_read_offset_def skip_discriminator_def
  cpp_demangle_local_source_name_def

lemmas demangle_tables_run_defs =
  hash_of_def hash_find_def expr_operators1_def expr_operators2_def expr_operators_def uq_operators1_def
  uq_operators2_def uq_operators3_def uq_operators_def builtin_types_def builtin_types_D_def
  qualifier_letters_def std_abbrevs_def special_type_names_def special_tls_names_def

lemmas decode_fp_run_defs =
  FLOAT_SPRINTF_TRY_LIMIT_def FLOAT_QUADRUPLE_BYTES_def FLOAT_EXTENED_BYTES_def sizeof_double_def
  sizeof_float_def hex_table_def hex_to_dec_def fp_byte_def fp_bytes_def round_half_even_def pad6_def
  fixed6_def fmt_f_def decode_fp_to_double_def decode_fp_to_float_def fmt_Lf_def sprintf_Lfd_def
  decode_fp_to_long_double_def decode_fp_to_float128_def decode_fp_to_float80_def

lemmas demangle_read_run_defs =
  call_def checkx_def TRY_ROUNDS_def read_flat_def cpp_demangle_read_expression_flat_def
  cpp_demangle_read_name_flat_def cpp_demangle_read_type_flat_def cpp_demangle_read_array_def
  integer_literal_letters_def read_integer_literal_def cpp_demangle_read_expr_primary_def
  cpp_demangle_read_tmpl_arg_def tmpl_args_round_def cpp_demangle_read_tmpl_args_def ctor_dtor_name_def
  cpp_demangle_read_uqname_def push_named_subst_def read_tmpl_suffix_def cpp_demangle_read_subst_std_def
  cpp_demangle_read_subst_stdtmpl_def cpp_demangle_read_subst_def cpp_demangle_read_expression_binary_def
  cpp_demangle_read_expression_unary_def cpp_demangle_read_expression_trinary_def
  cpp_demangle_read_expression_def nested_qualifiers_def nested_component_def nested_next_def
  nested_round_def cpp_demangle_read_nested_name_def local_types_round_def local_entity_def
  cpp_demangle_read_local_name_def cpp_demangle_read_name_def function_types_round_def push_ptrmem_class_def
  push_ref_qualifier_def function_declarator_def requalify_def function_parameters_def
  cpp_demangle_read_function_def ptrmem_member_def ptrmem_scoped_def cpp_demangle_read_pointer_to_member_def

lemmas demangle_main_run_defs =
  special_prefix_def encoding_ref_temporary_def encoding_transaction_def encoding_construction_vtable_def
  cpp_demangle_read_encoding_def clear_firstp_def type_delimiters_def type_rtn_def type_qualifier_letter_def
  type_reference_def type_vector_def type_D_def type_tmpl_args_def type_vendor_qualifier_def omit_void_def
  type_void_def type_end_def type_compound_def type_again_def cpp_demangle_read_type_def step_def
  is_cpp_mangled_gnu3_def demangle_clean_def get_output_def main_return_type_def main_round_def push_if_def
  main_finish_def main_types_def demangle_encoding_def demangle_type_def cxa_demangle_gnu3_def

lemmas run_defs = vectors_run_defs demangle_data_run_defs demangle_tables_run_defs decode_fp_run_defs
  demangle_read_run_defs demangle_main_run_defs

lemma run_num: "run (numeral k) c = step (run (pred_numeral k)) c"
  by (simp add: numeral_eq_Suc)

lemma limited_num:
  "limited (numeral k) z body x =
     bind (body x) (\<lambda>c. case c of Next x' \<Rightarrow> limited (pred_numeral k) z body x' | Stop y \<Rightarrow> ret y)"
  by (simp add: numeral_eq_Suc)

lemmas c_library_defs = c_isdigit_def c_isupper_def c_isspace_def NUL_def strtol_def digit_val_def LONG_MAX_def
  LONG_MIN_def strncmp_eq_def

lemmas eval = demangle_def initial_dd_def dd.defs heap.defs h0_def run_rules run_num limited_num run_defs
  c_library_defs SIZE_MAX_def Let_def

section \<open>Properties\<close>


text \<open>
  Assertions that input can violate: an empty local name, which leaves the output vector
  without capacity, and a negative template parameter number.
\<close>

theorem run_assertion:
  "demangle 200 h0 (Some ''_ZZSxvE3foo'') = Inl Assert_Failed
   \<and> demangle 200 h0 (Some ''_Z1fT-5_'') = Inl Assert_Failed"
  by (intro conjI; simp add: eval cong: run_congs)

text \<open>
  The number of a substitution is incremented without a range check: on \<open>LONG_MAX\<close> this
  is signed overflow.
\<close>

theorem run_signed_overflow: "demangle 200 h0 (Some ''SZZZZZZZZZZZZZZZZZZ_'') = Inl Signed_Overflow"
  by (simp add: eval cong: run_congs)

text \<open>
  Memory that is not valid: the text of an empty type is read before it is written, and the
  name of a constructor in a local class is taken from a vector that was already released.
\<close>

theorem run_invalid_memory:
  "demangle 200 h0 (Some ''PSx'') = Inl Uninitialised
   \<and> demangle 200 h0 (Some ''_ZZN1A1fEvEC1Ev'') = Inl Use_After_Free"
  by (intro conjI; simp add: eval cong: run_congs)

text \<open>
  Valid names that are rejected: a virtual thunk, because \<open>cpp_demangle_read_v_offset\<close>
  returns the negation of its last call, and a substitution whose candidate was dropped because
  an earlier one starts with it.
\<close>

theorem run_rejects_valid:
  "demangle 200 h0 (Some ''_ZTv0_n24_N1A1fEv'') = Inr None
   \<and> demangle 200 h0 (Some ''_Z1f2AB1AS0_'') = Inr None
   \<and> demangle 200 h0 (Some ''_Z1f2AB1CS0_'') = Inr (Some ''f(AB, C, C)'')"
  by (intro conjI; simp add: eval cong: run_congs)

text \<open>
  Running out of memory inside the parser can release a string or an array twice: when
  \<open>strdup\<close> fails while a local name is appended to the output, and when the qualifier vector
  of a function type or of a pointer to member cannot be made again.
\<close>

theorem run_double_free:
  "demangle 200 (h0\<lparr>mem := \<lambda>i n. i \<noteq> 22\<rparr>) (Some ''_Z1fZ3foovE1x'') = Inl Double_Free
   \<and> demangle 200 (h0\<lparr>mem := \<lambda>i n. i \<noteq> 19\<rparr>) (Some ''PFvvE'') = Inl Double_Free
   \<and> demangle 200 (h0\<lparr>mem := \<lambda>i n. i \<noteq> 25\<rparr>) (Some ''M1Ai'') = Inl Double_Free"
  by (intro conjI; simp add: eval cong: run_congs)

text \<open>
  Without any memory the demangler returns a null pointer and meets no fault.
\<close>

theorem demangle_out_of_memory:
  assumes "\<And>i k. \<not> mem h i k"
  shows "demangle n h org = Inr None"
  using assms
  by (simp add: demangle_def initial_dd_def dd.defs heap.defs cxa_demangle_gnu3_def cpp_demangle_data_init_def
      vector_str_init_def run_rules split: option.split)

theorem demangle_out_of_memory_witness:
  "demangle 7 (h0\<lparr>mem := \<lambda>i n. False\<rparr>) (Some ''_Z1fv'') = Inr None"
  by (rule demangle_out_of_memory) (simp add: h0_def)

text \<open>
  The branch for \<open>_GLOBAL__I_\<close> is never taken: a name with this prefix does not start with
  \<open>_Z\<close>, is read as a type and rejected, although \<open>is_cpp_mangled_gnu3\<close> accepts it.
\<close>

lemma global_ctor_run: "demangle 4 h0 (Some (''_GLOBAL__I_'' @ zs)) = Inr None"
  by (simp add: eval cong: run_congs)

theorem global_constructors_rejected:
  "is_cpp_mangled_gnu3 (''_GLOBAL__I_'' @ z # zs) \<and> demangle (n + 4) h0 (Some (''_GLOBAL__I_'' @ z # zs)) = Inr None"
proof
  show "is_cpp_mangled_gnu3 (''_GLOBAL__I_'' @ z # zs)"
    by (simp add: is_cpp_mangled_gnu3_def strncmp_eq_def)
  show "demangle (n + 4) h0 (Some (''_GLOBAL__I_'' @ z # zs)) = Inr None"
    using demangle_more_fuel [of 4 "n + 4" h0 "Some (''_GLOBAL__I_'' @ z # zs)"] global_ctor_run [of "z # zs"]
    by simp
qed

text \<open>
  C30. The invariant of the reader: every recursive call of the grammar (a type, an encoding, an
  expression, a name) that returns leaves all vectors within their capacities, never changes
  the mangled name and never moves the cursor backwards.
\<close>

theorem run_invariant:
  assumes "run n c s = Ok x t" and "wf_dd s" and "call_fit c"
  shows "wf_dd t \<and> buf t = buf s \<and> cur s \<le> cur t"
  using run_keeps [OF assms] by (simp add: post_def)

theorem run_invariant_witness:
  "\<exists>x t s. run 10 C_name s = Ok x t \<and> buf s = ''3foo'' \<and> wf_dd t \<and> buf t = buf s \<and> cur s \<le> cur t"
proof -
  define s where "s = (initial_dd h0)\<lparr>output_v := \<lparr>vs_capacity = 8, vs_container = []\<rparr>,
    subst := \<lparr>vs_capacity = 8, vs_container = []\<rparr>, cmd := \<lparr>vr_capacity = 8, r_container = []\<rparr>, buf := ''3foo''\<rparr>"
  have "\<exists>x t. run 10 C_name s = Ok x t"
    unfolding s_def by (simp add: eval cong: run_congs) blast
  then obtain x t where r: "run 10 C_name s = Ok x t" by blast
  have "wf_dd s"
    by (simp add: s_def initial_dd_def dd.defs heap.defs h0_def wf_dd_def vr_fit_def vr_size_def)
  then have "wf_dd t \<and> buf t = buf s \<and> cur s \<le> cur t" by (rule run_invariant [OF r]) simp
  moreover have "buf s = ''3foo''" by (simp add: s_def)
  ultimately show ?thesis using r by blast
qed

end
