(* ===== verification/Numbers.thy ===== *)
theory Numbers
  imports Demangle_Main
begin

text \<open>
  Decimal numbers in mangled names: what \<open>strtol\<close> and \<open>cpp_demangle_read_number\<close> make of the
  decimal digits of a number, and that \<open>cpp_demangle_read_number_as_string\<close> gives them back.
\<close>

section \<open>Digits\<close>

lemma digit_char_simps [simp]:
  "digit_char 0 = CHR ''0''" "digit_char (Suc 0) = CHR ''1''" "digit_char 1 = CHR ''1''" "digit_char 2 = CHR ''2''"
  "digit_char 3 = CHR ''3''" "digit_char 4 = CHR ''4''" "digit_char 5 = CHR ''5''" "digit_char 6 = CHR ''6''"
  "digit_char 7 = CHR ''7''" "digit_char 8 = CHR ''8''" "digit_char 9 = CHR ''9''"
  by code_simp+

lemma of_char_digit_char: "d < 10 \<Longrightarrow> of_char (digit_char d) = (48 + d :: nat)"
  by (simp add: digit_char_def)

lemma c_isdigit_digit_char [simp]: "d < 10 \<Longrightarrow> c_isdigit (digit_char d)"
  by (simp add: c_isdigit_def of_char_digit_char)

lemma digit_val_digit_char [simp]: "d < 10 \<Longrightarrow> digit_val 10 (digit_char d) = Some d"
  by (simp add: digit_val_def of_char_digit_char Let_def)

lemma digit_val_None [simp]: "\<not> c_isdigit c \<Longrightarrow> digit_val 10 c = None"
  by (auto simp: digit_val_def c_isdigit_def Let_def)

lemma digit_not_space: "c_isdigit c \<Longrightarrow> \<not> c_isspace c"
  by (auto simp: c_isdigit_def c_isspace_def)

lemma digit_not_sign: "c_isdigit c \<Longrightarrow> c \<noteq> CHR ''-'' \<and> c \<noteq> CHR ''+'' \<and> c \<noteq> CHR ''n'' \<and> c \<noteq> NUL"
  by (auto simp: c_isdigit_def NUL_def)

lemma show_nat_digits: "list_all c_isdigit (show_nat n)"
proof (induction n rule: show_nat.induct)
  case (1 n)
  then show ?case by (subst show_nat.simps) auto
qed

lemma show_nat_nonempty [simp]: "show_nat n \<noteq> []"
  by (subst show_nat.simps) auto

lemma hd_show_nat: "c_isdigit (hd (show_nat n))"
  using show_nat_digits [of n] by (cases "show_nat n") auto

lemma takeWhile_show_nat:
  assumes "r = [] \<or> \<not> c_isdigit (hd r)"
  shows "takeWhile c_isdigit (show_nat n @ r) = show_nat n"
  using show_nat_digits [of n] assms
  by (cases r) (auto simp: takeWhile_append list_all_iff)

lemma digits_val_stop: "r = [] \<or> \<not> c_isdigit (hd r) \<Longrightarrow> digits_val 10 acc r = acc"
  by (cases r) auto

lemma digits_val_show_nat:
  "digits_val 10 acc (show_nat n @ r) = digits_val 10 (acc * 10 ^ length (show_nat n) + int n) r"
proof (induction n arbitrary: acc r rule: show_nat.induct)
  case (1 n)
  show ?case
  proof (cases "n < 10")
    case True
    then have "show_nat n = [digit_char n]" by (simp add: show_nat.simps)
    with True show ?thesis by simp
  next
    case False
    then have s: "show_nat n = show_nat (n div 10) @ [digit_char (n mod 10)]" by (simp add: show_nat.simps)
    have "int n = int (n div 10) * 10 + int (n mod 10)" by presburger
    then show ?thesis
      using 1 [OF False, of acc "digit_char (n mod 10) # r"]
      by (simp add: s algebra_simps)
  qed
qed

lemma strtol_show_nat:
  assumes "r = [] \<or> \<not> c_isdigit (hd r)"
  shows "strtol (show_nat n @ r) 10 = (min LONG_MAX (int n), False)"
proof -
  obtain c cs where c: "show_nat n = c # cs" "c_isdigit c"
    using show_nat_digits [of n] by (cases "show_nat n") auto
  have "digits_val 10 0 (show_nat n @ r) = int n"
    using digits_val_show_nat [of 0 n r] digits_val_stop [OF assms] by simp
  then have "digits_val 10 0 (c # cs @ r) = int n" by (simp only: c append_Cons)
  moreover have "digit_val 10 c \<noteq> None" using c(2) by (auto simp: digit_val_def c_isdigit_def Let_def)
  ultimately show ?thesis
    using c digit_not_space [OF c(2)] digit_not_sign [OF c(2)]
    by (simp add: strtol_def LONG_MAX_def LONG_MIN_def Let_def del: digits_val.simps)
qed

section \<open>Reading\<close>

text \<open>The rest of the mangled name.\<close>

definition rest :: "dd \<Rightarrow> string" where
  "rest s = drop (cur s) (buf s)"

lemma rest_advance [simp]: "rest (s\<lparr>cur := cur s + n\<rparr>) = drop n (rest s)"
  by (simp add: rest_def add.commute)

lemma rest_Suc [simp]: "rest (s\<lparr>cur := Suc (cur s)\<rparr>) = tl (rest s)"
  by (simp add: rest_def drop_Suc tl_drop)

lemma cur_less: "rest s = c # r \<Longrightarrow> cur s < length (buf s)"
  by (metis drop_all leI list.discI rest_def)

lemma run_peek: "rest s = c # r \<Longrightarrow> peek 0 k s = k c s"
  using cur_less [of s c r] by (auto simp: peek_def rest_def hd_drop_conv_nth [symmetric])

lemma run_peek_end: "rest s = [] \<Longrightarrow> cur s = length (buf s) \<Longrightarrow> peek 0 k s = k NUL s"
  by (simp add: peek_def)

lemma run_peek_next: "rest s = c # d # r \<Longrightarrow> peek (Suc 0) k s = k d s"
proof -
  assume "rest s = c # d # r"
  then have d: "drop (Suc (cur s)) (buf s) = d # r" by (simp add: rest_def drop_Suc flip: tl_drop)
  then have "Suc (cur s) < length (buf s)" by (metis drop_all leI list.discI)
  with nth_via_drop [OF d] show ?thesis by (simp add: peek_def)
qed

lemma run_str_at: "rest s \<noteq> [] \<Longrightarrow> str_at (cur s) k s = k (rest s) s"
  by (auto simp: str_at_def rest_def)

lemma run_skip_digits:
  "rest s \<noteq> [] \<Longrightarrow> skip_digits k s = k (s\<lparr>cur := cur s + length (takeWhile c_isdigit (rest s))\<rparr>)"
  by (simp add: skip_digits_def gets_def run_str_at advance_def upd_def)

lemma read_digits:
  assumes "rest s = show_nat n @ r" and "r = [] \<or> \<not> c_isdigit (hd r)"
  shows "cpp_demangle_read_number s = Ok (Some (min LONG_MAX (int n))) (s\<lparr>cur := cur s + length (show_nat n)\<rparr>)"
proof -
  obtain c cs where c: "show_nat n = c # cs" "c_isdigit c"
    using show_nat_digits [of n] by (cases "show_nat n") auto
  have ne: "rest s \<noteq> []" using assms(1) by simp
  have p: "peek 0 k s = k c s" for k :: "char \<Rightarrow> 'b D"
    using assms(1) c(1) by (intro run_peek) simp
  show ?thesis
    using digit_not_sign [OF c(2)] c(2) ne strtol_show_nat [OF assms(2), of n] takeWhile_show_nat [OF assms(2), of n]
    by (simp add: cpp_demangle_read_number_def p run_rules run_str_at run_skip_digits advance_def assms(1)
        Let_def LONG_MAX_def)
qed

section \<open>Properties\<close>

text \<open>
  Round trip of numbers: at the decimal digits of \<open>n\<close>, followed by anything that is not a
  digit, \<open>cpp_demangle_read_number\<close> returns \<open>n\<close> (or \<open>LONG_MAX\<close> if it does not fit) and
  moves the cursor behind the digits; with the prefix \<open>n\<close> it returns the negated value.
\<close>

theorem read_number_show_nat:
  assumes "rest s = (if neg then ''n'' else []) @ show_nat n @ r" and "r = [] \<or> \<not> c_isdigit (hd r)"
  shows "cpp_demangle_read_number s =
     Ok (Some ((if neg then - 1 else 1) * min LONG_MAX (int n)))
       (s\<lparr>cur := cur s + (if neg then 1 else 0) + length (show_nat n)\<rparr>)"
proof (cases neg)
  case False
  with read_digits assms show ?thesis by simp
next
  case True
  let ?s = "s\<lparr>cur := Suc (cur s)\<rparr>"
  obtain c cs where c: "show_nat n = c # cs" "c_isdigit c"
    using show_nat_digits [of n] by (cases "show_nat n") auto
  have r: "rest ?s = show_nat n @ r" using assms(1) True by simp
  have p: "peek 0 k s = k (CHR ''n'') s" for k :: "char \<Rightarrow> 'b D"
    using assms(1) True by (intro run_peek) simp
  have p': "peek 0 k ?s = k c ?s" for k :: "char \<Rightarrow> 'b D"
    using r c(1) by (intro run_peek) simp
  have q: "str_at (Suc (cur s)) k ?s = k (show_nat n @ r) ?s" for k :: "string \<Rightarrow> 'b D"
    using run_str_at [of ?s k] r by simp
  have q': "skip_digits k ?s = k (?s\<lparr>cur := Suc (cur s) + length (takeWhile c_isdigit (show_nat n @ r))\<rparr>)" for k :: "'b D"
    using run_skip_digits [of ?s k] r by simp
  show ?thesis
    using True digit_not_sign [OF c(2)] c(2) r strtol_show_nat [OF assms(2), of n] takeWhile_show_nat [OF assms(2), of n]
    by (simp add: cpp_demangle_read_number_def p p' q q' run_rules advance_def Let_def LONG_MAX_def)
qed

theorem read_number_show_nat_witness:
  "cpp_demangle_read_number ((initial_dd h0)\<lparr>buf := ''n24_'', cur := 0\<rparr>)
     = Ok (Some (- 24)) ((initial_dd h0)\<lparr>buf := ''n24_'', cur := 3\<rparr>)"
  using read_number_show_nat [of "(initial_dd h0)\<lparr>buf := ''n24_'', cur := 0\<rparr>" True 24 "''_''"]
  by (simp add: rest_def show_nat.simps c_isdigit_def LONG_MAX_def)

end
