(* ===== verification/Demangle_Triples.thy ===== *)
theory Demangle_Triples
  imports Numbers Demangle_Fuel
begin

text \<open>
  Total-correctness triples for the reader, in fault-free runs where memory is available:
  \<open>does m k es R s\<close> says that \<open>m\<close>, run from \<open>s\<close>, returns, has read \<open>k\<close> characters and
  had the effects \<open>es\<close> on the output and on the substitutions, and that its result and state satisfy \<open>R\<close>. The
  rules of the primitives, of pushing and of the qualifiers are here; \<open>Demangle_Names\<close>,
  \<open>Demangle_Types\<close> and \<open>Demangle_Roundtrip\<close> build on them.
\<close>

section \<open>Triples\<close>

definition ok :: "dd \<Rightarrow> bool" where
  "ok s \<longleftrightarrow> all_ok s \<and> wf_dd s \<and> 0 < vs_capacity (output_v s) \<and> 0 < vs_capacity (subst s)
     \<and> cur_output s = V_output \<and> push_qualifier s = PUSH_ALL_QUALIFIER \<and> \<not> is_tmpl s \<and> frames s = []
     \<and> freed s = [] \<and> \<not> mem_rst s \<and> \<not> mem_vat s \<and> \<not> mem_cst s \<and> \<not> mem_ref s \<and> \<not> mem_rref s"

text \<open>An effect: a string pushed onto the output, or a candidate for a substitution.\<close>

datatype effect = Out string | Sub string

fun outs :: "effect list \<Rightarrow> string list" where
  "outs [] = []"
| "outs (Out x # es) = x # outs es"
| "outs (Sub x # es) = outs es"

text \<open>A candidate is recorded unless an earlier one begins with it.\<close>

definition record_in :: "string list \<Rightarrow> string \<Rightarrow> string list" where
  "record_in D x = (if list_ex (\<lambda>d. strncmp_eq d x (length x)) D then D else D @ [x])"

fun recorded :: "string list \<Rightarrow> effect list \<Rightarrow> string list" where
  "recorded D [] = D"
| "recorded D (Out x # es) = recorded D es"
| "recorded D (Sub x # es) = recorded (record_in D x) es"

fun subs :: "effect list \<Rightarrow> string list" where
  "subs [] = []"
| "subs (Out x # es) = subs es"
| "subs (Sub x # es) = x # subs es"

lemma subs_append [simp]: "subs (xs @ ys) = subs xs @ subs ys"
  by (induction xs rule: subs.induct) simp_all

lemma recorded_subs: "recorded D es = foldl record_in D (subs es)"
  by (induction D es rule: recorded.induct) simp_all

lemma outs_append [simp]: "outs (xs @ ys) = outs xs @ outs ys"
  by (induction xs rule: outs.induct) simp_all

lemma recorded_append [simp]: "recorded D (xs @ ys) = recorded (recorded D xs) ys"
  by (induction D xs rule: recorded.induct) simp_all

definition dict :: "dd \<Rightarrow> string list" where
  "dict s = vs_texts (subst s)"

lemma dict_simps [simp]: "dict (s\<lparr>brk := i\<rparr>) = dict s" "dict (s\<lparr>cur := j\<rparr>) = dict s" "dict (s\<lparr>output_v := v\<rparr>) = dict s"
    "dict (s\<lparr>is_tmpl := b\<rparr>) = dict s" "dict (s\<lparr>last_sname := l\<rparr>) = dict s" "dict (s\<lparr>ref_qualifier := b\<rparr>) = dict s"
    "dict (s\<lparr>ref_qualifier_type := q\<rparr>) = dict s" "dict (s\<lparr>subst := v\<rparr>) = vs_texts v"
  by (simp_all add: dict_def)

definition moves :: "nat \<Rightarrow> effect list \<Rightarrow> dd \<Rightarrow> dd \<Rightarrow> bool" where
  "moves k es s t \<longleftrightarrow> ok t \<and> buf t = buf s \<and> cur t = cur s + k
     \<and> vs_texts (output_v t) = vs_texts (output_v s) @ outs es \<and> dict t = recorded (dict s) es \<and> cmd t = cmd s
     \<and> (ref_qualifier t \<longrightarrow> ref_qualifier s)"

definition does :: "'a D \<Rightarrow> nat \<Rightarrow> effect list \<Rightarrow> ('a \<Rightarrow> dd \<Rightarrow> bool) \<Rightarrow> dd \<Rightarrow> bool" where
  "does m k es R s \<longleftrightarrow> wp m (\<lambda>_. False) (\<lambda>x t. moves k es s t \<and> R x t) s"

lemma okD:
  assumes "ok s"
  shows "all_ok s" "wf_dd s" "0 < vs_capacity (output_v s)" "0 < vs_capacity (subst s)" "cur_output s = V_output"
    "push_qualifier s = PUSH_ALL_QUALIFIER" "\<not> is_tmpl s" "frames s = []" "vs_fit (output_v s)" "vs_fit (subst s)"
    "freed s = []"
  using assms by (auto simp: ok_def wf_dd_def)

lemma moves_ok: "moves k es s t \<Longrightarrow> ok t"
  by (simp add: moves_def)

lemma moves_rest: "moves k es s t \<Longrightarrow> rest t = drop k (rest s)"
  by (simp add: moves_def rest_def add.commute)

lemma moves_size: "moves k es s t \<Longrightarrow> vs_size (output_v t) = vs_size (output_v s) + length (outs es)"
  by (metis length_append length_map moves_def vs_size_def vs_texts_def)

lemma moves_refl: "ok s \<Longrightarrow> moves 0 [] s s"
  by (simp add: moves_def)

lemma moves_trans: "moves k xs s t \<Longrightarrow> moves l ys t u \<Longrightarrow> moves (k + l) (xs @ ys) s u"
  by (simp add: moves_def)

lemma does_cong: "does m k xs R s \<Longrightarrow> k = l \<Longrightarrow> xs = ys \<Longrightarrow> does m l ys R s"
  by simp

lemma does_conseq: "does m k xs R s \<Longrightarrow> (\<And>x t. moves k xs s t \<Longrightarrow> R x t \<Longrightarrow> Q x t) \<Longrightarrow> does m k xs Q s"
  unfolding does_def by (auto elim!: wp_mono)

lemma does_ret: "ok s \<Longrightarrow> R x s \<Longrightarrow> does (ret x) 0 [] R s"
  by (simp add: does_def wp_ret moves_refl)

lemma does_bind:
  assumes m: "does m k xs R s" and f: "\<And>x t. moves k xs s t \<Longrightarrow> R x t \<Longrightarrow> does (f x) l ys Q t"
    and eqs: "n = k + l" "zs = xs @ ys"
  shows "does (bind m f) n zs Q s"
  unfolding does_def wp_bind eqs
proof (rule wp_mono [OF m [unfolded does_def]])
  fix x t assume "moves k xs s t \<and> R x t"
  then show "wp (f x) (\<lambda>_. False) (\<lambda>x u. moves (k + l) (xs @ ys) s u \<and> Q x u) t"
    using f [of t x] moves_trans [of k xs s t] unfolding does_def by (auto elim!: wp_mono)
qed

lemma does_check:
  assumes "does m k xs (\<lambda>b t. b) s" and "\<And>t. moves k xs s t \<Longrightarrow> does m' l ys Q t" and "n = k + l" and "zs = xs @ ys"
  shows "does (check m m') n zs Q s"
  unfolding check_def by (rule does_bind [OF assms(1) _ assms(3,4)]) (use assms(2) in simp)

lemma does_checkx:
  assumes "does m k xs (\<lambda>b t. b) s" and "\<And>t. moves k xs s t \<Longrightarrow> does m' l ys Q t" and "n = k + l" and "zs = xs @ ys"
  shows "does (checkx x m m') n zs Q s"
  unfolding checkx_def by (rule does_bind [OF assms(1) _ assms(3,4)]) (use assms(2) in simp)

lemma checkx_ret: "checkx x (ret True) m = m"
  by (simp add: checkx_def bind_def ret_def)

lemma does_check_some:
  assumes "does m k xs (\<lambda>x t. x \<noteq> None \<and> P (the x)) s"
    and "\<And>x t. P x \<Longrightarrow> moves k xs s t \<Longrightarrow> does (f x) l ys Q t" and "n = k + l" and "zs = xs @ ys"
  shows "does (check_some m f) n zs Q s"
  unfolding check_some_def by (rule does_bind [OF assms(1) _ assms(3,4)]) (use assms(2) in auto)

text \<open>The same when the first part reads nothing, or when the second does.\<close>

lemmas does_bind0 = does_bind [where k = 0 and xs = "[]", OF _ _ add_0 [symmetric] append_Nil [symmetric]]
lemmas does_check0 = does_check [where k = 0 and xs = "[]", OF _ _ add_0 [symmetric] append_Nil [symmetric]]
lemmas does_check_some0 = does_check_some [where k = 0 and xs = "[]", OF _ _ add_0 [symmetric] append_Nil [symmetric]]
lemmas does_bind1 = does_bind [where l = 0 and ys = "[]", OF _ _ add_0_right [symmetric] append_Nil2 [symmetric]]
lemmas does_check1 = does_check [where l = 0 and ys = "[]", OF _ _ add_0_right [symmetric] append_Nil2 [symmetric]]

lemma does_check_out:
  "does m 0 [x] (\<lambda>b t. b) s \<Longrightarrow> (\<And>t. moves 0 [x] s t \<Longrightarrow> does m' l ys Q t) \<Longrightarrow> does (check m m') l (x # ys) Q s"
  by (rule does_check) auto

lemma does_gets: "does (f (g s)) k xs R s \<Longrightarrow> does (gets g f) k xs R s"
  by (simp add: does_def wp_gets)

lemma does_upd:
  assumes "moves 0 [] s (f s)" and "does m k xs R (f s)"
  shows "does (upd f m) k xs R s"
  using assms moves_trans [OF assms(1)] unfolding does_def wp_upd by (auto elim!: wp_mono)

lemma ok_cur [simp]: "ok (s\<lparr>cur := i\<rparr>) = ok s"
  by (simp add: ok_def all_ok_def)

lemma ok_brk [simp]: "ok (s\<lparr>brk := i\<rparr>) = ok s"
  by (simp add: ok_def)

lemma moves_brk: "ok s \<Longrightarrow> moves 0 [] s (s\<lparr>brk := i\<rparr>)"
  by (simp add: moves_def)

lemma does_advance:
  assumes "ok s" and "does m k xs R (s\<lparr>cur := cur s + n\<rparr>)" and "l = n + k"
  shows "does (advance n m) l xs R s"
proof -
  have "moves n [] s (s\<lparr>cur := cur s + n\<rparr>)" using assms(1) by (simp add: moves_def)
  from moves_trans [OF this] assms(2,3) show ?thesis
    unfolding does_def advance_def wp_upd by (auto elim!: wp_mono)
qed

lemma does_advance_ret: "ok s \<Longrightarrow> R x (s\<lparr>cur := cur s + n\<rparr>) \<Longrightarrow> does (advance n (ret x)) n [] R s"
  by (rule does_advance [OF _ does_ret]) auto

lemma does_peek: "rest s = c # r \<Longrightarrow> does (f c) k xs R s \<Longrightarrow> does (peek 0 f) k xs R s"
  by (simp add: does_def wp_def run_peek)

lemma does_peek_next: "rest s = c # d # r \<Longrightarrow> does (f d) k xs R s \<Longrightarrow> does (peek (Suc 0) f) k xs R s"
  by (simp add: does_def wp_def run_peek_next)

lemma does_peek_end: "rest s = [] \<Longrightarrow> cur s = length (buf s) \<Longrightarrow> does (f NUL) k xs R s \<Longrightarrow> does (peek 0 f) k xs R s"
  by (simp add: does_def wp_def run_peek_end)

lemma does_str_at: "rest s \<noteq> [] \<Longrightarrow> does (f (rest s)) k xs R s \<Longrightarrow> does (str_at (cur s) f) k xs R s"
  by (simp add: does_def wp_def run_str_at)

lemma does_with_output: "ok s \<Longrightarrow> does (f (output_v s)) k xs R s \<Longrightarrow> does (with_vec V_output f) k xs R s"
  by (simp add: does_def wp_def with_vec_def vget_def)

section \<open>Pushing\<close>

lemma does_run: "m s = Ok x t \<Longrightarrow> moves k xs s t \<Longrightarrow> R x t \<Longrightarrow> does m k xs R s"
  by (simp add: does_def wp_def)

lemma does_push_str:
  assumes "ok s" and "0 < len"
  shows "does (cpp_demangle_push_str (Chars str) len) 0 [Out (take len str)] (\<lambda>b t. b) s"
proof -
  let ?s = "s\<lparr>is_tmpl := False\<rparr>"
  have "all_ok ?s" using okD(1) [OF assms(1)] by (simp add: all_ok_def)
  then obtain v i where v: "vector_str_push (output_v s) (Chars str) len ?s = Ok (True, v) (?s\<lparr>brk := i\<rparr>)"
    "vs_texts v = vs_texts (output_v s) @ [take len str]" "vs_fit v" "vs_capacity (output_v s) \<le> vs_capacity v"
    using vector_str_push_ok [of "output_v s" ?s] okD [OF assms(1)] by blast
  have "cpp_demangle_push_str (Chars str) len s = Ok True (?s\<lparr>brk := i, output_v := v\<rparr>)"
    using assms(2) v(1) okD(5) [OF assms(1)]
    by (simp add: cpp_demangle_push_str_def run_rules on_vec_def with_vec_def vget_def vput_def)
  then show ?thesis
    using assms(1) v(2-4) by (auto intro!: does_run simp: moves_def ok_def wf_dd_def all_ok_def)
qed

lemma does_DEM_PUSH_STR: "ok s \<Longrightarrow> str \<noteq> [] \<Longrightarrow> does (DEM_PUSH_STR str) 0 [Out str] (\<lambda>b t. b) s"
  using does_push_str [of s "length str" str] by (simp add: DEM_PUSH_STR_def)

text \<open>Local vectors.\<close>

definition full :: "vector_str \<Rightarrow> bool" where
  "full w \<longleftrightarrow> vs_fit w \<and> 0 < vs_capacity w"

lemma does_init: "ok s \<Longrightarrow> does vector_str_init 0 [] (\<lambda>x t. x \<noteq> None \<and> full (the x) \<and> vs_texts (the x) = []) s"
  by (rule does_run [OF vector_str_init_ok]) (auto simp: okD moves_brk full_def)

lemma does_vector_str_push:
  assumes "ok s" and "full w"
  shows "does (vector_str_push w (Chars str) len) 0 []
    (\<lambda>x t. fst x \<and> full (snd x) \<and> vs_texts (snd x) = vs_texts w @ [take len str]) s"
proof -
  obtain v i where "vector_str_push w (Chars str) len s = Ok (True, v) (s\<lparr>brk := i\<rparr>)"
    "vs_texts v = vs_texts w @ [take len str]" "vs_fit v" "vs_capacity w \<le> vs_capacity v"
    using vector_str_push_ok [of w s] assms okD(1) unfolding full_def by blast
  with assms show ?thesis by (auto intro!: does_run moves_brk simp: full_def)
qed

lemma does_VEC_PUSH_STR:
  assumes "ok s" and "full w"
  shows "does (VEC_PUSH_STR w (Chars str)) 0 []
    (\<lambda>x t. fst x \<and> full (snd x) \<and> vs_texts (snd x) = vs_texts w @ [str]) s"
  using does_vector_str_push [OF assms, of str "length str"] by (simp add: VEC_PUSH_STR_def c_strlen_def)

lemma list_ex_texts: "list_ex (\<lambda>x. P (snd x)) (vs_container v) = list_ex P (vs_texts v)"
  by (simp add: vs_texts_def list_ex_iff)

lemma does_push_subst:
  assumes "ok s" and "str \<noteq> []"
  shows "does (cpp_demangle_push_subst (Chars str) (length str)) 0 [Sub str] (\<lambda>b t. b) s"
proof -
  obtain v i where v: "vector_str_push (subst s) (Chars str) (length str) s = Ok (True, v) (s\<lparr>brk := i\<rparr>)"
    "vs_fit v" "vs_capacity (subst s) \<le> vs_capacity v" "vs_texts v = vs_texts (subst s) @ [str]"
    using vector_str_push_ok [of "subst s" s str "length str"] okD [OF assms(1)] by auto
  note texts = list_ex_texts [of "\<lambda>d. strncmp_eq d str (length str)" "subst s"]
  show ?thesis
  proof (cases "list_ex (\<lambda>x. strncmp_eq (snd x) str (length str)) (vs_container (subst s))")
    case True
    then have "cpp_demangle_push_subst (Chars str) (length str) s = Ok True s"
      using assms(2) by (simp add: cpp_demangle_push_subst_def vector_str_find_def run_rules)
    then show ?thesis using assms(1) True by (auto intro!: does_run simp: moves_def record_in_def texts [symmetric] dict_def)
  next
    case False
    then have "cpp_demangle_push_subst (Chars str) (length str) s = Ok True (s\<lparr>brk := i, subst := v\<rparr>)"
      using assms(2) v(1) by (simp add: cpp_demangle_push_subst_def vector_str_find_def on_subst_def run_rules)
    then show ?thesis using assms(1) v(2,3,4) False
      by (auto intro!: does_run simp: moves_def ok_def wf_dd_def all_ok_def record_in_def texts [symmetric] dict_def)
  qed
qed

lemma does_push_subst_v:
  assumes "ok s" and "concat (vs_texts w) \<noteq> []"
  shows "does (cpp_demangle_push_subst_v w) 0 [Sub (concat (vs_texts w))] (\<lambda>b t. b) s"
proof -
  have "vs_size w \<noteq> 0" using assms(2) by (auto simp: vs_size_def vs_texts_def)
  then have flat: "vector_str_get_flat w s
      = Ok (Some (concat (vs_texts w), length (concat (vs_texts w)))) (s\<lparr>brk := Suc (brk s)\<rparr>)"
    using assms okD(1) [OF assms(1)]
    by (simp add: vector_str_get_flat_def get_strlen_sum_def c_assert_def sum_strlen_concat bind_def ret_def malloc_ok
        flip: vs_texts_def)
  then have "does (vector_str_get_flat w) 0 []
      (\<lambda>x t. x \<noteq> None \<and> the x = (concat (vs_texts w), length (concat (vs_texts w)))) s"
    using assms(1) by (auto intro!: does_run moves_brk)
  then show ?thesis
    unfolding cpp_demangle_push_subst_v_def
    by (rule does_check_some [where l = 0 and ys = "[Sub (concat (vs_texts w))]"])
      (use assms(2) in \<open>auto dest!: moves_ok intro!: does_push_subst simp del: concat_eq_Nil_conv\<close>)
qed

section \<open>Qualifiers\<close>

fun qual_text :: "type_qualifier \<Rightarrow> string" where
  "qual_text TYPE_PTR = ''*''"
| "qual_text TYPE_REF = ''&''"
| "qual_text TYPE_RREF = ''&&''"
| "qual_text TYPE_CMX = '' complex''"
| "qual_text TYPE_IMG = '' imaginary''"
| "qual_text TYPE_RST = '' restrict''"
| "qual_text TYPE_VAT = '' volatile''"
| "qual_text TYPE_CST = '' const''"
| "qual_text TYPE_EXT = []"
| "qual_text TYPE_VEC = []"

definition simple :: "type_qualifier \<Rightarrow> bool" where
  "simple q \<longleftrightarrow> q \<noteq> TYPE_EXT \<and> q \<noteq> TYPE_VEC"

lemma qual_text_nonempty: "simple q \<Longrightarrow> qual_text q \<noteq> []"
  by (cases q) (auto simp: simple_def)

definition named :: "vector_str \<Rightarrow> string \<Rightarrow> bool" where
  "named w x \<longleftrightarrow> full w \<and> concat (vs_texts w) = x \<and> x \<noteq> []"

text \<open>
  The effects of the qualifiers \<open>qs\<close>, innermost first, on the type \<open>x\<close>: each is pushed, and each qualified type is a
  candidate, except inside a group of \<open>const\<close>, \<open>volatile\<close> and \<open>restrict\<close>.
\<close>

fun qual_effects :: "string \<Rightarrow> type_qualifier list \<Rightarrow> effect list" where
  "qual_effects x [] = []"
| "qual_effects x (q # qs) = Out (qual_text q)
     # (if is_cv q \<and> qs \<noteq> [] \<and> is_cv (hd qs) then [] else [Sub (x @ qual_text q)]) @ qual_effects (x @ qual_text q) qs"

lemma does_push_qual_str:
  assumes "ok s" and "str \<noteq> []" and "named w x"
    and k: "\<And>t w. ok t \<Longrightarrow> named w (x @ str) \<Longrightarrow> does (k (Some w)) 0 ys (\<lambda>b t. b) t"
  shows "does (push_qual_str str hold (Some w) k) 0 (Out str # (if hold then [] else [Sub (x @ str)]) @ ys) (\<lambda>b t. b) s"
  unfolding push_qual_str_def
proof (rule does_check_out [OF does_DEM_PUSH_STR [OF assms(1,2)]])
  fix t assume "moves 0 [Out str] s t"
  then have t: "ok t" by (rule moves_ok)
  have next_q: "does (if hold then k (Some w') else check (cpp_demangle_push_subst_v w') (k (Some w'))) 0
      ((if hold then [] else [Sub (x @ str)]) @ ys) (\<lambda>b t. b) u"
    if "ok u" "named w' (x @ str)" for u w'
  proof (cases hold)
    case True
    then show ?thesis using that k by simp
  next
    case False
    have "does (cpp_demangle_push_subst_v w') 0 [Sub (x @ str)] (\<lambda>b t. b) u"
      using does_push_subst_v [OF that(1), of w'] that(2) unfolding named_def by (metis append_is_Nil_conv)
    then show ?thesis using False k that(2) by (auto intro!: does_check_out dest: moves_ok)
  qed
  show "does (case Some w of None \<Rightarrow> k None | Some w \<Rightarrow> bind (VEC_PUSH_STR w (Chars str)) (\<lambda>(ok, w').
       if \<not> ok then ret False else if hold then k (Some w') else check (cpp_demangle_push_subst_v w') (k (Some w'))))
     0 ((if hold then [] else [Sub (x @ str)]) @ ys) (\<lambda>b t. b) t"
    unfolding option.case
  proof (rule does_bind0 [OF does_VEC_PUSH_STR [OF t]], goal_cases)
    case 1
    show ?case using assms(3) by (simp add: named_def)
  next
    case (2 y u)
    then obtain w' where "y = (True, w')" "named w' (x @ str)" using assms(3) by (cases y) (auto simp: named_def)
    with next_q [OF moves_ok [OF 2(1)]] show ?case by simp
  qed
qed

lemma does_push_quals:
  assumes "list_all simple ts" and "ok s" and "named w x"
  shows "does (push_quals ext ts cv e (Some w)) 0 (qual_effects x ts) (\<lambda>b t. b) s"
  using assms
proof (induction ts arbitrary: s w x cv)
  case Nil
  then show ?case by (simp add: does_ret)
next
  case (Cons q ts)
  have k: "does (push_quals ext ts cv e (Some w')) 0 (qual_effects (x @ qual_text q) ts) (\<lambda>b t. b) t"
    if "ok t" "named w' (x @ qual_text q)" for t w' cv
    using Cons that by simp
  have q: "qual_text q \<noteq> []" and "simple q" using Cons.prems(1) qual_text_nonempty by auto
  have "does (push_qual_str (qual_text q) (is_cv q \<and> ts \<noteq> [] \<and> is_cv (hd ts)) (Some w) (push_quals ext ts cv' e)) 0
      (qual_effects x (q # ts)) (\<lambda>b t. b) s" for cv'
    unfolding qual_effects.simps by (rule does_push_qual_str [OF Cons.prems(2) q Cons.prems(3)], rule k)
  with \<open>simple q\<close> okD(6) [OF Cons.prems(2)] show ?case
    by (cases q) (auto simp: simple_def push_qual_noncv_def push_qual_cv_def Let_def is_cv_def intro!: does_gets)
qed

lemma does_push_type_qualifier:
  assumes "ok s" and "list_all simple (vq_container v)" and "txt \<noteq> []"
  shows "does (cpp_demangle_push_type_qualifier v (Some (Chars txt))) 0 (qual_effects txt (rev (vq_container v))) (\<lambda>b t. b) s"
proof (cases "vq_container v = []")
  case True
  then show ?thesis
    using assms(1) by (simp add: cpp_demangle_push_type_qualifier_def vq_size_def does_ret)
next
  case False
  have push: "does (bind (VEC_PUSH_STR w (Chars txt)) (\<lambda>(ok, w'). if \<not> ok then ret False
      else push_quals (ext_name v) (rev (vq_container v)) True 0 (Some w'))) 0
      (qual_effects txt (rev (vq_container v))) (\<lambda>b t. b) t" if "ok t" "full w" "vs_texts w = []" for t w
    using that assms(2,3)
    by (intro does_bind0 [OF does_VEC_PUSH_STR]) (auto simp: named_def split: prod.split intro!: does_push_quals dest: moves_ok)
  show ?thesis
    unfolding cpp_demangle_push_type_qualifier_def option.case
    using False assms(1)
    by (auto simp: vq_size_def intro!: does_check_some0 [OF does_init] push dest: moves_ok)
qed

lemma does_dest: "ok s \<Longrightarrow> does (vector_type_qualifier_dest v) 0 [] (\<lambda>_ _. True) s"
  by (rule does_run [of _ _ "()" s])
    (auto simp: vector_type_qualifier_dest_def vector_str_dest_def okD moves_refl list_ex_iff)

lemma does_substr:
  assumes "ok s" and "i < vs_size (output_v s)" and "vs_size (output_v s) \<le> SIZE_MAX"
    and "txt = concat (drop i (vs_texts (output_v s)))"
  shows "does (substr_from (output_v s) i) 0 [] (\<lambda>x t. x = Some (Chars txt, length txt) \<and> output_v t = output_v s) s"
  using assms(1) by (auto intro!: does_run [OF substr_from_ok] moves_brk simp: okD assms)

text \<open>The end of \<open>cpp_demangle_read_type\<close>: the text from \<open>p_idx\<close> on is the unqualified type.\<close>

lemma does_record_subst:
  assumes "ok s" and "tx \<noteq> []"
  shows "does (if builtin then ret True
      else gets subst (\<lambda>sv. bind (vector_str_find sv (Some (Chars tx)) (length tx)) (\<lambda>found.
        if found \<noteq> 0 then ret True else on_subst (\<lambda>sv. vector_str_push sv (Chars tx) (length tx)))))
      0 (if builtin then [] else [Sub tx]) (\<lambda>b t. b) s"
proof (cases builtin)
  case True
  then show ?thesis using assms(1) by (simp add: does_ret)
next
  case False
  have "(gets subst (\<lambda>sv. bind (vector_str_find sv (Some (Chars tx)) (length tx)) (\<lambda>found.
        if found \<noteq> 0 then ret True else on_subst (\<lambda>sv. vector_str_push sv (Chars tx) (length tx))))) s
      = cpp_demangle_push_subst (Chars tx) (length tx) s"
    using assms(2) by (simp add: cpp_demangle_push_subst_def gets_def bind_def vector_str_find_def ret_def)
  then show ?thesis using False does_push_subst [OF assms] by (simp add: does_def wp_def)
qed

lemma does_finish_type:
  assumes "ok s"
  shows "does (bind (vector_type_qualifier_dest v) (\<lambda>_. ret (True, td))) 0 [] (\<lambda>x t. x = (True, td)) s"
  by (rule does_bind [OF does_dest [OF assms] does_ret]) (auto dest: moves_ok)

lemma does_type_rtn:
  assumes "ok s" and "i < vs_size (output_v s)" and "vs_size (output_v s) \<le> SIZE_MAX"
    and ne: "concat (drop i (vs_texts (output_v s))) \<noteq> []" and "list_all simple (vq_container v)"
    and tx_def: "tx = concat (drop i (vs_texts (output_v s)))"
  shows "does (type_rtn td V_output i v builtin False) 0 ((if builtin then [] else [Sub tx]) @ qual_effects tx (rev (vq_container v)))
    (\<lambda>x t. x = (True, clear_firstp td)) s"
proof -
  have "tx \<noteq> []" using ne tx_def by simp
  show ?thesis
    unfolding type_rtn_def
  proof (rule does_with_output [OF assms(1)], rule does_bind [OF does_substr [OF assms(1-3) tx_def],
        where l = 0 and ys = "(if builtin then [] else [Sub tx]) @ qual_effects tx (rev (vq_container v))"], goal_cases)
    case (1 x t)
    then have x: "x = Some (Chars tx, length tx)" and "ok t" by (auto dest: moves_ok)
    show ?case
      unfolding x Let_def option.map option.case fst_conv snd_conv if_False
      using \<open>tx \<noteq> []\<close> assms(5) \<open>ok t\<close>
      by (intro does_checkx [OF does_record_subst] does_checkx [OF does_push_type_qualifier])
        (auto intro!: does_finish_type dest: moves_ok)
  qed simp_all
qed

end
