(* ===== verification/Demangle_Seq.thy ===== *)
theory Demangle_Seq
  imports Demangle_Triples
begin

text \<open>
  Sequence numbers of substitutions: \<open>S_\<close> is the first candidate, \<open>S0_\<close> the second, and so on in base 36.
  \<open>does_subst\<close> says that \<open>cpp_demangle_read_subst\<close> writes the candidate with that number.
\<close>

definition digit36 :: "nat \<Rightarrow> char" where
  "digit36 d = char_of (if d < 10 then 48 + d else 55 + d)"

fun show36 :: "nat \<Rightarrow> string" where
  "show36 n = (if n < 36 then [digit36 n] else show36 (n div 36) @ [digit36 (n mod 36)])"

declare show36.simps [simp del]

definition seq_id :: "nat \<Rightarrow> string" where
  "seq_id i = CHR ''S'' # (if i = 0 then [] else show36 (i - 1)) @ ''_''"

definition is_digit36 :: "char \<Rightarrow> bool" where
  "is_digit36 c \<longleftrightarrow> c_isdigit c \<or> c_isupper c"

lemma of_char_digit36: "d < 36 \<Longrightarrow> of_char (digit36 d) = (if d < 10 then 48 + d else 55 + d :: nat)"
  by (simp add: digit36_def)

lemma digit36_is [simp]: "d < 36 \<Longrightarrow> is_digit36 (digit36 d)"
  by (auto simp: is_digit36_def c_isdigit_def c_isupper_def of_char_digit36)

lemma digit_val_digit36 [simp]: "d < 36 \<Longrightarrow> digit_val 36 (digit36 d) = Some d"
  by (simp add: digit_val_def of_char_digit36 Let_def)

lemma digit36_not:
  assumes "is_digit36 c"
  shows "\<not> c_isspace c" "c \<noteq> CHR ''-''" "c \<noteq> CHR ''+''" "c \<noteq> CHR ''_''" "c \<noteq> NUL" "c \<notin> set ''abcdefghijklmnopqrstuvwxyz''"
  using assms by (auto simp: is_digit36_def c_isdigit_def c_isupper_def c_isspace_def NUL_def)

lemma show36_digits: "list_all is_digit36 (show36 n)"
proof (induction n rule: show36.induct)
  case (1 n)
  then show ?case by (subst show36.simps) auto
qed

lemma show36_Cons: "\<exists>c cs. show36 n = c # cs \<and> is_digit36 c"
proof -
  have "show36 n \<noteq> []" by (subst show36.simps) simp
  then show ?thesis using show36_digits [of n] by (cases "show36 n") auto
qed

lemma digits_val_show36:
  "digits_val 36 acc (show36 n @ r) = digits_val 36 (acc * 36 ^ length (show36 n) + int n) r"
proof (induction n arbitrary: acc r rule: show36.induct)
  case (1 n)
  show ?case
  proof (cases "n < 36")
    case True
    then have "show36 n = [digit36 n]" by (simp add: show36.simps)
    with True show ?thesis by simp
  next
    case False
    then have s: "show36 n = show36 (n div 36) @ [digit36 (n mod 36)]" by (simp add: show36.simps)
    have "int n = int (n div 36) * 36 + int (n mod 36)" by presburger
    then show ?thesis
      using 1 [OF False, of acc "digit36 (n mod 36) # r"] by (simp add: s algebra_simps)
  qed
qed

lemma strtol_show36: "strtol (show36 n @ CHR ''_'' # r) 36 = (min LONG_MAX (int n), False)"
proof -
  obtain c cs where c: "show36 n = c # cs" "is_digit36 c" using show36_Cons by blast
  have "digit_val 36 (CHR ''_'') = None" by (simp add: digit_val_def Let_def)
  then have "digits_val 36 0 (show36 n @ CHR ''_'' # r) = int n"
    using digits_val_show36 [of 0 n "CHR ''_'' # r"] by simp
  then have "digits_val 36 0 (c # cs @ CHR ''_'' # r) = int n" by (simp only: c append_Cons)
  moreover have "digit_val 36 c \<noteq> None"
    using c(2) by (auto simp: is_digit36_def c_isdigit_def c_isupper_def digit_val_def Let_def)
  ultimately show ?thesis
    using c digit36_not [OF c(2)] by (simp add: strtol_def LONG_MAX_def LONG_MIN_def Let_def del: digits_val.simps)
qed

text \<open>A pair of \<open>S\<close> and no small letter is no abbreviation of \<open>std\<close>.\<close>

lemma of_char_int: "of_char c = int (of_char c)"
  by (rule of_nat_of_char [symmetric])

lemma schar_small:
  assumes "of_char c \<le> (b :: nat)"
  shows "schar c \<le> int b"
proof -
  have "of_char c \<le> int b" using assms by (subst of_char_int) simp
  then show ?thesis by (simp add: schar_def Let_def)
qed

lemma hash_find_None: "list_all (\<lambda>(k, x). b \<le> hash_of k) t \<Longrightarrow> h < b \<Longrightarrow> hash_find t h = None"
  unfolding hash_find_def by (induction t) (auto split: option.splits)

definition hash_bound :: int where
  "hash_bound = hash_of ''Sa''"

lemma no_abbrev:
  assumes "c = CHR ''_'' \<or> is_digit36 c"
  shows "hash_find std_abbrevs (SIMPLE_HASH (CHR ''S'') c) = None" "SIMPLE_HASH (CHR ''S'') c \<noteq> hash_of ''St''"
proof -
  have "of_char c \<le> (95 :: nat)" using assms by (auto simp: is_digit36_def c_isdigit_def c_isupper_def)
  then have "schar c \<le> 95" using schar_small [of c 95] by simp
  then have "SIMPLE_HASH (CHR ''S'') c < hash_bound"
    by (simp add: hash_bound_def hash_of_def SIMPLE_HASH_def schar_def)
  moreover have "list_all (\<lambda>(k, x). hash_bound \<le> hash_of k) std_abbrevs" "hash_bound < hash_of ''St''"
    by (simp_all add: hash_bound_def std_abbrevs_def hash_of_def SIMPLE_HASH_def schar_def)
  ultimately show "hash_find std_abbrevs (SIMPLE_HASH (CHR ''S'') c) = None" "SIMPLE_HASH (CHR ''S'') c \<noteq> hash_of ''St''"
    using hash_find_None by fastforce+
qed

section \<open>Reading a substitution\<close>

text \<open>The candidate number \<open>i\<close> has the text \<open>tx\<close>.\<close>

definition known :: "nat \<Rightarrow> string \<Rightarrow> dd \<Rightarrow> bool" where
  "known i tx s \<longleftrightarrow> i < length (dict s) \<and> dict s ! i = tx \<and> tx \<noteq> [] \<and> int i < LONG_MAX"

lemma recorded_mono: "\<exists>ys. recorded D es = D @ ys"
proof (induction D es rule: recorded.induct)
  case (3 D x es)
  then show ?case by (auto simp: record_in_def split: if_splits)
qed auto

lemma known_moves: "known i tx s \<Longrightarrow> moves k es s t \<Longrightarrow> known i tx t"
  using recorded_mono [of "dict s" es] by (auto simp: known_def moves_def nth_append)

lemma does_get_subst:
  assumes "ok s" and "known i tx s" and "rest s = CHR ''_'' # r"
  shows "does (cpp_demangle_get_subst i) 1 [Out tx] (\<lambda>b t. b) s"
proof -
  have "\<not> vs_size (subst s) \<le> i" and tx: "snd (vs_container (subst s) ! i) = tx" "tx \<noteq> []"
    using assms(2) by (auto simp: known_def dict_def vs_texts_def vs_size_def)
  moreover have "does (check (cpp_demangle_push_str (Chars tx) (length tx)) (advance 1 (ret True))) 1 [Out tx] (\<lambda>b t. b) s"
    using does_push_str [OF assms(1), of "length tx" tx] tx(2)
    by (intro does_check [where l = 1 and ys = "[]"]) (auto intro!: does_advance_ret dest: moves_ok)
  ultimately show ?thesis
    unfolding cpp_demangle_get_subst_def by (intro does_gets) (simp add: Let_def)
qed

lemma does_seq_id:
  assumes "ok s" and "known (Suc i) tx s" and r: "rest s = show36 i @ CHR ''_'' # r"
  shows "does (read_seq_id cpp_demangle_get_subst) (length (show36 i) + 1) [Out tx] (\<lambda>b t. b) s"
proof -
  let ?str = "show36 i @ CHR ''_'' # r" and ?t = "s\<lparr>cur := cur s + length (show36 i)\<rparr>"
  have i: "int i < LONG_MAX" "min LONG_MAX (int i) = int i" using assms(2) by (auto simp: known_def)
  have no: "\<forall>x\<in>set (show36 i). x \<noteq> CHR ''_''" using show36_digits [of i] digit36_not(4) by (auto simp: list_all_iff)
  then have tw: "takeWhile (\<lambda>x. x \<noteq> CHR ''_'') ?str = show36 i" by (subst takeWhile_append2) auto
  have "does (cpp_demangle_get_subst (Suc i)) 1 [Out tx] (\<lambda>b t. b) ?t"
    using assms by (intro does_get_subst) (auto simp: known_def)
  then have "does (advance (length (show36 i)) (cpp_demangle_get_subst (Suc i))) (length (show36 i) + 1) [Out tx] (\<lambda>b t. b) s"
    by (rule does_advance [OF assms(1)]) simp
  moreover have "nat (int i + 1) = Suc i" by simp
  ultimately have "does (skip_until (CHR ''_'') (c_assert (int i + 1 > 0) (cpp_demangle_get_subst (nat (int i + 1)))))
      (length (show36 i) + 1) [Out tx] (\<lambda>b t. b) s"
    unfolding skip_until_def
    by (intro does_gets does_str_at) (simp_all add: r tw c_assert_def)
  then show ?thesis
    unfolding read_seq_id_def using i
    by (intro does_gets does_str_at) (simp_all add: r strtol_show36)
qed

lemma does_subst:
  assumes "ok s" and "known i tx s" and r: "rest s = seq_id i @ r"
  shows "does (cpp_demangle_read_subst rc) (length (seq_id i)) [Out tx] (\<lambda>b t. b) s"
proof -
  let ?t = "s\<lparr>cur := cur s + 1\<rparr>"
  have t: "ok ?t" "known i tx ?t" using assms(1,2) by (auto simp: known_def)
  obtain c cs where c: "rest s = CHR ''S'' # c # cs" "c = CHR ''_'' \<or> is_digit36 c"
    "i = 0 \<Longrightarrow> c = CHR ''_''" "i \<noteq> 0 \<Longrightarrow> c # cs = show36 (i - 1) @ CHR ''_'' # r \<and> is_digit36 c"
    using r show36_Cons [of "i - 1"] by (cases "i = 0") (auto simp: seq_id_def)
  have body: "does (if c = CHR ''_'' then cpp_demangle_get_subst 0 else read_seq_id cpp_demangle_get_subst) (length (seq_id i) - 1) [Out tx]
      (\<lambda>b t. b) ?t"
  proof (cases i)
    case 0
    with c have "rest ?t = CHR ''_'' # cs" by simp
    with does_get_subst [OF t(1), of 0 tx] 0 c(3) t(2) show ?thesis by (simp add: seq_id_def)
  next
    case (Suc j)
    with c(1,4) have "rest ?t = show36 j @ CHR ''_'' # r" "is_digit36 c" by simp_all
    with does_seq_id [OF t(1), of j tx r] Suc t(2) digit36_not(4) [of c] show ?thesis by (auto simp: seq_id_def)
  qed
  have "c \<noteq> NUL" "c_isdigit c \<or> c_isupper c \<or> c = CHR ''_''" using c(2) digit36_not(5) by (auto simp: is_digit36_def NUL_def)
  then have inner: "does (peek 0 (\<lambda>c. if c = NUL then ret False
      else if \<not> c_isdigit c \<and> \<not> c_isupper c \<and> c \<noteq> CHR ''_'' then advance 1 (ret True)
      else if c = CHR ''_'' then cpp_demangle_get_subst 0 else read_seq_id cpp_demangle_get_subst)) (length (seq_id i) - 1) [Out tx]
      (\<lambda>b t. b) ?t"
    using body by (intro does_peek [of ?t c cs]) (auto simp: c(1))
  show ?thesis
    unfolding cpp_demangle_read_subst_def
  proof (rule does_peek [OF c(1)], simp add: NUL_def, rule does_peek_next [OF c(1)], goal_cases)
    case 1
    show ?case
      using inner by (simp add: no_abbrev [OF c(2)] Let_def) (rule does_advance [OF assms(1)], auto simp: seq_id_def)
  qed
qed

end
