(* ===== verification/Demangle_Names.thy ===== *)
theory Demangle_Names
  imports Demangle_Seq
begin

text \<open>
  Source names and nested names: a name is a list of identifiers, \<open>mangle_path\<close> its mangled form
  and \<open>scoped\<close> its text, and \<open>does_name\<close> says that \<open>cpp_demangle_read_name\<close> turns the one into
  the other.
\<close>

definition valid_id :: "string \<Rightarrow> bool" where
  "valid_id n \<longleftrightarrow> n \<noteq> [] \<and> NUL \<notin> set n \<and> \<not> c_isdigit (hd n) \<and> int (length n) < LONG_MAX \<and> n \<noteq> ''_GLOBAL__N_1''"

definition mangle_id :: "string \<Rightarrow> string" where
  "mangle_id n = show_nat (length n) @ n"

lemma mangle_id_Cons: "\<exists>c r. mangle_id n = c # r \<and> c_isdigit c"
  using hd_show_nat [of "length n"] by (cases "show_nat (length n)") (auto simp: mangle_id_def)

lemma run_memcmp:
  "length str \<le> length (rest s) \<Longrightarrow> rest s \<noteq> [] \<Longrightarrow> memcmp_cur str k s = k (take (length str) (rest s) = str) s"
  by (auto simp: memcmp_cur_def rest_def)

lemma ok_last_sname [simp]: "ok (s\<lparr>last_sname := x\<rparr>) = ok s"
  by (simp add: ok_def all_ok_def wf_dd_def)

lemma does_set_sname:
  assumes "ok s" and "does m k xs R (s\<lparr>last_sname := x\<rparr>)" and "does m k xs R s"
  shows "does ((if a then upd (\<lambda>s. s\<lparr>last_sname := x\<rparr>) else (\<lambda>k. k)) m) k xs R s"
  using assms by (auto intro!: does_upd simp: moves_def)

lemma does_sname_text:
  assumes "ok s" and "valid_id n" and "rest s = n @ r"
  shows "does ((if int (length n) = 12 then memcmp_cur ''_GLOBAL__N_1'' else (\<lambda>k. k False)) (\<lambda>anon.
      if anon then DEM_PUSH_STR ''(anonymous namespace)''
      else gets cur (\<lambda>i. str_at i (\<lambda>str. cpp_demangle_push_str (Chars str) (length n)))))
     0 [Out n] (\<lambda>b t. b) s"
proof -
  have n: "n \<noteq> []" "n \<noteq> ''_GLOBAL__N_1''" using assms(2) by (auto simp: valid_id_def)
  have "does (gets cur (\<lambda>i. str_at i (\<lambda>str. cpp_demangle_push_str (Chars str) (length n)))) 0 [Out n] (\<lambda>b t. b) s"
    using does_push_str [OF assms(1), of "length n" "n @ r"] n(1) assms(3)
    by (intro does_gets does_str_at) auto
  then show ?thesis
    using n assms(3) by (auto simp: does_def wp_def run_memcmp)
qed

lemma does_read_sname:
  assumes "ok s" and "valid_id n" and "rest s = mangle_id n @ r"
  shows "does cpp_demangle_read_sname (length (mangle_id n)) [Out n] (\<lambda>b t. b) s"
proof -
  let ?k = "length (show_nat (length n))"
  have n: "n \<noteq> []" "\<not> c_isdigit (hd n)" "int (length n) < LONG_MAX"
    using assms(2) by (auto simp: valid_id_def)
  have "cpp_demangle_read_number s = Ok (Some (min LONG_MAX (int (length n)))) (s\<lparr>cur := cur s + ?k\<rparr>)"
    using assms(3) n by (intro read_digits [of _ _ "n @ r"]) (auto simp: mangle_id_def)
  then have num: "does cpp_demangle_read_number ?k [] (\<lambda>x t. x \<noteq> None \<and> the x = int (length n)) s"
    using assms(1) n(3) by (auto intro!: does_run simp: moves_def)
  show ?thesis
    unfolding cpp_demangle_read_sname_def
  proof (rule does_check_some [OF num, of _ "length n" "[Out n]"], goal_cases)
    case (1 x t)
    then have "ok t" and rt: "rest t = n @ r"
      using assms(3) by (auto dest: moves_ok moves_rest simp: mangle_id_def)
    have p: "does (gets cur_output (\<lambda>l. with_vec l (\<lambda>v. c_assert (vs_size v > 0) (
       gets cmd (\<lambda>cs. (if vector_read_cmd_find cs READ_TMPL = None
          then upd (\<lambda>s. s\<lparr>last_sname := Some (Sname_ptr (fst (last (vs_container v))))\<rparr>)
          else (\<lambda>k. k)) (advance (length n) (ret True))))))) (length n) [] (\<lambda>b t. b) u"
      if u: "moves 0 [Out n] t u" for u
    proof -
      have "ok u" and "0 < vs_size (output_v u)" using u moves_size [OF u] by (auto dest: moves_ok)
      then show ?thesis
        by (intro does_gets)
          (auto simp: okD c_assert_def intro!: does_with_output does_gets does_set_sname does_advance_ret)
    qed
    have "\<not> int (length n) \<le> 0" using n(1) by simp
    show ?case
      unfolding 1(1) nat_int if_not_P [OF \<open>\<not> int (length n) \<le> 0\<close>]
      by (rule does_check [OF does_sname_text [OF \<open>ok t\<close> assms(2) rt] p]) auto
  qed (simp_all add: mangle_id_def)
qed

text \<open>A pair of characters that starts with a digit is no operator.\<close>

lemma schar_le: "schar c \<le> 127"
proof -
  have "of_char c \<in> {0..<256 :: nat}" unfolding range_nat_of_char [symmetric] by (rule rangeI)
  then have "of_char c < (256 :: int)" by (subst of_char_int) simp
  then show ?thesis by (simp add: schar_def Let_def)
qed

lemma digit_hash: "c_isdigit c \<Longrightarrow> SIMPLE_HASH c d < 4000"
proof -
  assume "c_isdigit c"
  then have "of_char c \<le> (57 :: nat)" by (simp add: c_isdigit_def)
  then have "schar c \<le> 57" using schar_small [of c 57] by simp
  with schar_le [of d] show ?thesis by (simp add: SIMPLE_HASH_def)
qed

lemma operators_hash: "list_all (\<lambda>(k, x). 4000 \<le> hash_of k) uq_operators"
  by (simp add: uq_operators_def uq_operators1_def uq_operators2_def uq_operators3_def hash_of_def SIMPLE_HASH_def
      schar_def)

lemma digit_not_letter:
  assumes "c_isdigit c"
  shows "c \<notin> set ''ABCDEFGHIJKLMNOPQRSTUVWXYZabcdefghijklmnopqrstuvwxyz_@''" "c \<noteq> NUL"
  using assms by (auto simp: c_isdigit_def NUL_def)

lemma digit_notin: "c_isdigit c \<Longrightarrow> list_all (\<lambda>d. \<not> c_isdigit d) ds \<Longrightarrow> c \<notin> set ds"
  by (auto simp: list_all_iff)

lemma uqname_digit:
  assumes "rest s = c # d # r" and "c_isdigit c"
  shows "cpp_demangle_read_uqname rc s = cpp_demangle_read_sname s"
proof -
  have h: "SIMPLE_HASH c d < 4000" by (rule digit_hash [OF assms(2)])
  have "hash_find uq_operators (SIMPLE_HASH c d) = None" by (rule hash_find_None [OF operators_hash h])
  moreover have "SIMPLE_HASH c d \<noteq> hash_of k" if "4000 \<le> hash_of k" for k using h that by simp
  moreover have "list_all (\<lambda>k. 4000 \<le> hash_of k) [''cv'', ''C1'', ''C2'', ''C3'', ''D0'', ''D1'', ''D2'']"
    by (simp add: hash_of_def SIMPLE_HASH_def schar_def)
  ultimately show ?thesis
    using assms digit_not_letter [OF assms(2)]
    by (simp add: cpp_demangle_read_uqname_def run_peek run_peek_next Let_def)
qed

lemma mangle_id_start:
  assumes "n \<noteq> []"
  obtains c d r where "mangle_id n = c # d # r" "c_isdigit c"
  using mangle_id_Cons [of n] assms that unfolding mangle_id_def
  by (cases "show_nat (length n)"; cases "tl (show_nat (length n))"; cases n) auto

lemma does_uqname:
  assumes "ok s" and "valid_id n" and "rest s = mangle_id n @ r"
  shows "does (cpp_demangle_read_uqname rc) (length (mangle_id n)) [Out n] (\<lambda>b t. b) s"
proof -
  have "n \<noteq> []" using assms(2) by (simp add: valid_id_def)
  then obtain c d r' where "mangle_id n = c # d # r'" "c_isdigit c" by (rule mangle_id_start)
  then have "cpp_demangle_read_uqname rc s = cpp_demangle_read_sname s"
    using assms(3) by (intro uqname_digit) auto
  with does_read_sname [OF assms] show ?thesis by (simp add: does_def wp_def)
qed

text \<open>The character under the cursor, NUL at the end.\<close>

definition here :: "dd \<Rightarrow> char" where
  "here s = (case rest s of [] \<Rightarrow> NUL | c # r \<Rightarrow> c)"

lemma does_peek_here:
  assumes "cur s \<le> length (buf s)" and "does (f (here s)) k xs R s"
  shows "does (peek 0 f) k xs R s"
proof (cases "rest s")
  case Nil
  with assms show ?thesis by (intro does_peek_end) (auto simp: here_def rest_def)
next
  case (Cons c r)
  with assms show ?thesis by (intro does_peek) (auto simp: here_def)
qed

lemma moves_in_range:
  assumes "moves k xs s t" and "k \<le> length (rest s)" and "rest s \<noteq> []"
  shows "cur t \<le> length (buf t)"
  using assms by (auto simp: moves_def rest_def)

lemma does_substr_new:
  assumes "moves k xs s t" and "outs xs \<noteq> []" and "vs_size (output_v s) + length (outs xs) \<le> SIZE_MAX" and "tx = concat (outs xs)"
  shows "does (substr_from (output_v t) (vs_size (output_v s))) 0 []
    (\<lambda>x u. x = Some (Chars tx, length tx) \<and> output_v u = output_v t) t"
proof (rule does_substr [OF moves_ok [OF assms(1)]])
  show "vs_size (output_v s) < vs_size (output_v t)" "vs_size (output_v t) \<le> SIZE_MAX"
    using moves_size [OF assms(1)] assms(2,3) by auto
  have "length (vs_texts (output_v s)) = vs_size (output_v s)" by (simp add: vs_texts_def vs_size_def)
  then show "tx = concat (drop (vs_size (output_v s)) (vs_texts (output_v t)))"
    using assms(1,4) by (simp add: moves_def)
qed

lemma does_tmpl_suffix:
  assumes "ok s" and "cur s \<le> length (buf s)" and "here s \<noteq> CHR ''I''"
  shows "does (read_tmpl_suffix rc l v) 0 [] (\<lambda>b t. b) s"
  unfolding read_tmpl_suffix_def
  by (rule does_peek_here [OF assms(2)]) (use assms(1,3) in \<open>auto intro: does_ret\<close>)

lemma moves_here:
  assumes "moves k xs s t" and "rest s = m @ r" and "length m = k"
  shows "here t = (case r of [] \<Rightarrow> NUL | c # _ \<Rightarrow> c)" and "rest t = r"
  using moves_rest [OF assms(1)] assms(2,3) by (auto simp: here_def)

text \<open>A text joined to the running name \<open>p\<close> and recorded, with what follows.\<close>

definition holds :: "vector_str \<Rightarrow> string \<Rightarrow> bool" where
  "holds v p \<longleftrightarrow> full v \<and> concat (vs_texts v) = p"

lemma does_join:
  assumes "ok s" and "holds v p"
  shows "does (vector_str_push v (Chars tx) (length tx)) 0 [] (\<lambda>x t. fst x \<and> holds (snd x) (p @ tx)) s"
  by (rule does_conseq [OF does_vector_str_push [OF assms(1)]]) (use assms(2) in \<open>auto simp: holds_def\<close>)

lemma does_record:
  "ok s \<Longrightarrow> holds v x \<Longrightarrow> x \<noteq> [] \<Longrightarrow> does (cpp_demangle_push_subst_v v) 0 [Sub x] (\<lambda>b t. b) s"
  using does_push_subst_v [of s v] by (simp add: holds_def)

lemma does_record_name:
  assumes "ok s" and "holds v p" and "p @ tx \<noteq> []"
    and k: "\<And>t w. moves 0 [Sub (p @ tx)] s t \<Longrightarrow> holds w (p @ tx) \<Longrightarrow> does (f w) m ys Q t"
  shows "does (bind (vector_str_push v (Chars tx) (length tx)) (\<lambda>(ok, v). if \<not> ok then ret False
     else check (cpp_demangle_push_subst_v v) (f v))) m (Sub (p @ tx) # ys) Q s"
proof (rule does_bind0 [OF does_join [OF assms(1,2)]], goal_cases)
  case (1 x t)
  then obtain w where x: "x = (True, w)" "holds w (p @ tx)" by (cases x) auto
  have "does (f w) m ys Q u" if "moves 0 [Sub (p @ tx)] t u" for u
    using k [OF _ x(2)] moves_trans [OF 1(1) that] by simp
  with 1(1) x assms(3) show ?case
    by (auto intro!: does_check_out [OF does_record] dest: moves_ok)
qed

lemma digit_cases:
  assumes "rest s = mangle_id n @ r"
  obtains c r' where "rest s = c # r'" "c_isdigit c" "c \<noteq> NUL" "c \<notin> set ''ABCDEFGHIJKLMNOPQRSTUVWXYZabcdefghijklmnopqrstuvwxyz_@''"
  using mangle_id_Cons [of n] assms digit_not_letter that by (metis append_Cons)

text \<open>The reader does not record a long name with \<open>operator\<close> in it.\<close>

definition operator_name :: "string \<Rightarrow> bool" where
  "operator_name n \<longleftrightarrow> 8 < length n \<and> strstr n ''operator''"

lemma does_name_id:
  assumes "ok s" and "valid_id n" and r: "rest s = mangle_id n @ r" "r = [] \<or> hd r \<noteq> CHR ''I''"
    and "vs_size (output_v s) < SIZE_MAX"
  shows "does (cpp_demangle_read_name rc) (length (mangle_id n)) (Out n # (if operator_name n then [] else [Sub n])) (\<lambda>b t. b) s"
proof -
  from r(1) obtain c r' where c: "rest s = c # r'" "c \<noteq> NUL" "c \<noteq> CHR ''S''" "c \<noteq> CHR ''N''" "c \<noteq> CHR ''Z''"
    by (rule digit_cases) auto
  have n: "n \<noteq> []" using assms(2) by (simp add: valid_id_def)
  have name: "does (with_vec V_output (\<lambda>ov. check_some (substr_from ov i) (\<lambda>(str, len).
      if len > 8 \<and> (case str of Chars t \<Rightarrow> strstr t ''operator'' | Garbage \<Rightarrow> False) then ret True
      else bind (vector_str_push v str len) (\<lambda>(ok, v). if \<not> ok then ret False
        else check (cpp_demangle_push_subst_v v) (read_tmpl_suffix rc V_output v))))) 0 (if operator_name n then [] else [Sub n]) (\<lambda>b t. b) u"
    if t: "moves 0 [] s t" and u: "moves (length (mangle_id n)) [Out n] t u" and v: "holds v []" and i: "i = vs_size (output_v t)"
    for t u v i
  proof -
    have rt: "rest t = mangle_id n @ r" using moves_rest [OF t] r(1) by simp
    have "here u \<noteq> CHR ''I''"
      using moves_here(1) [OF u rt] r(2) by (cases r) (auto simp: NUL_def)
    moreover have "cur u \<le> length (buf u)"
      using moves_in_range [OF u] rt n by (auto simp: mangle_id_def)
    ultimately have h: "here u \<noteq> CHR ''I''" "cur u \<le> length (buf u)" by simp_all
    have "ok u" and "vs_size (output_v t) + length [n] \<le> SIZE_MAX"
      using moves_ok [OF u] moves_size [OF t] assms(5) by auto
    have sub: "does (substr_from (output_v u) i) 0 []
        (\<lambda>x w. x \<noteq> None \<and> the x = (Chars n, length n)) u"
      unfolding i by (rule does_conseq [OF does_substr_new [OF u]]) (use \<open>vs_size (output_v t) + length [n] \<le> SIZE_MAX\<close> in auto)
    have suffix: "does (read_tmpl_suffix rc V_output w) 0 [] (\<lambda>b t. b) y" if y: "moves 0 [Sub n] x y" and x: "moves 0 [] u x" for x y w
      using moves_trans [OF x y] h by (intro does_tmpl_suffix) (auto simp: moves_def here_def rest_def)
    show ?thesis
    proof (rule does_with_output [OF \<open>ok u\<close>], rule does_check_some0 [OF sub], goal_cases)
      case (1 x y)
      have "does (bind (vector_str_push v (Chars n) (length n)) (\<lambda>(ok, v). if \<not> ok then ret False
        else check (cpp_demangle_push_subst_v v) (read_tmpl_suffix rc V_output v))) 0 [Sub n] (\<lambda>b t. b) y"
        using does_record_name [OF moves_ok [OF 1(2)] v, of n "read_tmpl_suffix rc V_output" 0 "[]"] n suffix [OF _ 1(2)] by simp
      with 1 show ?case by (auto simp: operator_name_def does_ret dest: moves_ok)
    qed
  qed
  show ?thesis
    unfolding cpp_demangle_read_name_def
  proof (rule does_peek [OF c(1)], simp only: c if_False simp_thms, rule does_gets, simp only: okD(5) [OF assms(1)],
      rule does_check_some0 [OF does_conseq [OF does_init [OF assms(1)]], where P = "\<lambda>v. holds v []"], goal_cases)
    case (2 v t)
    then have "ok t" "rest t = mangle_id n @ r" using moves_rest r(1) by (auto dest: moves_ok)
    then show ?case
      unfolding Let_def
      by (intro does_with_output does_check [OF does_uqname [OF _ assms(2)], where l = 0 and ys = "if operator_name n then [] else [Sub n]"]
          name [OF 2(2) _ 2(1)]) auto
  qed (auto simp: holds_def)
qed

section \<open>Nested names\<close>

text \<open>
  A component of a nested name: an identifier, or the candidate for a substitution with a given number and text. Between
  components stands \<open>::\<close>, and the name up to each is recorded.
\<close>

datatype comp = Id string | Back nat string

fun mangle_comp :: "comp \<Rightarrow> string" where
  "mangle_comp (Id n) = mangle_id n"
| "mangle_comp (Back i tx) = seq_id i"

fun comp_text :: "comp \<Rightarrow> string" where
  "comp_text (Id n) = n"
| "comp_text (Back i tx) = tx"

fun valid_comp :: "dd \<Rightarrow> comp \<Rightarrow> bool" where
  "valid_comp s (Id n) = valid_id n"
| "valid_comp s (Back i tx) = known i tx s"

fun comp_effects :: "string \<Rightarrow> comp list \<Rightarrow> effect list" where
  "comp_effects p [] = []"
| "comp_effects p (c # cs) = Out (comp_text c) # Sub (p @ comp_text c)
     # (if cs = [] then [] else Out ''::'' # comp_effects (p @ comp_text c @ ''::'') cs)"

lemma valid_comp_text: "valid_comp s c \<Longrightarrow> comp_text c \<noteq> []"
  by (cases c) (auto simp: valid_id_def known_def)

lemma valid_comp_moves: "valid_comp s c \<Longrightarrow> moves k es s t \<Longrightarrow> valid_comp t c"
  by (cases c) (auto intro: known_moves)

lemma mangle_comp_cases:
  assumes "rest s = mangle_comp c @ r"
  obtains d r' where "rest s = d # r'" "d = CHR ''S'' \<or> c_isdigit d" "d \<noteq> NUL" "d \<notin> set ''ABCDEFGHIJKLMNOPQRTUVWXYZabcdefghijklmnopqrstuvwxyz_@''"
proof (cases c)
  case (Id n)
  with assms have "rest s = mangle_id n @ r" by simp
  then obtain d r' where "rest s = d # r'" "c_isdigit d" "d \<noteq> NUL" "d \<notin> set ''ABCDEFGHIJKLMNOPQRSTUVWXYZabcdefghijklmnopqrstuvwxyz_@''"
    by (rule digit_cases)
  then show ?thesis by (intro that [of d r']) simp_all
next
  case (Back i tx)
  with assms that [of "CHR ''S''"] show ?thesis by (auto simp: seq_id_def NUL_def)
qed

lemma does_nested_component:
  assumes "ok s" and "valid_comp s c" and "rest s = mangle_comp c @ r"
  shows "does (nested_component rc) (length (mangle_comp c)) [Out (comp_text c)] (\<lambda>b t. b) s"
proof (cases c)
  case (Id n)
  with assms(3) have "rest s = mangle_id n @ r" by simp
  then obtain d r' where d: "rest s = d # r'" "d \<noteq> CHR ''I''" "d \<noteq> CHR ''S''" "d \<noteq> CHR ''T''"
    by (rule digit_cases) auto
  show ?thesis
    unfolding nested_component_def
    by (rule does_peek [OF d(1)]) (use d does_uqname [OF assms(1), of n r rc] assms Id in simp)
next
  case (Back i tx)
  then obtain r' where "rest s = CHR ''S'' # r'" using assms(3) by (simp add: seq_id_def)
  then show ?thesis
    unfolding nested_component_def
    by (rule does_peek) (use does_subst [OF assms(1), of i tx r rc] assms Back in simp)
qed

text \<open>The part of a round after the component: record the prefix, then \<open>E\<close> or the separator.\<close>

lemma does_nested_next_last:
  assumes "ok s" and "rest s = CHR ''E'' # r"
  shows "does (nested_next V_output i v) 0 [] (\<lambda>x t. x = Stop True) s"
  unfolding nested_next_def
  by (rule does_peek [OF assms(2)], rule does_with_output [OF assms(1)]) (simp add: does_ret assms(1))

lemma does_nested_next_more:
  assumes "ok s" and "rest s = mangle_comp c @ r" and "holds v p" and "i \<noteq> vs_size (output_v s)"
  shows "does (nested_next V_output i v) 0 [Out ''::''] (\<lambda>x t. \<exists>w. x = Next w \<and> holds w (p @ ''::'')) s"
proof -
  from assms(2) obtain c r' where c: "rest s = c # r'" "c \<noteq> CHR ''E''" "c \<noteq> CHR ''I''" "c \<noteq> CHR ''C''" "c \<noteq> CHR ''D''"
    by (rule mangle_comp_cases) auto
  have vec: "does (bind (VEC_PUSH_STR v (Chars ''::'')) (\<lambda>(ok, v'). ret (if ok then Next v' else Stop False))) 0 []
      (\<lambda>x t. \<exists>w. x = Next w \<and> holds w (p @ ''::'')) t" if "ok t" for t
    unfolding VEC_PUSH_STR_def c_strlen_def cbuf.case
    by (rule does_bind0 [OF does_join [OF that assms(3)]]) (auto intro!: does_ret dest: moves_ok)
  have "does (bind (DEM_PUSH_STR ''::'') (\<lambda>b. if \<not> b then ret (Stop False)
      else bind (VEC_PUSH_STR v (Chars ''::'')) (\<lambda>(ok, v'). ret (if ok then Next v' else Stop False)))) 0 [Out ''::'']
      (\<lambda>x t. \<exists>w. x = Next w \<and> holds w (p @ ''::'')) s"
    by (rule does_bind1 [OF does_DEM_PUSH_STR [OF assms(1)]]) (auto intro!: vec dest: moves_ok)
  then show ?thesis
    unfolding nested_next_def
    by (intro does_peek [OF c(1)] does_with_output [OF assms(1)]) (use c assms(4) in simp)
qed

lemma does_nested_round:
  assumes "ok s" and "valid_comp s c" and "rest s = mangle_comp c @ r" and "holds v p" and "vs_size (output_v s) < SIZE_MAX"
    and nx: "\<And>t w. moves (length (mangle_comp c)) [Out (comp_text c), Sub (p @ comp_text c)] s t \<Longrightarrow> holds w (p @ comp_text c)
      \<Longrightarrow> does (nested_next V_output (vs_size (output_v s)) w) 0 ys Q t"
  shows "does (nested_round rc V_output v) (length (mangle_comp c)) (Out (comp_text c) # Sub (p @ comp_text c) # ys) Q s"
  unfolding nested_round_def
proof (rule does_with_output [OF assms(1)], unfold Let_def,
    rule does_bind [OF does_nested_component [OF assms(1-3)], where l = 0 and ys = "Sub (p @ comp_text c) # ys"], goal_cases)
  case (1 b t)
  let ?n = "comp_text c"
  have t: "ok t" "vs_size (output_v t) = Suc (vs_size (output_v s))"
    using moves_size [OF 1(1)] 1(1) by (auto dest: moves_ok)
  have n: "?n \<noteq> []" using assms(2) by (rule valid_comp_text)
  have sub: "does (substr_from (output_v t) (vs_size (output_v s))) 0 [] (\<lambda>x u. x = Some (Chars ?n, length ?n)) t"
    by (rule does_conseq [OF does_substr_new [OF 1(1)]]) (use assms(5) in auto)
  have keep: "does (bind (vector_str_push v (Chars ?n) (length ?n)) (\<lambda>(ok, v').
      if \<not> ok then ret (Stop False)
      else bind (cpp_demangle_push_subst_v v') (\<lambda>b.
        if \<not> b then ret (Stop False) else nested_next V_output (vs_size (output_v s)) v'))) 0 (Sub (p @ ?n) # ys) Q u"
    if u: "moves 0 [] t u" for u
  proof (rule does_bind0 [OF does_join [OF moves_ok [OF u] assms(4)]], goal_cases)
    case (1 x w)
    then obtain v' where x: "x = (True, v')" "holds v' (p @ ?n)" by (cases x) auto
    have next_part: "does (nested_next V_output (vs_size (output_v s)) v') 0 ys Q y" if "moves 0 [Sub (p @ ?n)] w y" for y
    proof (rule nx [OF _ x(2)])
      from moves_trans [OF \<open>moves (length (mangle_comp c)) [Out ?n] s t\<close> moves_trans [OF moves_trans [OF u 1(1)] that]]
      show "moves (length (mangle_comp c)) [Out ?n, Sub (p @ ?n)] s y" by simp
    qed
    have "does (cpp_demangle_push_subst_v v') 0 [Sub (p @ ?n)] (\<lambda>b t. b) w"
      using does_record [OF moves_ok [OF 1(1)] x(2)] n by simp
    with x(1) next_part show ?case by (auto intro!: does_bind [where k = 0 and l = 0 and xs = "[Sub (p @ ?n)]" and ys = ys])
  qed
  show ?case
    using 1(2) t keep by (auto intro!: does_with_output does_bind0 [OF sub])
qed auto

definition mangle_comps :: "comp list \<Rightarrow> string" where
  "mangle_comps cs = concat (map mangle_comp cs)"

lemma does_nested_rounds:
  assumes "ok s" and "list_all (valid_comp s) cs" and "cs \<noteq> []" and "rest s = mangle_comps cs @ CHR ''E'' # r"
    and "holds v p" and "vs_size (output_v s) + 2 * length cs \<le> SIZE_MAX" and "length cs \<le> Suc k"
  shows "does (limited k False (nested_round rc V_output) v) (length (mangle_comps cs)) (comp_effects p cs) (\<lambda>b t. b) s"
  using assms
proof (induction cs arbitrary: s v p k)
  case (Cons c cs)
  have c: "valid_comp s c" "rest s = mangle_comp c @ mangle_comps cs @ CHR ''E'' # r" "vs_size (output_v s) < SIZE_MAX"
    using Cons.prems by (auto simp: mangle_comps_def)
  show ?case
  proof (cases cs)
    case Nil
    have "does (nested_round rc V_output v) (length (mangle_comp c)) [Out (comp_text c), Sub (p @ comp_text c)] (\<lambda>x t. x = Stop True) s"
      by (rule does_nested_round [OF Cons.prems(1) c(1,2) Cons.prems(5) c(3)])
        (use Nil c(2) in \<open>auto intro!: does_nested_next_last dest: moves_ok moves_rest simp: mangle_comps_def\<close>)
    then show ?thesis
      using Nil by (cases k) (auto simp: mangle_comps_def intro!: does_bind1 does_ret dest: moves_ok)
  next
    case (Cons d ds)
    then obtain j where j: "k = Suc j" "length cs \<le> Suc j" using Cons.prems(7) by (cases k) auto
    let ?p = "p @ comp_text c @ ''::''"
    let ?es = "[Out (comp_text c), Sub (p @ comp_text c), Out ''::'']"
    have round: "does (nested_round rc V_output v) (length (mangle_comp c)) ?es (\<lambda>x t. \<exists>w. x = Next w \<and> holds w ?p) s"
    proof (rule does_nested_round [OF Cons.prems(1) c(1,2) Cons.prems(5) c(3)], goal_cases)
      case (1 t w)
      have "rest t = mangle_comp d @ mangle_comps ds @ CHR ''E'' # r" "vs_size (output_v s) \<noteq> vs_size (output_v t)"
        using moves_rest [OF 1(1)] moves_size [OF 1(1)] c(2) Cons by (auto simp: mangle_comps_def)
      with does_nested_next_more [OF moves_ok [OF 1(1)] _ 1(2)] show ?case by simp
    qed
    have "does (limited j False (nested_round rc V_output) w) (length (mangle_comps cs)) (comp_effects ?p cs) (\<lambda>b t. b) t"
      if t: "moves (length (mangle_comp c)) ?es s t" and w: "holds w ?p" for t w
    proof (rule Cons.IH [OF moves_ok [OF t] _ _ _ w _ j(2)])
      show "list_all (valid_comp t) cs" using Cons.prems(2) valid_comp_moves [OF _ t] by (auto simp: list_all_iff)
    qed (use Cons.prems(6) moves_rest [OF t] moves_size [OF t] c(2) Cons in simp_all)
    with Cons show ?thesis
      unfolding j(1) limited.simps by (intro does_bind [OF round]) (auto simp: mangle_comps_def)
  qed
qed simp

lemma does_nested_qualifiers:
  assumes "ok s" and "rest s = mangle_comp c @ r" and "does m k xs R s"
  shows "does (nested_qualifiers m) k xs R s"
proof -
  from assms(2) obtain d r' where d: "rest s = d # r'" "d \<notin> set ''rVKRO''"
    by (rule mangle_comp_cases) auto
  have "nested_qualifiers m s = m (s\<lparr>mem_rst := mem_rst s, mem_vat := mem_vat s, mem_cst := mem_cst s,
      mem_ref := mem_ref s, mem_rref := mem_rref s, cur := cur s\<rparr>)"
    using d by (simp add: nested_qualifiers_def run_rules run_str_at advance_def Let_def)
  also have "\<dots> = m s" by simp
  finally show ?thesis using assms(3) by (simp add: does_def wp_def)
qed

section \<open>Names\<close>

text \<open>Names as lists of components; a substitution alone is no name here but a type.\<close>

definition mangle_path :: "comp list \<Rightarrow> string" where
  "mangle_path cs = (case cs of [Id n] \<Rightarrow> mangle_id n | _ \<Rightarrow> ''N'' @ mangle_comps cs @ ''E'')"

definition path_effects :: "comp list \<Rightarrow> effect list" where
  "path_effects cs = (case cs of [Id n] \<Rightarrow> Out n # (if operator_name n then [] else [Sub n]) | _ \<Rightarrow> comp_effects [] cs)"

definition valid_comps :: "dd \<Rightarrow> comp list \<Rightarrow> bool" where
  "valid_comps s cs \<longleftrightarrow> cs \<noteq> [] \<and> list_all (valid_comp s) cs \<and> length cs \<le> Suc TRY_ROUNDS"

lemma path_cases:
  obtains n where "cs = [Id n]" | "mangle_path cs = ''N'' @ mangle_comps cs @ ''E''" "path_effects cs = comp_effects [] cs"
  by (cases "\<exists>n. cs = [Id n]") (auto simp: mangle_path_def path_effects_def split: list.splits comp.splits)

lemma does_nested_name:
  assumes "ok s" and "valid_comps s cs" and "rest s = ''N'' @ mangle_comps cs @ ''E'' @ r"
    and "vs_size (output_v s) + 2 * length cs \<le> SIZE_MAX"
  shows "does (cpp_demangle_read_nested_name rc) (length (mangle_comps cs) + 2) (comp_effects [] cs) (\<lambda>b t. b) s"
proof -
  obtain c ds where cs: "cs = c # ds" using assms(2) by (cases cs) (auto simp: valid_comps_def)
  let ?t = "s\<lparr>cur := cur s + 1\<rparr>"
  have "ok ?t" and rt: "rest ?t = mangle_comps cs @ CHR ''E'' # r" "rest ?t = mangle_comp c @ mangle_comps ds @ CHR ''E'' # r"
    using assms(1,3) cs by (auto simp: mangle_comps_def)
  obtain d r' where d: "rest ?t = d # r'" "d \<noteq> NUL" by (rule mangle_comp_cases [OF rt(2)])
  have "moves 1 [] s ?t" using assms(1) by (simp add: moves_def)
  then have valid: "list_all (valid_comp ?t) cs" using assms(2) valid_comp_moves by (auto simp: valid_comps_def list_all_iff)
  have body: "does (gets cur_output (\<lambda>l. check_some vector_str_init (\<lambda>v.
      check (limited TRY_ROUNDS False (nested_round rc l) v) (advance 1 (ret True)))))
      (length (mangle_comps cs) + 1) (comp_effects [] cs) (\<lambda>b t. b) ?t"
  proof (rule does_gets, simp only: okD(5) [OF \<open>ok ?t\<close>],
      rule does_check_some0 [OF does_conseq [OF does_init [OF \<open>ok ?t\<close>]], where P = "\<lambda>v. holds v []"], goal_cases)
    case (2 v u)
    have "list_all (valid_comp u) cs" using valid valid_comp_moves [OF _ 2(2)] by (auto simp: list_all_iff)
    then have rounds: "does (limited TRY_ROUNDS False (nested_round rc V_output) v) (length (mangle_comps cs)) (comp_effects [] cs) (\<lambda>b t. b) u"
      by (intro does_nested_rounds [of _ _ r])
        (use assms(2,4) 2 moves_rest [OF 2(2)] moves_size [OF 2(2)] rt(1) in \<open>auto simp: valid_comps_def dest: moves_ok\<close>)
    show ?case
      by (rule does_check [OF rounds, where l = 1 and ys = "[]"]) (auto intro!: does_advance_ret dest: moves_ok)
  qed (auto simp: holds_def)
  have "does (advance 1 (peek 0 (\<lambda>c. if c = NUL then ret False
      else nested_qualifiers (gets cur_output (\<lambda>l. check_some vector_str_init (\<lambda>v.
        check (limited TRY_ROUNDS False (nested_round rc l) v) (advance 1 (ret True))))))))
      (length (mangle_comps cs) + 2) (comp_effects [] cs) (\<lambda>b t. b) s"
    by (rule does_advance [OF assms(1)], rule does_peek [OF d(1)])
      (use d(2) does_nested_qualifiers [OF \<open>ok ?t\<close> rt(2) body] in auto)
  then show ?thesis
    unfolding cpp_demangle_read_nested_name_def
    by (intro does_peek [of _ "CHR ''N''"]) (use assms(3) in auto)
qed

lemma does_path:
  assumes "ok s" and "valid_comps s cs" and r: "rest s = mangle_path cs @ r" "r = [] \<or> hd r \<noteq> CHR ''I''"
    and "vs_size (output_v s) + 2 * length cs \<le> SIZE_MAX"
  shows "does (cpp_demangle_read_name rc) (length (mangle_path cs)) (path_effects cs) (\<lambda>b t. b) s"
proof (cases rule: path_cases [of cs])
  case (1 n)
  with assms does_name_id [OF assms(1), of n r rc] show ?thesis by (auto simp: mangle_path_def path_effects_def valid_comps_def)
next
  case 2
  have "does (cpp_demangle_read_nested_name rc) (length (mangle_path cs)) (path_effects cs) (\<lambda>b t. b) s"
    using does_nested_name [OF assms(1,2) _ assms(5), of r] r(1) 2 by simp
  then show ?thesis
    unfolding cpp_demangle_read_name_def
    by (intro does_peek [of _ "CHR ''N''"]) (use 2 r(1) in \<open>auto simp: NUL_def\<close>)
qed

text \<open>Names without substitutions, as lists of identifiers.\<close>

fun scoped :: "string list \<Rightarrow> string list" where
  "scoped [] = []"
| "scoped [n] = [n]"
| "scoped (n # ns) = n # ''::'' # scoped ns"

definition mangle_ids :: "string list \<Rightarrow> string" where
  "mangle_ids ns = concat (map mangle_id ns)"

definition mangle_name :: "string list \<Rightarrow> string" where
  "mangle_name ns = (case ns of [n] \<Rightarrow> mangle_id n | _ \<Rightarrow> ''N'' @ mangle_ids ns @ ''E'')"

definition valid_name :: "string list \<Rightarrow> bool" where
  "valid_name ns \<longleftrightarrow> ns \<noteq> [] \<and> list_all valid_id ns \<and> length ns \<le> Suc TRY_ROUNDS"

lemma mangle_path_Id: "mangle_path (map Id ns) = mangle_name ns"
  by (auto simp: mangle_path_def mangle_name_def mangle_comps_def mangle_ids_def comp_def split: list.splits)

lemma valid_comps_Id: "valid_name ns \<Longrightarrow> valid_comps s (map Id ns)"
  by (auto simp: valid_name_def valid_comps_def list_all_iff)

lemma outs_comps: "outs (comp_effects p cs) = scoped (map comp_text cs)"
proof (induction cs arbitrary: p)
  case (Cons c cs)
  then show ?case by (cases cs) auto
qed simp

lemma outs_path: "outs (path_effects cs) = scoped (map comp_text cs)"
  by (cases rule: path_cases [of cs]) (auto simp: outs_comps path_effects_def)

lemma mangle_name_nested: "\<forall>n. ns \<noteq> [n] \<Longrightarrow> mangle_name ns = ''N'' @ mangle_ids ns @ ''E''"
  by (cases ns rule: scoped.cases) (auto simp: mangle_name_def)

lemma does_call_name:
  assumes "does (cpp_demangle_read_name (run n)) k xs (\<lambda>b t. b) s"
  shows "does (call (run (Suc n)) C_name) k xs (\<lambda>b t. b) s"
  unfolding call_def run.simps step_def call.case
  by (rule does_bind1 [OF does_bind1 [OF assms]]) (auto intro!: does_ret dest: moves_ok)

end
