(* ===== verification/Mangling.thy ===== *)
theory Mangling
  imports Demangle_Names
begin

text \<open>
  The mangling that the round trip undoes, from the Itanium ABI: types (builtin types, \<open>void\<close> and classes under
  pointers, references and qualifiers), their text as C++, and their mangled form relative to a dictionary \<open>D\<close> of
  the entities seen before, which are written as substitutions. \<open>learn\<close> is what a type adds to the dictionary.
\<close>

section \<open>Types\<close>

datatype base = Builtin char | Void | Class "string list"

datatype ty = Base base | Qual type_qualifier ty

fun qual_letter :: "type_qualifier \<Rightarrow> char" where
  "qual_letter TYPE_PTR = CHR ''P''"
| "qual_letter TYPE_REF = CHR ''R''"
| "qual_letter TYPE_RREF = CHR ''O''"
| "qual_letter TYPE_CMX = CHR ''C''"
| "qual_letter TYPE_IMG = CHR ''G''"
| "qual_letter TYPE_RST = CHR ''r''"
| "qual_letter TYPE_VAT = CHR ''V''"
| "qual_letter TYPE_CST = CHR ''K''"
| "qual_letter TYPE_EXT = CHR ''U''"
| "qual_letter TYPE_VEC = CHR ''D''"

fun base_out :: "base \<Rightarrow> string list" where
  "base_out (Builtin c) = [the (map_of builtin_types c)]"
| "base_out Void = [''void'']"
| "base_out (Class ns) = scoped ns"

fun cpp_type :: "ty \<Rightarrow> string" where
  "cpp_type (Base b) = concat (base_out b)"
| "cpp_type (Qual q t) = cpp_type t @ qual_text q"

fun valid_base :: "base \<Rightarrow> bool" where
  "valid_base (Builtin c) = (map_of builtin_types c \<noteq> None)"
| "valid_base Void = True"
| "valid_base (Class ns) = valid_name ns"

fun is_ref :: "ty \<Rightarrow> bool" where
  "is_ref (Base b) = False"
| "is_ref (Qual q t) = (q = TYPE_REF \<or> q = TYPE_RREF)"

fun valid_ty :: "ty \<Rightarrow> bool" where
  "valid_ty (Base b) = valid_base b"
| "valid_ty (Qual q t) = (simple q \<and> valid_ty t \<and> (q = TYPE_REF \<or> q = TYPE_RREF \<longrightarrow> \<not> is_ref t))"

section \<open>Substitutions\<close>

fun position :: "'a \<Rightarrow> 'a list \<Rightarrow> nat option" where
  "position x [] = None"
| "position x (y # ys) = (if x = y then Some 0 else map_option Suc (position x ys))"

text \<open>A scope or a class is an entity of its own; the longest one seen before begins a nested name.\<close>

abbreviation scope :: "string list \<Rightarrow> ty" where
  "scope ns \<equiv> Base (Class ns)"

fun known_scope :: "ty list \<Rightarrow> string list \<Rightarrow> nat \<Rightarrow> (nat \<times> nat) option" where
  "known_scope D ns 0 = None"
| "known_scope D ns (Suc k) = (case position (scope (take (Suc k) ns)) D of Some i \<Rightarrow> Some (Suc k, i) | None \<Rightarrow> known_scope D ns k)"

definition class_path :: "ty list \<Rightarrow> string list \<Rightarrow> comp list" where
  "class_path D ns = (case known_scope D ns (length ns - 1) of None \<Rightarrow> map Id ns
     | Some (k, i) \<Rightarrow> Back i (cpp_type (scope (take k ns))) # map Id (drop k ns))"

text \<open>The qualifiers \<open>const\<close>, \<open>volatile\<close> and \<open>restrict\<close> on a type are one group: its inner parts are no entities.\<close>

fun in_group :: "type_qualifier \<Rightarrow> ty \<Rightarrow> bool" where
  "in_group q (Base b) = False"
| "in_group q (Qual r t) = (is_cv q \<and> is_cv r)"

definition seen :: "ty list \<Rightarrow> bool \<Rightarrow> ty \<Rightarrow> nat option" where
  "seen D inner t = (if inner then None else position t D)"

fun mangle_base :: "ty list \<Rightarrow> base \<Rightarrow> string" where
  "mangle_base D (Builtin c) = [c]"
| "mangle_base D Void = ''v''"
| "mangle_base D (Class ns) = mangle_path (class_path D ns)"

fun mangle_sub :: "ty list \<Rightarrow> bool \<Rightarrow> ty \<Rightarrow> string" where
  "mangle_sub D inner (Base b) = (case seen D inner (Base b) of Some i \<Rightarrow> seq_id i | None \<Rightarrow> mangle_base D b)"
| "mangle_sub D inner (Qual q t) = (case seen D inner (Qual q t) of Some i \<Rightarrow> seq_id i
     | None \<Rightarrow> qual_letter q # mangle_sub D (in_group q t) t)"

text \<open>The mangled form without any substitution.\<close>

fun mangle_ty :: "ty \<Rightarrow> string" where
  "mangle_ty (Base (Builtin c)) = [c]"
| "mangle_ty (Base Void) = ''v''"
| "mangle_ty (Base (Class ns)) = mangle_name ns"
| "mangle_ty (Qual q t) = qual_letter q # mangle_ty t"

text \<open>The entities of a type that are not in the dictionary, in the order in which they are completed.\<close>

fun learn_base :: "ty list \<Rightarrow> base \<Rightarrow> ty list" where
  "learn_base D (Builtin c) = []"
| "learn_base D Void = []"
| "learn_base D (Class ns) = (let k = (case known_scope D ns (length ns - 1) of None \<Rightarrow> 0 | Some (k, i) \<Rightarrow> k)
     in map (\<lambda>j. scope (take j ns)) [Suc k..<Suc (length ns)])"

fun learn :: "ty list \<Rightarrow> bool \<Rightarrow> ty \<Rightarrow> ty list" where
  "learn D inner (Base b) = (if seen D inner (Base b) \<noteq> None then [] else learn_base D b)"
| "learn D inner (Qual q t) = (if seen D inner (Qual q t) \<noteq> None then []
     else learn D (in_group q t) t @ (if inner then [] else [Qual q t]))"

definition add :: "ty list \<Rightarrow> ty \<Rightarrow> ty list" where
  "add D t = (if t \<in> set D then D else D @ [t])"

definition grow :: "ty list \<Rightarrow> ty \<Rightarrow> ty list" where
  "grow D t = foldl add D (learn D False t)"

text \<open>The demangler tells entities apart by their text, and takes a candidate for known when an earlier one begins with it.\<close>

definition no_clash :: "ty list \<Rightarrow> bool" where
  "no_clash D \<longleftrightarrow> sorted_wrt (\<lambda>d t. \<not> strncmp_eq (cpp_type d) (cpp_type t) (length (cpp_type t))) D"

section \<open>The dictionary of the demangler\<close>

lemma position_Some: "position x xs = Some i \<Longrightarrow> i < length xs \<and> xs ! i = x"
  by (induction xs arbitrary: i) (auto split: if_splits)

lemma position_None: "position x xs = None \<longleftrightarrow> x \<notin> set xs"
  by (induction xs) auto

lemma add_prefix: "\<exists>zs. foldl add D ts = D @ zs"
proof (induction ts arbitrary: D)
  case (Cons t ts)
  then obtain zs where "foldl add (add D t) ts = add D t @ zs" by blast
  then show ?case by (cases "t \<in> set D") (simp_all add: add_def [of D t])
qed simp

lemma no_clash_prefix: "no_clash (D @ zs) \<Longrightarrow> no_clash D"
  by (simp add: no_clash_def sorted_wrt_append)

lemma strncmp_eq_self [simp]: "strncmp_eq x x n"
  by (simp add: strncmp_eq_def)

lemma record_in_known: "x \<in> set D \<Longrightarrow> record_in D x = D"
  by (auto simp: record_in_def list_ex_iff intro!: bexI [of _ x])

lemma record_in_add: "no_clash (add D t) \<Longrightarrow> record_in (map cpp_type D) (cpp_type t) = map cpp_type (add D t)"
proof (cases "t \<in> set D")
  case False
  assume "no_clash (add D t)"
  with False show ?thesis by (auto simp: add_def no_clash_def sorted_wrt_append record_in_def list_ex_iff)
qed (simp add: add_def record_in_known)

lemma recorded_learnt: "no_clash (foldl add D ts) \<Longrightarrow> foldl record_in (map cpp_type D) (map cpp_type ts) = map cpp_type (foldl add D ts)"
proof (induction ts arbitrary: D)
  case (Cons t ts)
  then have "no_clash (add D t)" using add_prefix [of "add D t" ts] no_clash_prefix by (metis foldl_Cons)
  with Cons show ?case by (simp add: record_in_add)
qed simp

section \<open>Validity and size\<close>

lemma builtin_name_nonempty: "map_of builtin_types c = Some name \<Longrightarrow> name \<noteq> []"
  by (auto simp: builtin_types_def split: if_splits)

lemma scoped_nonempty: "valid_name ns \<Longrightarrow> concat (scoped ns) \<noteq> []"
  by (cases ns rule: scoped.cases) (auto simp: valid_name_def valid_id_def)

lemma cpp_type_nonempty: "valid_ty t \<Longrightarrow> cpp_type t \<noteq> []"
proof (induction t)
  case (Base b)
  then show ?case using builtin_name_nonempty scoped_nonempty by (cases b) fastforce+
qed simp

lemma length_scoped: "length (scoped ns) \<le> 2 * length ns"
  by (induction ns rule: scoped.induct) auto

lemma length_mangle_id: "valid_id n \<Longrightarrow> 2 \<le> length (mangle_id n)"
  by (cases "show_nat (length n)"; cases n) (auto simp: mangle_id_def valid_id_def)

lemma length_mangle_path:
  assumes "\<forall>n. Id n \<in> set cs \<longrightarrow> valid_id n"
  shows "2 * length cs \<le> length (mangle_path cs)"
proof -
  have "2 \<le> length (mangle_comp c)" if "c \<in> set cs" for c
  proof (cases c)
    case (Id n)
    with that assms have "valid_id n" by simp
    with Id length_mangle_id show ?thesis by simp
  qed (simp add: seq_id_def)
  then have "2 * length cs \<le> length (mangle_comps cs)"
    by (induction cs) (fastforce simp: mangle_comps_def)+
  with assms show ?thesis by (cases rule: path_cases [of cs]) (auto simp: mangle_path_def length_mangle_id)
qed

lemma valid_name_take: "valid_name ns \<Longrightarrow> 0 < k \<Longrightarrow> valid_name (take k ns)"
  by (auto simp: valid_name_def list_all_iff dest: in_set_takeD)

lemma known_scope_Some:
  "known_scope D ns k = Some (j, i) \<Longrightarrow> 0 < j \<and> j \<le> k \<and> position (scope (take j ns)) D = Some i"
  by (induction k) (fastforce split: option.splits)+

lemma concat_scoped_append: "xs \<noteq> [] \<Longrightarrow> ys \<noteq> [] \<Longrightarrow> concat (scoped (xs @ ys)) = concat (scoped xs) @ ''::'' @ concat (scoped ys)"
proof (induction xs rule: scoped.induct)
  case (2 n)
  then show ?case by (cases ys) auto
qed auto

lemma class_path_cases:
  obtains "class_path D ns = map Id ns" "known_scope D ns (length ns - 1) = None"
  | k i where "known_scope D ns (length ns - 1) = Some (k, i)" "0 < k" "k < length ns" "position (scope (take k ns)) D = Some i"
    "class_path D ns = Back i (concat (scoped (take k ns))) # map Id (drop k ns)"
proof (cases "known_scope D ns (length ns - 1)")
  case (Some p)
  with known_scope_Some [of D ns "length ns - 1"] that(2) show ?thesis by (cases p) (fastforce simp: class_path_def)
qed (use that(1) in \<open>auto simp: class_path_def\<close>)

lemma concat_class_path: "concat (outs (path_effects (class_path D ns))) = concat (scoped ns)"
proof (cases rule: class_path_cases [of D ns])
  case (2 k i)
  have "concat (scoped (take k ns @ drop k ns)) = concat (scoped (take k ns)) @ ''::'' @ concat (scoped (drop k ns))"
    using 2(2,3) by (intro concat_scoped_append) auto
  moreover have "concat (scoped (x # xs)) = x @ ''::'' @ concat (scoped xs)" if "xs \<noteq> []" for x xs
    using concat_scoped_append [of "[x]" xs] that by simp
  ultimately show ?thesis using 2(3) by (simp add: 2(5) outs_path comp_def)
qed (simp add: outs_path comp_def)

lemma mangle_sub_Nil: "mangle_sub [] inner t = mangle_ty t"
proof (induction t arbitrary: inner)
  case (Base b)
  have none: "known_scope [] ns k = None" for ns k by (induction k) auto
  show ?case by (cases b) (simp_all add: seen_def class_path_def none mangle_path_Id)
qed (simp add: seen_def)

lemma class_path_nonempty: "ns \<noteq> [] \<Longrightarrow> class_path D ns \<noteq> []"
  by (cases rule: class_path_cases [of D ns]) auto

lemma class_path_Id: "valid_name ns \<Longrightarrow> Id n \<in> set (class_path D ns) \<Longrightarrow> valid_id n"
  by (cases rule: class_path_cases [of D ns]) (auto simp: valid_name_def list_all_iff dest: in_set_dropD)

lemma length_class_effects: "valid_name ns \<Longrightarrow> length (outs (path_effects (class_path D ns))) \<le> length (mangle_path (class_path D ns))"
  using length_scoped [of "map comp_text (class_path D ns)"] length_mangle_path [of "class_path D ns"] class_path_Id [of ns _ D]
  by (auto simp: outs_path)

lemma length_class_path: "length (class_path D ns) \<le> length ns"
  by (cases rule: class_path_cases [of D ns]) auto

end
