(* ===== verification/Demangle_Types.thy ===== *)
theory Demangle_Types
  imports Mangling
begin

text \<open>
  Types: the lemmas say that \<open>cpp_demangle_read_type\<close> turns the mangled form of a type, relative to the dictionary
  the demangler holds, into its text, alone and as a parameter of a function, and which candidates for substitutions
  it records.
\<close>

section \<open>What a type does\<close>

text \<open>The part of a type that is read after the qualifier letters, and the qualifiers, outermost first.\<close>

fun stem :: "ty list \<Rightarrow> bool \<Rightarrow> ty \<Rightarrow> ty" where
  "stem D inner (Base b) = Base b"
| "stem D inner (Qual q t) = (if seen D inner (Qual q t) \<noteq> None then Qual q t else stem D (in_group q t) t)"

fun quals :: "ty list \<Rightarrow> bool \<Rightarrow> ty \<Rightarrow> type_qualifier list" where
  "quals D inner (Base b) = []"
| "quals D inner (Qual q t) = (if seen D inner (Qual q t) \<noteq> None then [] else q # quals D (in_group q t) t)"

definition stem_effects :: "ty list \<Rightarrow> ty \<Rightarrow> effect list" where
  "stem_effects D u = (if position u D \<noteq> None then [Out (cpp_type u), Sub (cpp_type u)]
     else case u of Base (Class ns) \<Rightarrow> path_effects (class_path D ns) @ [Sub (cpp_type u)] | _ \<Rightarrow> [Out (cpp_type u)])"

definition type_effects :: "ty list \<Rightarrow> bool \<Rightarrow> type_qualifier list \<Rightarrow> ty \<Rightarrow> effect list" where
  "type_effects D inner qs t = stem_effects D (stem D inner t) @ qual_effects (cpp_type (stem D inner t)) (rev (qs @ quals D inner t))"

text \<open>The candidates of the demangler begin with the dictionary.\<close>

definition dictionary :: "ty list \<Rightarrow> dd \<Rightarrow> bool" where
  "dictionary D s \<longleftrightarrow> (\<exists>ys. dict s = map cpp_type D @ ys) \<and> int (length D) \<le> LONG_MAX"

lemma dictionary_moves: "dictionary D s \<Longrightarrow> moves k es s t \<Longrightarrow> dictionary D t"
  using recorded_mono [of "dict s" es] by (auto simp: dictionary_def moves_def)

lemma dictionary_known: "dictionary D s \<Longrightarrow> position t D = Some i \<Longrightarrow> valid_ty t \<Longrightarrow> known i (cpp_type t) s"
  using position_Some [of t D i] cpp_type_nonempty [of t] by (auto simp: dictionary_def known_def nth_append)

lemma valid_class_path:
  assumes "valid_name ns" and "dictionary D s"
  shows "valid_comps s (class_path D ns)"
proof (cases rule: class_path_cases [of D ns])
  case (2 k i)
  have "known i (concat (scoped (take k ns))) s"
    using dictionary_known [OF assms(2) 2(4)] valid_name_take [OF assms(1) 2(2)] by simp
  with assms(1) 2 show ?thesis by (auto simp: valid_comps_def valid_name_def list_all_iff dest: in_set_dropD)
qed (use assms(1) valid_comps_Id in simp)

subsection \<open>Triples of the parts\<close>

lemma does_vq_push:
  assumes "ok s" and "vq_fit v"
  shows "does (vector_type_qualifier_push v q) 0 []
    (\<lambda>x t. fst x \<and> vq_fit (snd x) \<and> vq_container (snd x) = vq_container v @ [q] \<and> ref_qualifier t = ref_qualifier s) s"
proof -
  have "\<exists>v' i. vector_type_qualifier_push v q s = Ok (True, v') (s\<lparr>brk := i\<rparr>)
      \<and> vq_fit v' \<and> vq_container v' = vq_container v @ [q]"
    using assms(2) okD(1) [OF assms(1)] BUFFER_GROW_gt [of "vq_capacity v"]
    by (auto simp: vector_type_qualifier_push_def vq_fit_def vq_size_def Let_def bind_def ret_def malloc_ok
        intro: exI [of _ "brk s"])
  then obtain v' i where "vector_type_qualifier_push v q s = Ok (True, v') (s\<lparr>brk := i\<rparr>)"
      "vq_fit v'" "vq_container v' = vq_container v @ [q]" by blast
  with assms(1) show ?thesis by (auto intro!: does_run moves_brk)
qed

lemma does_vq_init:
  "ok s \<Longrightarrow> does vector_type_qualifier_init 0 [] (\<lambda>x t. \<exists>v. x = Some v \<and> vq_fit v \<and> vq_container v = []) s"
  by (rule does_run [where t = "s\<lparr>brk := Suc (Suc (brk s))\<rparr>"])
    (auto simp: vector_type_qualifier_init_def bind_def ret_def malloc_ok vector_str_init_ok okD VECTOR_DEF_CAPACITY_def
      vq_fit_def vq_size_def intro!: moves_brk)

lemma ok_ref [simp]: "ok (s\<lparr>ref_qualifier := x\<rparr>) = ok s" "ok (s\<lparr>ref_qualifier := x, ref_qualifier_type := q\<rparr>) = ok s"
  by (simp_all add: ok_def all_ok_def wf_dd_def)

lemma rest_ref [simp]:
  "rest (s\<lparr>ref_qualifier := x\<rparr>) = rest s" "rest (s\<lparr>ref_qualifier := x, ref_qualifier_type := q\<rparr>) = rest s"
  by (simp_all add: rest_def)

text \<open>Clearing and setting the flag of a possible ref-qualifier.\<close>

lemma does_clear_ref:
  assumes "ok s" and "does m k xs R (if a then s\<lparr>ref_qualifier := False\<rparr> else s)"
  shows "does (upd (\<lambda>s. if a then s\<lparr>ref_qualifier := False\<rparr> else s) m) k xs R s"
  using assms by (intro does_upd) (auto simp: moves_def)

lemma does_set_ref:
  assumes "does m k xs R (s\<lparr>ref_qualifier := True, ref_qualifier_type := q\<rparr>)" and "\<And>x t. R x t \<Longrightarrow> \<not> ref_qualifier t"
  shows "does (upd (\<lambda>s. s\<lparr>ref_qualifier := True, ref_qualifier_type := q\<rparr>) m) k xs R s"
  using assms unfolding does_def wp_upd by (auto elim!: wp_mono simp: moves_def)

lemma does_keep_ref:
  "does m k xs R s \<Longrightarrow> \<not> ref_qualifier s \<Longrightarrow> does m k xs (\<lambda>x t. R x t \<and> \<not> ref_qualifier t) s"
  by (erule does_conseq) (auto simp: moves_def)

lemma does_str_at_next: "rest s = c # r \<Longrightarrow> does (f r) k xs R s \<Longrightarrow> does (str_at (cur s + 1) f) k xs R s"
  using cur_less [of s c r] by (simp add: does_def wp_def str_at_def rest_def drop_Suc flip: tl_drop)

lemma builtin_not_special:
  "map_of builtin_types c = Some name \<Longrightarrow> c \<noteq> CHR ''R'' \<and> c \<noteq> CHR ''O'' \<and> c \<noteq> CHR ''E'' \<and> c \<noteq> CHR ''I'' \<and> c \<noteq> NUL \<and> c \<noteq> CHR ''_''
     \<and> c \<noteq> CHR ''@''"
  by (auto simp: builtin_types_def NUL_def split: if_splits)

text \<open>The label \<open>rtn\<close> after effects that wrote the text \<open>tx\<close>.\<close>

definition rtn_effects :: "bool \<Rightarrow> string \<Rightarrow> vector_type_qualifier \<Rightarrow> effect list" where
  "rtn_effects builtin tx v = (if builtin then [] else [Sub tx]) @ qual_effects tx (rev (vq_container v))"

lemma does_rtn_after:
  assumes "moves k xs s t" and "concat (outs xs) = tx" "tx \<noteq> []" and "vs_size (output_v s) + length (outs xs) \<le> SIZE_MAX"
    and "list_all simple (vq_container v)" and "i = vs_size (output_v s)"
  shows "does (type_rtn td V_output i v builtin False) 0 (rtn_effects builtin tx v)
    (\<lambda>x u. x = (True, clear_firstp td)) t"
proof -
  have "length (vs_texts (output_v s)) = i" by (simp add: vs_texts_def vs_size_def assms(6))
  then have "concat (drop i (vs_texts (output_v t))) = tx" using assms(1,2) by (simp add: moves_def)
  moreover have "i < vs_size (output_v t)" "vs_size (output_v t) \<le> SIZE_MAX"
    using moves_size [OF assms(1)] assms(2-4,6) by (cases "outs xs"; auto)+
  ultimately show ?thesis
    unfolding rtn_effects_def using assms(3,5) by (intro does_type_rtn [OF moves_ok [OF assms(1)]]) auto
qed

text \<open>A type that pushes one text, moves one character on and ends.\<close>

lemma does_one_letter:
  assumes "ok s" and "name \<noteq> []" and "vs_size (output_v s) < SIZE_MAX" and "list_all simple (vq_container v)"
    and "i = vs_size (output_v s)"
  shows "does (checkx td (DEM_PUSH_STR name) (advance 1 (type_rtn td V_output i v True False))) 1
    (Out name # rtn_effects True name v) (\<lambda>x t. x = (True, clear_firstp td)) s"
proof (rule does_checkx [OF does_DEM_PUSH_STR [OF assms(1,2)], where l = 1 and ys = "rtn_effects True name v"], goal_cases)
  case (1 t)
  have "moves 1 [Out name] s (t\<lparr>cur := cur t + 1\<rparr>)"
    using 1 moves_trans [of 0 "[Out name]" s t 1 "[]" "t\<lparr>cur := cur t + 1\<rparr>"] by (simp add: moves_def)
  from does_rtn_after [OF this] assms show ?case
    by (intro does_advance [OF moves_ok [OF 1]]) auto
qed auto

text \<open>A type whose text a reader \<open>m\<close> writes, which the label \<open>rtn\<close> records.\<close>

lemma does_written:
  assumes "does m k xs (\<lambda>b t. b) s" and "concat (outs xs) = tx" "tx \<noteq> []" and "vs_size (output_v s) + length (outs xs) \<le> SIZE_MAX"
    and "list_all simple (vq_container v)" and "i = vs_size (output_v s)" and "\<not> ref_qualifier s"
  shows "does (checkx td m (type_rtn td V_output i v False False)) k (xs @ rtn_effects False tx v)
    (\<lambda>x t. x = (True, clear_firstp td) \<and> \<not> ref_qualifier t) s"
  by (rule does_keep_ref [OF does_checkx [OF assms(1), where l = 0 and ys = "rtn_effects False tx v"] assms(7)])
    (use does_rtn_after assms in auto)

lemma does_base_builtin:
  assumes "ok s" and "rest s = c # r" and "map_of builtin_types c = Some name" and "vs_size (output_v s) < SIZE_MAX"
    and "list_all simple (vq_container v)" and "i = vs_size (output_v s)"
  shows "does (type_again rc td V_output i v) 1 (Out name # rtn_effects True name v)
    (\<lambda>x t. x = (True, clear_firstp td) \<and> \<not> ref_qualifier t) s"
  unfolding type_again_def
  by (rule does_peek [OF assms(2)], rule does_clear_ref [OF assms(1)])
    (use assms builtin_not_special [OF assms(3)] builtin_name_nonempty [OF assms(3)]
      in \<open>auto intro!: does_keep_ref does_one_letter [unfolded One_nat_def]\<close>)

lemma does_base_void:
  assumes "ok s" and "rest s = CHR ''v'' # r" and "\<not> omit_void td r" and "vs_size (output_v s) < SIZE_MAX"
    and "list_all simple (vq_container v)" and "i = vs_size (output_v s)"
  shows "does (type_again rc td V_output i v) 1 (Out ''void'' # rtn_effects True ''void'' v)
    (\<lambda>x t. x = (True, clear_firstp td) \<and> \<not> ref_qualifier t) s"
proof -
  let ?s = "s\<lparr>ref_qualifier := False\<rparr>"
  have "does (type_void td V_output i v) 1 (Out ''void'' # rtn_effects True ''void'' v)
     (\<lambda>x t. x = (True, clear_firstp td)) ?s"
    unfolding type_void_def
    by (rule does_gets, rule does_str_at_next [of _ "CHR ''v''" r])
      (use assms does_one_letter [of ?s "''void''" v i td] in auto)
  then have "does (type_void td V_output i v) 1 (Out ''void'' # rtn_effects True ''void'' v)
     (\<lambda>x t. x = (True, clear_firstp td) \<and> \<not> ref_qualifier t) ?s"
    by (rule does_keep_ref) simp
  then show ?thesis
    unfolding type_again_def
    by (intro does_peek [OF assms(2)] does_clear_ref [OF assms(1)])
      (simp add: builtin_types_def qualifier_letters_def type_compound_def)
qed

lemma mangle_path_start:
  obtains c r where "mangle_path cs = c # r" "c = CHR ''N'' \<or> c_isdigit c"
proof (cases rule: path_cases [of cs])
  case (1 n)
  with mangle_id_Cons [of n] that show ?thesis by (auto simp: mangle_path_def)
qed (use that in auto)

lemma does_base_class:
  assumes "ok s" and "valid_name ns" and "dictionary D s" and "rest s = mangle_path (class_path D ns) @ r" "r = [] \<or> hd r \<noteq> CHR ''I''"
    and "vs_size (output_v s) + length (mangle_path (class_path D ns)) \<le> SIZE_MAX"
    and "list_all simple (vq_container v)" and "i = vs_size (output_v s)"
  shows "does (type_again (run (Suc n)) td V_output i v) (length (mangle_path (class_path D ns)))
    (path_effects (class_path D ns) @ rtn_effects False (cpp_type (scope ns)) v) (\<lambda>x t. x = (True, clear_firstp td) \<and> \<not> ref_qualifier t) s"
proof -
  let ?s = "s\<lparr>ref_qualifier := False\<rparr>" and ?cs = "class_path D ns"
  obtain c r' where c: "mangle_path ?cs = c # r'" "c = CHR ''N'' \<or> c_isdigit c" by (rule mangle_path_start)
  have s: "ok ?s" "dictionary D ?s" using assms(1,3) by (auto simp: dictionary_def)
  have cs: "valid_comps ?s ?cs" by (rule valid_class_path [OF assms(2) s(2)])
  have len: "2 * length ?cs \<le> length (mangle_path ?cs)" using class_path_Id [OF assms(2)] by (intro length_mangle_path) auto
  have "does (checkx td (call (run (Suc n)) C_name) (type_rtn td V_output i v False False))
      (length (mangle_path ?cs)) (path_effects ?cs @ rtn_effects False (cpp_type (scope ns)) v)
      (\<lambda>x t. x = (True, clear_firstp td) \<and> \<not> ref_qualifier t) ?s"
    using assms len length_class_effects [OF assms(2), of D] scoped_nonempty [OF assms(2)]
    by (intro does_written does_call_name does_path s(1) cs) (auto simp: concat_class_path)
  moreover have "c \<notin> set ''abcdefghijlmnoqstuvwxyzrCGKPVADEFIMORSTUvu''"
    using c(2)
  proof
    assume "c_isdigit c"
    then show ?thesis by (rule digit_notin) (simp add: c_isdigit_def)
  qed simp
  ultimately show ?thesis
    unfolding type_again_def
    by (intro does_peek [of s c "r' @ r"] does_clear_ref [OF assms(1)])
      (use assms(4) c(1) in \<open>auto simp: builtin_types_def qualifier_letters_def type_compound_def\<close>)
qed

text \<open>A substitution.\<close>

lemma does_back:
  assumes "ok s" and "known j tx s" and "rest s = seq_id j @ r" and "vs_size (output_v s) < SIZE_MAX"
    and "list_all simple (vq_container v)" and "i = vs_size (output_v s)"
  shows "does (type_again rc td V_output i v) (length (seq_id j)) (Out tx # rtn_effects False tx v)
    (\<lambda>x t. x = (True, clear_firstp td) \<and> \<not> ref_qualifier t) s"
proof -
  let ?s = "s\<lparr>ref_qualifier := False\<rparr>"
  have s: "ok ?s" "known j tx ?s" using assms(1,2) by (auto simp: known_def)
  have "does (checkx td (cpp_demangle_read_subst rc) (type_rtn td V_output i v False False)) (length (seq_id j))
      ([Out tx] @ rtn_effects False tx v) (\<lambda>x t. x = (True, clear_firstp td) \<and> \<not> ref_qualifier t) ?s"
    by (rule does_written [OF does_subst [OF s]]) (use assms in \<open>auto simp: known_def\<close>)
  moreover obtain r' where "rest s = CHR ''S'' # r'" using assms(3) by (simp add: seq_id_def)
  ultimately show ?thesis
    unfolding type_again_def
    by (intro does_peek [of s "CHR ''S''" r'] does_clear_ref [OF assms(1)])
      (simp_all add: builtin_types_def qualifier_letters_def type_compound_def)
qed

text \<open>A qualifier letter hands over to the label \<open>again\<close> with one more qualifier.\<close>

lemma does_qualifier_letter:
  assumes "ok s" and "vq_fit v" and "map_of qualifier_letters c = Some q" and "rest s = c # r"
    and again: "\<And>t w. moves 1 [] s t \<Longrightarrow> vq_fit w \<Longrightarrow> vq_container w = vq_container v @ [q] \<Longrightarrow> \<not> ref_qualifier t
      \<Longrightarrow> does (rc (C_again (clear_firstp td) V_output i w)) k xs R t"
  shows "does (type_again rc td V_output i v) (Suc k) xs R s"
proof -
  let ?s = "s\<lparr>ref_qualifier := False\<rparr>"
  have c: "c \<noteq> CHR ''R'' \<and> c \<noteq> CHR ''O'' \<and> c \<noteq> CHR ''E''" "map_of builtin_types c = None"
    using assms(3) by (auto simp: qualifier_letters_def builtin_types_def split: if_splits)
  have s0: "moves 0 [] s ?s" using assms(1) by (simp add: moves_def)
  have "does (type_qualifier_letter rc td V_output i v q) (Suc k) xs R ?s"
    unfolding type_qualifier_letter_def
  proof (rule does_bind0 [OF does_vq_push [OF moves_ok [OF s0] assms(2)]], goal_cases)
    case (1 x t)
    then obtain w where x: "x = (True, w)" "vq_fit w" "vq_container w = vq_container v @ [q]" by (cases x) auto
    have "moves 1 [] s (t\<lparr>cur := cur t + 1\<rparr>)" "\<not> ref_qualifier t"
      using moves_trans [OF s0 1(1)] 1(2) by (auto simp: moves_def)
    with again [OF _ x(2,3)] x(1) moves_ok [OF 1(1)] show ?case
      by (auto intro!: does_advance)
  qed
  then show ?thesis
    unfolding type_again_def
    by (intro does_peek [OF assms(4)] does_clear_ref [OF assms(1)]) (use c assms(3) in simp)
qed

lemma type_compound_ref:
  "type_compound rc td l i v (CHR ''R'') = type_reference rc td l i v TYPE_REF"
  "type_compound rc td l i v (CHR ''O'') = type_reference rc td l i v TYPE_RREF"
  "map_of builtin_types (CHR ''R'') = None" "map_of builtin_types (CHR ''O'') = None"
  "map_of qualifier_letters (CHR ''R'') = None" "map_of qualifier_letters (CHR ''O'') = None"
  by (simp_all add: type_compound_def builtin_types_def qualifier_letters_def)

lemma does_reference:
  assumes "ok s" and "vq_fit v" and "q = TYPE_REF \<and> c = CHR ''R'' \<or> q = TYPE_RREF \<and> c = CHR ''O''"
    and "rest s = c # r" and "\<not> ref_qualifier s" and R: "\<And>x t. R x t \<Longrightarrow> \<not> ref_qualifier t"
    and again: "\<And>t w. ok t \<Longrightarrow> rest t = r \<Longrightarrow> vs_size (output_v t) = vs_size (output_v s) \<Longrightarrow> dict t = dict s \<Longrightarrow> vq_fit w
      \<Longrightarrow> vq_container w = vq_container v @ [q] \<Longrightarrow> does (rc (C_again (clear_firstp td) V_output i w)) k xs R t"
  shows "does (type_again rc td V_output i v) (Suc k) xs R s"
proof -
  have "does (type_reference rc td V_output i v q) (Suc k) xs R s"
    unfolding type_reference_def
  proof (rule does_gets, simp only: assms(5) if_False, rule does_bind0 [OF does_vq_push [OF assms(1,2)]], goal_cases)
    case (1 x t)
    then obtain w where x: "x = (True, w)" "vq_fit w" "vq_container w = vq_container v @ [q]" by (cases x) auto
    let ?t = "t\<lparr>ref_qualifier := True, ref_qualifier_type := q\<rparr>"
    have "does (rc (C_again (clear_firstp td) V_output i w)) k xs R (?t\<lparr>cur := cur ?t + 1\<rparr>)"
      using x 1(1) moves_ok [OF 1(1)] moves_rest [OF 1(1)] moves_size [OF 1(1)] assms(4) rest_advance [of ?t 1]
      by (intro again) (auto simp: moves_def)
    with x(1) moves_ok [OF 1(1)] show ?case
      by (auto intro!: does_set_ref does_advance R)
  qed
  then show ?thesis
    unfolding type_again_def
    by (intro does_peek [OF assms(4)] does_clear_ref [OF assms(1)]) (use assms(3) type_compound_ref in auto)
qed

lemma clear_firstp_simps [simp]: "clear_firstp (clear_firstp td) = clear_firstp td" "\<not> omit_void (clear_firstp td) r"
  by (cases td; simp add: clear_firstp_def omit_void_def)+

lemma qual_letter_simple:
  "simple q \<Longrightarrow> q \<noteq> TYPE_REF \<Longrightarrow> q \<noteq> TYPE_RREF \<Longrightarrow> map_of qualifier_letters (qual_letter q) = Some q"
  by (cases q) (auto simp: simple_def qualifier_letters_def)

lemma does_stem:
  assumes "ok s" and "valid_ty u" and "dictionary D s" and "u = Base b \<or> position u D \<noteq> None"
    and r: "rest s = mangle_sub D False u @ r" "r = [] \<or> hd r \<noteq> CHR ''I''"
    and "vs_size (output_v s) + length (mangle_sub D False u) \<le> SIZE_MAX"
    and "list_all simple (vq_container v)" and "i = vs_size (output_v s)" and "u = Base Void \<longrightarrow> \<not> omit_void td r"
  shows "does (type_again (run (Suc n)) td V_output i v) (length (mangle_sub D False u))
    (stem_effects D u @ qual_effects (cpp_type u) (rev (vq_container v))) (\<lambda>x t. x = (True, clear_firstp td) \<and> \<not> ref_qualifier t) s"
proof (cases "position u D")
  case (Some j)
  then have m: "mangle_sub D False u = seq_id j" by (cases u) (simp_all add: seen_def)
  have "does (type_again (run (Suc n)) td V_output i v) (length (seq_id j)) (Out (cpp_type u) # rtn_effects False (cpp_type u) v)
      (\<lambda>x t. x = (True, clear_firstp td) \<and> \<not> ref_qualifier t) s"
    using dictionary_known [OF assms(3) Some assms(2)] assms r m by (intro does_back) (auto simp: seq_id_def)
  with Some m show ?thesis by (simp add: stem_effects_def rtn_effects_def)
next
  case None
  with assms(4) have u: "u = Base b" by simp
  with None have m: "mangle_sub D False u = mangle_base D b" by (simp add: seen_def)
  show ?thesis
  proof (cases b)
    case (Builtin c)
    with assms(2) u obtain name where "map_of builtin_types c = Some name" by auto
    with does_base_builtin [OF assms(1) _ this] assms Builtin u None m show ?thesis by (simp add: stem_effects_def rtn_effects_def)
  next
    case Void
    with does_base_void [OF assms(1), of r td v i] assms u None m show ?thesis by (simp add: stem_effects_def rtn_effects_def)
  next
    case (Class ns)
    with does_base_class [OF assms(1) _ assms(3) _ r(2), of ns v i n td] assms u None m
    show ?thesis by (simp add: stem_effects_def rtn_effects_def)
  qed
qed

lemma does_type_again:
  assumes "valid_ty t" and "ok s" and "rest s = mangle_sub D inner t @ r" and "r = [] \<or> hd r \<noteq> CHR ''I''"
    and "vs_size (output_v s) + length (mangle_sub D inner t) \<le> SIZE_MAX" and "list_all simple (vq_container v)" and "vq_fit v"
    and "i = vs_size (output_v s)" and "is_ref t \<longrightarrow> \<not> ref_qualifier s" and "t = Base Void \<longrightarrow> \<not> omit_void td r"
    and "length (quals D inner t) < n" and "dictionary D s" and "inner \<longrightarrow> (\<exists>q u. t = Qual q u)"
  shows "does (type_again (run n) td V_output i v) (length (mangle_sub D inner t)) (type_effects D inner (vq_container v) t)
    (\<lambda>x u. x = (True, clear_firstp td) \<and> \<not> ref_qualifier u) s"
  using assms
proof (induction t arbitrary: s v td n inner)
  case (Base b)
  then obtain m where "n = Suc m" by (cases n) auto
  with Base does_stem [of s "Base b" D b r v i td m] show ?case by (simp add: type_effects_def del: run.simps)
next
  case (Qual q t)
  then obtain m where m: "n = Suc m" by (cases n) auto
  show ?case
  proof (cases "seen D inner (Qual q t)")
    case (Some j)
    then have p: "position (Qual q t) D \<noteq> None" and inner: "\<not> inner" by (auto simp: seen_def split: if_splits)
    with does_stem [of s "Qual q t" D undefined r v i td m] Qual.prems m Some show ?thesis
      by (simp add: type_effects_def del: run.simps mangle_sub.simps cpp_type.simps)
  next
    case None
    let ?R = "\<lambda>x u. x = (True, clear_firstp td) \<and> \<not> ref_qualifier u"
    let ?g = "in_group q t"
    have q: "simple q" "valid_ty t" using Qual.prems(1) by auto
    have k: "length (quals D ?g t) < m" using Qual.prems(11) None m by simp
    have es: "type_effects D inner (vq_container v) (Qual q t) = type_effects D ?g (vq_container v @ [q]) t"
      using None by (simp add: type_effects_def)
    have ml: "mangle_sub D inner (Qual q t) = qual_letter q # mangle_sub D ?g t" using None by simp
    have again: "does (run n (C_again (clear_firstp td) V_output i w)) (length (mangle_sub D ?g t))
        (type_effects D ?g (vq_container v @ [q]) t) ?R u"
      if "ok u" "rest u = mangle_sub D ?g t @ r" "vs_size (output_v u) = vs_size (output_v s)" "vq_fit w"
        "vq_container w = vq_container v @ [q]" "is_ref t \<longrightarrow> \<not> ref_qualifier u" "dictionary D u" for u w
      using Qual.IH [OF q(2) that(1,2) _ _ _ that(4) _ that(6), of "clear_firstp td" m] that Qual.prems q m k ml
      by (cases t) (auto simp: step_def simp del: mangle_sub.simps)
    show ?thesis
    proof (cases "is_ref (Qual q t)")
      case True
      show ?thesis
        unfolding es ml list.size add_Suc_right add_0_right
        by (rule does_reference [where q = q and c = "qual_letter q" and r = "mangle_sub D ?g t @ r"]; (rule again)?;
            use Qual.prems True ml in \<open>auto simp: dictionary_def\<close>)
    next
      case False
      with Qual.prems q have letter: "map_of qualifier_letters (qual_letter q) = Some q"
        by (intro qual_letter_simple) auto
      show ?thesis
        unfolding es ml list.size add_Suc_right add_0_right
        by (rule does_qualifier_letter [where q = q and c = "qual_letter q" and r = "mangle_sub D ?g t @ r"]; (rule again)?;
            use Qual.prems False letter ml in \<open>auto dest: moves_ok moves_rest moves_size dictionary_moves\<close>)
    qed
  qed
qed

subsection \<open>Whole types and parameters\<close>

abbreviation mangled :: "ty list \<Rightarrow> ty \<Rightarrow> string" where
  "mangled D t \<equiv> mangle_sub D False t"

abbreviation effects :: "ty list \<Rightarrow> ty \<Rightarrow> effect list" where
  "effects D t \<equiv> type_effects D False [] t"

text \<open>A type that can be read next, with fuel \<open>n\<close>, and what comes after it.\<close>

definition readable :: "ty list \<Rightarrow> ty \<Rightarrow> nat \<Rightarrow> string \<Rightarrow> dd \<Rightarrow> bool" where
  "readable D t n r s \<longleftrightarrow> ok s \<and> valid_ty t \<and> dictionary D s \<and> rest s = mangled D t @ r \<and> (r = [] \<or> hd r \<noteq> CHR ''I'')
     \<and> vs_size (output_v s) + length (mangled D t) \<le> SIZE_MAX \<and> length (quals D False t) + 2 \<le> n"

lemma readable_moves:
  assumes "readable D t n r s" and "moves 0 es s u" and "vs_size (output_v s) + length (outs es) + length (mangled D t) \<le> SIZE_MAX"
  shows "readable D t n r u"
  using assms(1,3) moves_ok [OF assms(2)] moves_rest [OF assms(2)] moves_size [OF assms(2)] dictionary_moves [OF _ assms(2)]
  by (auto simp: readable_def)

lemma does_call_type:
  assumes "readable D t n r s" and "is_ref t \<longrightarrow> \<not> ref_qualifier s" and "t = Base Void \<longrightarrow> \<not> omit_void td r"
  shows "does (bind vector_type_qualifier_init (\<lambda>v. case v of None \<Rightarrow> ret (False, td)
      | Some v \<Rightarrow> with_vec V_output (\<lambda>ov. run n (C_again td V_output (vs_size ov) v))))
    (length (mangled D t)) (effects D t) (\<lambda>x u. x = (True, clear_firstp td) \<and> \<not> ref_qualifier u) s"
proof -
  have s: "ok s" using assms(1) by (simp add: readable_def)
  show ?thesis
  proof (rule does_bind0 [OF does_vq_init [OF s]], goal_cases)
    case (1 x u)
    then obtain v where v: "x = Some v" "vq_fit v" "vq_container v = []" by auto
    obtain m where m: "n = Suc m" "length (quals D False t) < m" using assms(1) by (cases n) (auto simp: readable_def)
    have "readable D t n r u" by (rule readable_moves [OF assms(1) 1(1)]) (use assms(1) in \<open>auto simp: readable_def\<close>)
    then have "does (type_again (run m) td V_output (vs_size (output_v u)) v) (length (mangled D t)) (type_effects D False (vq_container v) t)
        (\<lambda>x u. x = (True, clear_firstp td) \<and> \<not> ref_qualifier u) u"
      using assms(2,3) v m(2) 1(1)
      by (intro does_type_again [of _ _ _ _ r]) (auto simp: readable_def moves_def)
    then show ?case
      using v m(1) moves_ok [OF 1(1)] by (auto simp: step_def intro!: does_with_output)
  qed
qed

lemma does_type:
  assumes "readable D t n r s" and "is_ref t \<longrightarrow> \<not> ref_qualifier s"
  shows "does (run (Suc n) (C_type None)) (length (mangled D t)) (effects D t)
    (\<lambda>x u. x = (True, None) \<and> \<not> ref_qualifier u) s"
proof -
  have s: "ok s" using assms(1) by (simp add: readable_def)
  show ?thesis
    unfolding run.simps step_def call.case cpp_demangle_read_type_def type_delimiters_def option.case
    by (rule does_gets, unfold okD(5) [OF s], rule does_conseq [OF does_call_type [OF assms]])
      (auto simp: omit_void_def clear_firstp_def)
qed

text \<open>A parameter: the opening parenthesis before the first one, a comma before the others.\<close>

lemma mangled_start:
  assumes "valid_ty t"
  obtains c r where "mangle_sub D inner t = c # r" "c \<noteq> CHR ''I''" "c \<noteq> NUL" "c \<noteq> CHR ''@''" "c \<noteq> CHR ''_''"
proof (cases "seen D inner t")
  case (Some i)
  then have "mangle_sub D inner t = seq_id i" by (cases t) simp_all
  with that show ?thesis by (auto simp: seq_id_def NUL_def)
next
  case None
  show ?thesis
  proof (cases t)
    case (Base b)
    show ?thesis
    proof (cases b)
      case (Builtin c)
      with None Base assms that builtin_not_special [of c] show ?thesis by auto
    next
      case Void
      with None Base that show ?thesis by (auto simp: NUL_def)
    next
      case (Class ns)
      obtain c r where "mangle_path (class_path D ns) = c # r" "c = CHR ''N'' \<or> c_isdigit c" by (rule mangle_path_start)
      moreover have "c_isdigit c \<Longrightarrow> c \<notin> set [CHR ''I'', CHR ''@'', CHR ''_'', NUL]"
        by (rule digit_notin) (simp_all add: c_isdigit_def NUL_def)
      ultimately show ?thesis using None Base Class that by (auto simp: NUL_def)
    qed
  next
    case (Qual q t')
    with None assms that show ?thesis by (cases q) (auto simp: NUL_def)
  qed
qed

lemma mangled_hd: "valid_ty t \<Longrightarrow> mangled D t \<noteq> [] \<and> hd (mangled D t) \<noteq> CHR ''I'' \<and> hd (mangled D t) \<noteq> NUL"
  by (erule mangled_start [of t D False]) simp

text \<open>The delimiters, then the type.\<close>

lemma does_delimited:
  assumes "does m 0 [Out d] (\<lambda>b t. b) s" and "readable D t n r s" and "Suc (vs_size (output_v s) + length (mangled D t)) \<le> SIZE_MAX"
    and "\<not> ref_qualifier s" and "t = Base Void \<longrightarrow> \<not> omit_void (Some td) r"
  shows "does (checkx y m (bind vector_type_qualifier_init (\<lambda>v. case v of None \<Rightarrow> ret (False, Some td)
        | Some v \<Rightarrow> with_vec V_output (\<lambda>ov. run n (C_again (Some td) V_output (vs_size ov) v)))))
        (length (mangled D t)) (Out d # effects D t) (\<lambda>x u. x = (True, Some (td\<lparr>firstp := False\<rparr>)) \<and> \<not> ref_qualifier u) s"
proof (rule does_checkx [OF assms(1), where l = "length (mangled D t)" and ys = "effects D t"], goal_cases)
  case (1 u)
  have "readable D t n r u" by (rule readable_moves [OF assms(2) 1]) (use assms(3) in simp)
  from does_call_type [OF this, of "Some td"] assms(4,5) 1 show ?case by (simp add: clear_firstp_def moves_def)
qed auto

lemma does_first_param:
  assumes "readable D t n r s" and "0 < vs_size (output_v s)" and "Suc (vs_size (output_v s) + length (mangled D t)) \<le> SIZE_MAX"
    and "\<not> ref_qualifier s" and "t = Base Void \<longrightarrow> r \<noteq> [] \<and> hd r \<notin> set ''ROE''"
  shows "does (run (Suc n) (C_type (Some \<lparr>paren = False, firstp = True\<rparr>))) (length (mangled D t)) (Out ''('' # effects D t)
    (\<lambda>x u. x = (True, Some \<lparr>paren = True, firstp = False\<rparr>) \<and> \<not> ref_qualifier u) s"
proof -
  let ?td = "\<lparr>paren = True, firstp = True\<rparr>"
  have s: "ok s" using assms(1) by (simp add: readable_def)
  have void: "t = Base Void \<longrightarrow> \<not> omit_void (Some ?td) r"
    using assms(5) by (cases r) (auto simp: omit_void_def Let_def)
  have open_paren: "does (check (DEM_PUSH_STR ''('') (gets output_v (\<lambda>ov. ret (vs_size ov \<ge> 2)))) 0 [Out ''(''] (\<lambda>b t. b) s"
    by (rule does_check1 [OF does_DEM_PUSH_STR [OF s]])
      (use assms(2) in \<open>auto intro!: does_gets does_ret dest: moves_ok moves_size\<close>)
  show ?thesis
    unfolding run.simps step_def call.case cpp_demangle_read_type_def type_delimiters_def option.case
    by (rule does_gets, unfold okD(5) [OF s] Let_def)
      (use does_delimited [OF open_paren assms(1,3,4) void] in \<open>simp add: checkx_ret\<close>)
qed

lemma does_next_param:
  assumes "readable D t n r s" and "Suc (vs_size (output_v s) + length (mangled D t)) \<le> SIZE_MAX" and "\<not> ref_qualifier s"
  shows "does (run (Suc n) (C_type (Some \<lparr>paren = True, firstp = False\<rparr>))) (length (mangled D t)) (Out '', '' # effects D t)
    (\<lambda>x u. x = (True, Some \<lparr>paren = True, firstp = False\<rparr>) \<and> \<not> ref_qualifier u) s"
proof -
  let ?td = "\<lparr>paren = True, firstp = False\<rparr>"
  have s: "ok s" "valid_ty t" "rest s = mangled D t @ r" using assms(1) by (simp_all add: readable_def)
  obtain c r' where c: "mangled D t = c # r'" "c \<noteq> CHR ''I''" using mangled_start [OF s(2)] by blast
  have comma: "does (peek 0 (\<lambda>c. if c \<noteq> CHR ''I'' then DEM_PUSH_STR '', '' else ret True)) 0 [Out '', ''] (\<lambda>b t. b) s"
    by (rule does_peek [of _ c "r' @ r"]) (use s c in \<open>auto intro!: does_DEM_PUSH_STR\<close>)
  show ?thesis
    unfolding run.simps step_def call.case cpp_demangle_read_type_def type_delimiters_def option.case
    by (rule does_gets, unfold okD(5) [OF s(1)] Let_def)
      (use does_delimited [OF comma assms, of ?td] in \<open>simp add: checkx_ret omit_void_def\<close>)
qed

end
