(* ===== verification/Demangle_Dictionary.thy ===== *)
theory Demangle_Dictionary
  imports Demangle_Types
begin

text \<open>
  What the demangler records while it reads a type is what the ABI adds to the dictionary (\<open>recorded_effects\<close>), as long as no
  entity's text begins an earlier one (\<open>no_clash\<close>); and what it writes is the text of the type.
\<close>

section \<open>Output\<close>

lemma outs_quals: "outs (qual_effects x qs) = map qual_text qs"
  by (induction x qs rule: qual_effects.induct) auto

lemma cpp_type_stem: "cpp_type t = cpp_type (stem D inner t) @ concat (map qual_text (rev (quals D inner t)))"
  by (induction D inner t rule: stem.induct) auto

lemma concat_stem: "concat (outs (stem_effects D u)) = cpp_type u \<or> (\<exists>q t. u = Qual q t \<and> position u D = None)"
proof (cases u)
  case (Base b)
  then show ?thesis by (cases b) (auto simp: stem_effects_def concat_class_path)
qed (auto simp: stem_effects_def)

lemma stem_seen: "stem D inner t = Qual q u \<Longrightarrow> position (Qual q u) D \<noteq> None"
  by (induction D inner t rule: stem.induct) (auto simp: seen_def split: if_splits)

lemma concat_effects: "concat (outs (effects D t)) = cpp_type t"
  using concat_stem [of D "stem D False t"] stem_seen [of D False t] cpp_type_stem [of t D False]
  by (auto simp: type_effects_def outs_quals)

lemma mangled_stem:
  "inner \<longrightarrow> (\<exists>q u. t = Qual q u) \<Longrightarrow> mangle_sub D inner t = map qual_letter (quals D inner t) @ mangled D (stem D inner t)"
proof (induction t arbitrary: inner)
  case (Qual q t)
  show ?case
  proof (cases "seen D inner (Qual q t)")
    case None
    with Qual.IH [of "in_group q t"] show ?thesis by (cases t) auto
  next
    case (Some i)
    then have "\<not> inner" by (auto simp: seen_def)
    with Some show ?thesis by simp
  qed
qed simp

lemma valid_stem: "valid_ty t \<Longrightarrow> valid_ty (stem D inner t)"
  by (induction D inner t rule: stem.induct) auto

lemma length_stem: "valid_ty u \<Longrightarrow> (\<forall>q t. u = Qual q t \<longrightarrow> position u D \<noteq> None) \<Longrightarrow> length (outs (stem_effects D u)) \<le> length (mangled D u)"
proof (cases "position u D")
  case (Some i)
  then have "mangled D u = seq_id i" by (cases u) (simp_all add: seen_def)
  with Some show ?thesis by (simp add: stem_effects_def seq_id_def)
next
  case None
  assume "valid_ty u" "\<forall>q t. u = Qual q t \<longrightarrow> position u D \<noteq> None"
  then obtain b where b: "u = Base b" "valid_base b" using None by (cases u) auto
  with None length_class_effects show ?thesis by (cases b) (auto simp: stem_effects_def seen_def)
qed

lemma length_effects: "valid_ty t \<Longrightarrow> length (outs (effects D t)) \<le> length (mangled D t)"
  using length_stem [OF valid_stem, of t D False] stem_seen [of D False t] mangled_stem [of False t D]
  by (auto simp: type_effects_def outs_quals)

lemma length_quals: "length (quals D False t) \<le> length (mangled D t)"
  using mangled_stem [of False t D] by simp

section \<open>Candidates\<close>

lemma record_in_twice: "record_in (record_in X x) x = record_in X x"
  by (auto simp: record_in_def list_ex_iff)

lemma record_in_front: "\<exists>ys. X = map cpp_type D @ ys \<Longrightarrow> t \<in> set D \<Longrightarrow> record_in X (cpp_type t) = X"
  by (rule record_in_known) auto

text \<open>The scopes of a class.\<close>

lemma subs_comps: "subs (comp_effects p (map Id ns)) = map (\<lambda>j. p @ concat (scoped (take j ns))) [Suc 0..<Suc (length ns)]"
proof (induction ns arbitrary: p)
  case (Cons n ns)
  have "concat (scoped (take (Suc j) (n # ns))) = n @ ''::'' @ concat (scoped (take j ns))" if "0 < j" "ns \<noteq> []" for j
    using that concat_scoped_append [of "[n]" "take j ns"] by simp
  with Cons show ?case
    by (cases "ns = []") (auto simp: upt_conv_Cons simp del: upt_Suc simp flip: map_Suc_upt)
qed simp

lemma map_upt_shift: "k \<le> n \<Longrightarrow> map (\<lambda>j. f (k + j)) [Suc 0..<Suc (n - k)] = map f [Suc k..<Suc n]"
  by (rule nth_equalityI) (auto simp del: upt_Suc)

lemma subs_path:
  assumes "valid_name ns" and "known_scope D ns (length ns - 1) = None"
  shows "subs (path_effects (map Id ns) @ [Sub (cpp_type (scope ns))])
    \<in> {map cpp_type (learn_base D (Class ns)), map cpp_type (learn_base D (Class ns)) @ [cpp_type (scope ns)]}"
proof (cases rule: path_cases [of "map Id ns"])
  case (1 n)
  then have "ns = [n]" by (cases ns) auto
  with assms(2) show ?thesis by (simp add: path_effects_def)
next
  case 2
  with assms(2) show ?thesis by (simp add: subs_comps comp_def del: upt_Suc)
qed

lemma foldl_record_twice:
  assumes "xs \<noteq> []" and "last xs = x"
  shows "foldl record_in X (xs @ [x]) = foldl record_in X xs"
proof -
  have "xs = butlast xs @ [x]" using assms append_butlast_last_id by metis
  then have "foldl record_in X xs = record_in (foldl record_in X (butlast xs)) x" by (metis foldl.simps foldl_append)
  then show ?thesis by (simp add: record_in_twice)
qed

lemma last_learn_class: "valid_name ns \<Longrightarrow> learn_base D (Class ns) \<noteq> [] \<and> last (learn_base D (Class ns)) = scope ns"
  using known_scope_Some [of D ns "length ns - 1"]
  by (cases ns) (auto simp: valid_name_def Let_def last_map split: option.splits)

lemma recorded_class:
  assumes "valid_name ns" and "\<exists>ys. X = map cpp_type D @ ys"
  shows "recorded X (path_effects (class_path D ns) @ [Sub (cpp_type (scope ns))]) = foldl record_in X (map cpp_type (learn_base D (Class ns)))"
    (is "?lhs = ?rhs")
proof -
  let ?L = "map cpp_type (learn_base D (Class ns))"
  have L: "?L \<noteq> []" "last ?L = cpp_type (scope ns)" using last_learn_class [OF assms(1), of D] by (simp_all add: last_map)
  show ?thesis
  proof (cases rule: class_path_cases [of D ns])
    case 1
    with subs_path [OF assms(1) 1(2)] foldl_record_twice [OF L] show ?thesis by (auto simp: recorded_subs simp del: foldl_append learn_base.simps)
  next
    case (2 k i)
    let ?tx = "concat (scoped (take k ns))"
    have front: "record_in X ?tx = X" using record_in_front [OF assms(2), of "scope (take k ns)"] position_Some [OF 2(4)] nth_mem [of i D] by simp
    have "?tx @ ''::'' @ concat (scoped (take j (drop k ns))) = concat (scoped (take (k + j) ns))" if "0 < j" for j
      using concat_scoped_append [of "take k ns" "take j (drop k ns)"] 2(2,3) that by (cases "ns = []") (simp_all add: take_add)
    then have "subs (comp_effects (?tx @ ''::'') (map Id (drop k ns))) = map (\<lambda>j. concat (scoped (take (k + j) ns))) [Suc 0..<Suc (length ns - k)]"
      by (auto simp: subs_comps simp del: upt_Suc)
    also have "\<dots> = ?L" using map_upt_shift [of k "length ns" "\<lambda>j. concat (scoped (take j ns))"] 2(1,3) by (simp add: comp_def del: upt_Suc)
    finally have "subs (comp_effects (?tx @ ''::'') (map Id (drop k ns))) = ?L" .
    moreover have "path_effects (class_path D ns) = Out ?tx # Sub ?tx # Out ''::'' # comp_effects (?tx @ ''::'') (map Id (drop k ns))"
      using 2(3) by (simp add: 2(5) path_effects_def)
    ultimately show ?thesis
      using foldl_record_twice [OF L, of X] front by (simp add: recorded_subs del: learn_base.simps)
  qed
qed

lemma recorded_stem:
  assumes "valid_ty u" and "\<exists>ys. X = map cpp_type D @ ys" and "\<forall>q t. u = Qual q t \<longrightarrow> position u D \<noteq> None"
  shows "recorded X (stem_effects D u) = foldl record_in X (map cpp_type (learn D False u))"
proof (cases "position u D")
  case (Some i)
  then have "learn D False u = []" by (cases u) (auto simp: seen_def)
  moreover have "u \<in> set D" using position_Some [OF Some] by auto
  ultimately show ?thesis using record_in_front [OF assms(2)] Some by (simp add: stem_effects_def)
next
  case None
  then obtain b where b: "u = Base b" "valid_base b" using assms(1,3) by (cases u) auto
  with None recorded_class [OF _ assms(2)] show ?thesis by (cases b) (auto simp: stem_effects_def seen_def simp del: learn_base.simps(3))
qed

text \<open>The qualified types.\<close>

fun learn_quals :: "ty list \<Rightarrow> bool \<Rightarrow> ty \<Rightarrow> ty list" where
  "learn_quals D inner (Base b) = []"
| "learn_quals D inner (Qual q t) = (if seen D inner (Qual q t) \<noteq> None then []
     else learn_quals D (in_group q t) t @ (if inner then [] else [Qual q t]))"

lemma learn_stem:
  "inner \<longrightarrow> (\<exists>q u. t = Qual q u) \<Longrightarrow> learn D inner t = learn D False (stem D inner t) @ learn_quals D inner t"
proof (induction t arbitrary: inner)
  case (Qual q t)
  show ?case
  proof (cases "seen D inner (Qual q t)")
    case None
    with Qual.IH [of "in_group q t"] show ?thesis by (cases t) auto
  next
    case (Some i)
    then have "\<not> inner" by (auto simp: seen_def)
    with Some show ?thesis by simp
  qed
qed simp

fun grouped :: "ty \<Rightarrow> type_qualifier list \<Rightarrow> bool" where
  "grouped (Qual q t) (r # rs) \<longleftrightarrow> is_cv q \<and> is_cv r"
| "grouped t rs \<longleftrightarrow> False"

lemma subs_quals:
  "inner = grouped t ys \<Longrightarrow> subs (qual_effects (cpp_type (stem D inner t)) (rev (quals D inner t) @ ys))
     = map cpp_type (learn_quals D inner t) @ subs (qual_effects (cpp_type t) ys)"
proof (induction t arbitrary: inner ys)
  case (Qual q t)
  have "in_group q t = grouped t (q # ys)" by (cases t) auto
  from Qual.IH [OF this] Qual.prems show ?case by (cases ys) auto
qed simp

lemma recorded_effects:
  assumes "valid_ty t" and "\<exists>ys. X = map cpp_type D @ ys"
  shows "recorded X (effects D t) = foldl record_in X (map cpp_type (learn D False t))"
proof -
  have g: "grouped t [] = False" by (cases t) auto
  have "subs (qual_effects (cpp_type (stem D False t)) (rev (quals D False t))) = map cpp_type (learn_quals D False t)"
    using subs_quals [of False t "[]" D] g by simp
  moreover have "recorded X (stem_effects D (stem D False t)) = foldl record_in X (map cpp_type (learn D False (stem D False t)))"
    using stem_seen [of D False t] by (intro recorded_stem valid_stem assms) auto
  ultimately show ?thesis
    using learn_stem [of False t D] by (simp add: type_effects_def recorded_subs [of _ "qual_effects _ _"])
qed

text \<open>Together: the texts of the grown dictionary.\<close>

lemma recorded_grow:
  "valid_ty t \<Longrightarrow> no_clash (grow D t) \<Longrightarrow> recorded (map cpp_type D) (effects D t) = map cpp_type (grow D t)"
  by (simp add: recorded_effects recorded_learnt grow_def)

text \<open>The scopes of a function, without its own name.\<close>

lemma record_longer: "(\<forall>d\<in>set X. length d < length x) \<Longrightarrow> NUL \<notin> set x \<Longrightarrow> record_in X x = X @ [x]"
  by (fastforce simp: record_in_def list_ex_iff strncmp_eq_prefix)

definition scopes :: "string list \<Rightarrow> ty list" where
  "scopes f = map (\<lambda>j. scope (take j f)) [1..<length f]"

lemma scoped_NUL: "list_all valid_id ns \<Longrightarrow> NUL \<notin> set (concat (scoped ns))"
  by (induction ns rule: scoped.induct) (auto simp: valid_id_def NUL_def)

lemma record_scopes:
  assumes "list_all valid_id f" and "m \<le> length f"
  shows "foldl record_in [] (map (\<lambda>j. concat (scoped (take j f))) [1..<Suc m]) = map (\<lambda>j. concat (scoped (take j f))) [1..<Suc m]"
  using assms(2)
proof (induction m)
  case (Suc m)
  let ?T = "\<lambda>j. concat (scoped (take j f))"
  have "length (?T j) < length (?T (Suc m))" if "0 < j" "j \<le> m" for j
  proof -
    have "take j (take (Suc m) f) = take j f" using that by (simp add: min_def)
    then have "take (Suc m) f = take j f @ drop j (take (Suc m) f)" by (metis append_take_drop_id)
    moreover have "drop j (take (Suc m) f) \<noteq> []" "take j f \<noteq> []" using that Suc.prems by auto
    ultimately show ?thesis using concat_scoped_append [of "take j f" "drop j (take (Suc m) f)"] by simp
  qed
  moreover have "NUL \<notin> set (?T (Suc m))" using assms(1) by (intro scoped_NUL) (auto simp: list_all_iff dest: in_set_takeD)
  ultimately have "record_in (map ?T [1..<Suc m]) (?T (Suc m)) = map ?T [1..<Suc m] @ [?T (Suc m)]"
    by (intro record_longer) auto
  with Suc show ?case by simp
qed simp

lemma recorded_name:
  assumes "valid_name f"
  shows "butlast (recorded [] (path_effects (map Id f))) = map cpp_type (scopes f)"
proof (cases rule: path_cases [of "map Id f"])
  case (1 n)
  then have "f = [n]" by (cases f) auto
  then show ?thesis by (simp add: path_effects_def scopes_def record_in_def)
next
  case 2
  have "recorded [] (comp_effects [] (map Id f)) = map (\<lambda>j. concat (scoped (take j f))) [1..<Suc (length f)]"
    using record_scopes [of f "length f"] assms by (simp add: recorded_subs subs_comps valid_name_def del: upt_Suc)
  also have "\<dots> = map (\<lambda>j. concat (scoped (take j f))) [1..<length f] @ [concat (scoped f)]"
    using assms by (cases f) (auto simp: valid_name_def)
  finally show ?thesis by (simp add: 2 scopes_def comp_def)
qed

end
