(* ===== verification/Demangle_Roundtrip.thy ===== *)
theory Demangle_Roundtrip
  imports Demangle_Dictionary
begin

text \<open>
  The demangler against the mangling it undoes: the theorems say that it turns the mangled form of every type and every function of
  the fragment in \<open>Mangling\<close>, with the substitutions of the ABI or without any, into its text as C++, when memory is available.
\<close>

section \<open>Parameters\<close>

text \<open>Parameters are read one after the other, each mangled relative to its own dictionary.\<close>

type_synonym param = "ty list \<times> ty"

definition mangle_params_in :: "param list \<Rightarrow> string" where
  "mangle_params_in ps = concat (map (\<lambda>(D, t). mangled D t) ps)"

definition params_effects :: "param list \<Rightarrow> effect list" where
  "params_effects ps = concat (map (\<lambda>(D, t). Out '', '' # effects D t) ps)"

text \<open>The dictionaries agree with the candidates \<open>X\<close> of the demangler.\<close>

fun agree :: "string list \<Rightarrow> param list \<Rightarrow> bool" where
  "agree X [] = True"
| "agree X ((D, t) # ps) = ((\<exists>ys. X = map cpp_type D @ ys) \<and> int (length D) \<le> LONG_MAX \<and> agree (recorded X (effects D t)) ps)"

text \<open>Fuel, size and validity of the parameters.\<close>

definition fits :: "nat \<Rightarrow> param list \<Rightarrow> nat \<Rightarrow> bool" where
  "fits n ps sz \<longleftrightarrow> list_all (\<lambda>(D, t). valid_ty t \<and> t \<noteq> Base Void \<and> length (mangled D t) + 3 \<le> n) ps
     \<and> sz + 3 * length (mangle_params_in ps) \<le> SIZE_MAX"

lemma mangle_params_in_simps [simp]:
  "mangle_params_in [] = []" "mangle_params_in ((D, t) # ps) = mangled D t @ mangle_params_in ps"
  by (simp_all add: mangle_params_in_def)

lemma params_effects_simps [simp]:
  "params_effects [] = []" "params_effects ((D, t) # ps) = Out '', '' # effects D t @ params_effects ps"
  by (simp_all add: params_effects_def)

lemma mangle_params_in_start:
  assumes "list_all (\<lambda>(D, t). valid_ty t) ps"
  shows "mangle_params_in ps = [] \<or> hd (mangle_params_in ps) \<noteq> CHR ''I''"
proof (cases ps)
  case (Cons p ps')
  with assms mangled_hd show ?thesis by (cases p) auto
qed simp

text \<open>What holds before a parameter.\<close>

definition param_next :: "param list \<Rightarrow> nat \<Rightarrow> dd \<Rightarrow> bool" where
  "param_next ps n s \<longleftrightarrow> ok s \<and> fits n ps (vs_size (output_v s)) \<and> rest s = mangle_params_in ps \<and> cur s \<le> length (buf s)
     \<and> \<not> ref_qualifier s \<and> agree (dict s) ps"

lemma param_nextD:
  assumes "param_next ((D, t) # ps) (Suc n) s"
  shows "readable D t n (mangle_params_in ps) s" "Suc (vs_size (output_v s) + length (mangled D t)) \<le> SIZE_MAX" "\<not> ref_qualifier s"
    "valid_ty t" "rest s = mangled D t @ mangle_params_in ps"
proof -
  have t: "valid_ty t" "mangled D t \<noteq> []" "list_all (\<lambda>(D, t). valid_ty t) ps"
    using assms mangled_hd by (auto simp: param_next_def fits_def list_all_iff)
  then show "readable D t n (mangle_params_in ps) s" "Suc (vs_size (output_v s) + length (mangled D t)) \<le> SIZE_MAX"
    using assms mangle_params_in_start [OF t(3)] length_quals [of D t]
    by (cases "mangled D t"; auto simp: param_next_def fits_def readable_def dictionary_def)+
  show "\<not> ref_qualifier s" "valid_ty t" "rest s = mangled D t @ mangle_params_in ps"
    using assms t by (simp_all add: param_next_def)
qed

lemma param_next_moves:
  assumes "param_next ((D, t) # ps) n s" and "moves (length (mangled D t)) (Out d # effects D t) s u" and "\<not> ref_qualifier u"
  shows "param_next ps n u"
proof -
  have t: "valid_ty t" "mangled D t \<noteq> []" using assms(1) mangled_hd by (auto simp: param_next_def fits_def)
  then have "cur u \<le> length (buf u)" using assms(1) moves_in_range [OF assms(2)] by (auto simp: param_next_def)
  moreover have "fits n ps (vs_size (output_v u))"
    using assms(1) moves_size [OF assms(2)] length_effects [OF t(1), of D] t(2)
    by (cases "mangled D t") (auto simp: param_next_def fits_def)
  ultimately show ?thesis
    using assms(1,3) moves_ok [OF assms(2)] moves_rest [OF assms(2)] assms(2) by (auto simp: param_next_def moves_def)
qed

lemma does_round:
  assumes "does (run n (C_type (Some td))) k xs (\<lambda>x u. x = (True, Some td') \<and> \<not> ref_qualifier u) s"
    and "valid_ty t" and "rest s = mangled D t @ r"
  shows "does (main_round (run n) (td, False, False)) k xs (\<lambda>x u. x = Next (td', False, False) \<and> \<not> ref_qualifier u) s"
proof -
  obtain c r' where c: "mangled D t = c # r'" "c \<noteq> NUL" "c \<noteq> CHR ''@''" using mangled_start [OF assms(2)] by blast
  have "does (bind (run n (C_type (Some td))) (\<lambda>(b, td'). case td' of None \<Rightarrow> ret (Stop (False, td, False, False))
         | Some t \<Rightarrow> if b then ret (Next (t, False, False)) else ret (Stop (False, td, False, False)))) k xs
       (\<lambda>x u. x = Next (td', False, False) \<and> \<not> ref_qualifier u) s"
    by (rule does_bind1 [OF assms(1)]) (auto intro!: does_ret dest: moves_ok)
  then show ?thesis
    unfolding main_round_def prod.case
    by (intro does_peek [of _ c "r' @ r"]) (use assms(3) c in \<open>auto simp: NUL_def\<close>)
qed

lemma does_limited_stop:
  assumes "does (body x) k xs (\<lambda>c t. c = Stop y) s"
  shows "does (limited j z body x) k xs (\<lambda>r t. r = y) s"
  by (cases j) (auto intro!: does_bind1 [OF assms] does_ret dest: moves_ok)

lemma does_rounds:
  assumes "param_next ps (Suc n) s" and "length ps \<le> k" and td: "td = \<lparr>paren = True, firstp = False\<rparr>"
  shows "does (limited k z (main_round (run (Suc n))) (td, False, False)) (length (mangle_params_in ps)) (params_effects ps)
    (\<lambda>x u. x = (True, td, False, False)) s"
  using assms(1,2)
proof (induction ps arbitrary: s k)
  case Nil
  have "does (main_round (run (Suc n)) (td, False, False)) 0 [] (\<lambda>x u. x = Stop (True, td, False, False)) s"
    unfolding main_round_def prod.case
    by (rule does_peek_end) (use Nil in \<open>auto simp: param_next_def rest_def intro: does_ret\<close>)
  then have "does (limited k z (main_round (run (Suc n))) (td, False, False)) 0 [] (\<lambda>x u. x = (True, td, False, False)) s"
    by (rule does_limited_stop)
  then show ?case by (simp del: run.simps)
next
  case (Cons p ps)
  obtain D t where p: "p = (D, t)" by (cases p)
  obtain j where j: "k = Suc j" "length ps \<le> j" using Cons.prems(2) by (cases k) auto
  note d = param_nextD [OF Cons.prems(1) [unfolded p]]
  have "does (main_round (run (Suc n)) (td, False, False)) (length (mangled D t)) (Out '', '' # effects D t)
      (\<lambda>x u. x = Next (td, False, False) \<and> \<not> ref_qualifier u) s"
    unfolding td by (rule does_round [OF does_next_param d(4,5)]) (use d in auto)
  then show ?case
    unfolding j(1) limited.simps
  proof (rule does_bind [where l = "length (mangle_params_in ps)" and ys = "params_effects ps"], goal_cases)
    case (1 x u)
    with Cons.IH [OF param_next_moves [OF Cons.prems(1) [unfolded p] 1(1)] j(2)] show ?case by (simp del: run.simps)
  qed (simp_all add: p)
qed

lemma does_parameters:
  assumes "param_next ((D, t) # ps) (Suc n) s" and "length ps \<le> k" and "0 < vs_size (output_v s)"
  shows "does (limited (Suc k) z (main_round (run (Suc n))) (\<lparr>paren = False, firstp = True\<rparr>, False, False)) (length (mangle_params_in ((D, t) # ps)))
    (Out ''('' # effects D t @ params_effects ps) (\<lambda>x u. x = (True, \<lparr>paren = True, firstp = False\<rparr>, False, False)) s"
proof -
  note d = param_nextD [OF assms(1)]
  have "t \<noteq> Base Void" using assms(1) by (simp add: param_next_def fits_def)
  then have "does (main_round (run (Suc n)) (\<lparr>paren = False, firstp = True\<rparr>, False, False)) (length (mangled D t)) (Out ''('' # effects D t)
      (\<lambda>x u. x = Next (\<lparr>paren = True, firstp = False\<rparr>, False, False) \<and> \<not> ref_qualifier u) s"
    by (intro does_round [OF does_first_param d(4,5)]) (use d assms(3) in auto)
  then show ?thesis
    unfolding limited.simps
  proof (rule does_bind [where l = "length (mangle_params_in ps)" and ys = "params_effects ps"], goal_cases)
    case (1 x u)
    with does_rounds [OF param_next_moves [OF assms(1) 1(1)] assms(2) refl] show ?case by simp
  qed simp_all
qed

text \<open>A lone \<open>void\<close> leaves only the parenthesis.\<close>

lemma does_rtn_nothing:
  assumes "ok s" and "vq_container v = []" and "i = vs_size (output_v s)" and "0 < i"
  shows "does (type_rtn td V_output i v True False) 0 [] (\<lambda>x t. x = (True, clear_firstp td)) s"
proof -
  have none: "substr_from (output_v s) i s = Ok None s"
    using assms(3,4) by (simp add: substr_from_def vector_str_substr_def size_pred_def ret_def)
  have sub: "does (substr_from (output_v s) i) 0 [] (\<lambda>x t. x = None \<and> t = s) s"
    by (rule does_run, rule none, rule moves_refl [OF assms(1)]) simp
  show ?thesis
    unfolding type_rtn_def
    by (rule does_with_output [OF assms(1)], rule does_bind0 [OF sub]) (use assms(1,2) in
      \<open>auto simp: cpp_demangle_push_type_qualifier_def vq_size_def checkx_ret intro!: does_finish_type\<close>)
qed

lemma does_void_alone:
  assumes "ok s" and "rest s = ''v''" and "vq_container v = []" and "i = vs_size (output_v s)" and "0 < i"
  shows "does (type_again rc (Some \<lparr>paren = True, firstp = True\<rparr>) V_output i v) 1 []
    (\<lambda>x t. x = (True, Some \<lparr>paren = True, firstp = False\<rparr>)) s"
proof -
  let ?s = "s\<lparr>ref_qualifier := False\<rparr>" and ?td = "Some \<lparr>paren = True, firstp = True\<rparr>"
  have rtn: "does (advance 1 (type_rtn ?td V_output i v True False)) 1 []
      (\<lambda>x t. x = (True, clear_firstp ?td)) ?s"
    by (rule does_cong [OF does_advance [OF _ does_rtn_nothing]]) (use assms in auto)
  have "does (type_void ?td V_output i v) 1 [] (\<lambda>x t. x = (True, clear_firstp ?td)) ?s"
    unfolding type_void_def
    by (rule does_gets, rule does_str_at_next [of _ "CHR ''v''" "[]"])
      (use assms rtn in \<open>auto simp: omit_void_def Let_def checkx_ret\<close>)
  then show ?thesis
    unfolding type_again_def
    by (intro does_peek [OF assms(2)] does_clear_ref [OF assms(1)])
      (simp add: builtin_types_def qualifier_letters_def type_compound_def clear_firstp_def)
qed

lemma does_void_param:
  assumes "ok s" and "rest s = ''v''" and "0 < vs_size (output_v s)"
  shows "does (run (Suc (Suc n)) (C_type (Some \<lparr>paren = False, firstp = True\<rparr>))) 1 [Out ''('']
    (\<lambda>x u. x = (True, Some \<lparr>paren = True, firstp = False\<rparr>)) s"
proof -
  let ?td = "Some \<lparr>paren = True, firstp = True\<rparr>"
  have open_paren: "does (check (DEM_PUSH_STR ''('') (gets output_v (\<lambda>ov. ret (vs_size ov \<ge> 2)))) 0 [Out ''(''] (\<lambda>b t. b) s"
    by (rule does_check1 [OF does_DEM_PUSH_STR [OF assms(1)]])
      (use assms(3) in \<open>auto intro!: does_gets does_ret dest: moves_ok moves_size\<close>)
  have body: "does (bind vector_type_qualifier_init (\<lambda>v. case v of None \<Rightarrow> ret (False, ?td)
      | Some v \<Rightarrow> with_vec V_output (\<lambda>ov. run (Suc n) (C_again ?td V_output (vs_size ov) v))))
      1 [] (\<lambda>x u. x = (True, Some \<lparr>paren = True, firstp = False\<rparr>)) u" if u: "moves 0 [Out ''(''] s u" for u
  proof (rule does_bind0 [OF does_vq_init [OF moves_ok [OF u]]], goal_cases)
    case (1 x w)
    then obtain v where v: "x = Some v" "vq_container v = []" by auto
    have "does (type_again (run n) ?td V_output (vs_size (output_v w)) v) 1 []
        (\<lambda>x u. x = (True, Some \<lparr>paren = True, firstp = False\<rparr>)) w"
      using assms v moves_ok [OF 1(1)] moves_rest [OF 1(1)] moves_size [OF 1(1)] moves_rest [OF u] moves_size [OF u]
      by (intro does_void_alone) auto
    then show ?case
      using v moves_ok [OF 1(1)] by (auto simp: step_def intro!: does_with_output)
  qed
  show ?thesis
    unfolding run.simps(2) [of "Suc n"] step_def call.case cpp_demangle_read_type_def type_delimiters_def option.case
    by (rule does_gets, unfold okD(5) [OF assms(1)] Let_def, simp del: run.simps One_nat_def,
      rule does_checkx [OF open_paren, where l = 1 and ys = "[]"])
      (use body in \<open>auto simp: checkx_ret simp del: run.simps One_nat_def\<close>)
qed

lemma does_void_parameters:
  assumes "ok s" and "rest s = ''v''" and "0 < vs_size (output_v s)"
  shows "does (limited (Suc (Suc k)) z (main_round (run (Suc (Suc n)))) (\<lparr>paren = False, firstp = True\<rparr>, False, False)) 1
    [Out ''(''] (\<lambda>x u. x = (True, \<lparr>paren = True, firstp = False\<rparr>, False, False)) s"
proof -
  let ?td = "\<lparr>paren = True, firstp = False\<rparr>" and ?run = "run (Suc (Suc n))"
  have round: "does (main_round ?run (\<lparr>paren = False, firstp = True\<rparr>, False, False)) 1 [Out ''('']
      (\<lambda>x u. x = Next (?td, False, False)) s"
    unfolding main_round_def prod.case
    by (rule does_peek [OF assms(2)], simp add: NUL_def del: run.simps One_nat_def, rule does_bind1 [OF does_void_param [OF assms]])
      (auto intro!: does_ret dest: moves_ok)
  have len: "length (buf s) = cur s + 1" using arg_cong [OF assms(2), of length] by (simp add: rest_def)
  have stop: "does (main_round ?run (?td, False, False)) 0 [] (\<lambda>x v. x = Stop (True, ?td, False, False)) u"
    if "moves 1 [Out ''(''] s u" for u
    unfolding main_round_def prod.case
    by (rule does_peek_end)
      (use that len moves_ok [OF that] in \<open>auto simp: moves_def rest_def intro: does_ret\<close>)
  have "does (limited (Suc k) z (main_round ?run) (?td, False, False)) 0 [] (\<lambda>x v. x = (True, ?td, False, False)) u"
    if "moves 1 [Out ''(''] s u" for u
    by (rule does_limited_stop, rule stop [OF that])
  then show ?thesis
    unfolding limited.simps(2) [of "Suc k"] by (intro does_bind1 [OF round]) auto
qed

section \<open>The end of the run\<close>

lemma does_push_output:
  assumes "ok s"
  shows "does (push_if b str) 0 (if b then [Out str] else []) (\<lambda>b t. b) s"
proof (cases b)
  case True
  obtain v i where v: "vector_str_push (output_v s) (Chars str) (length str) s = Ok (True, v) (s\<lparr>brk := i\<rparr>)"
    "vs_texts v = vs_texts (output_v s) @ [str]" "vs_fit v" "vs_capacity (output_v s) \<le> vs_capacity v"
    using vector_str_push_ok [of "output_v s" s "str" "length str"] okD [OF assms] by auto
  have "push_if True str s = Ok True (s\<lparr>brk := i, output_v := v\<rparr>)"
    using v(1) by (simp add: push_if_def on_vec_def with_vec_def vget_def vput_def run_rules VEC_PUSH_STR_def c_strlen_def)
  then show ?thesis
    using True assms v(2-4) by (auto intro!: does_run simp: moves_def ok_def wf_dd_def all_ok_def)
qed (use assms in \<open>auto simp: push_if_def intro: does_ret\<close>)

lemma does_finish: "ok s \<Longrightarrow> does (main_finish td) 0 (if paren td then [Out '')''] else []) (\<lambda>b t. b) s"
  unfolding main_finish_def
  by (rule does_check1 [OF does_push_output], assumption)
    (auto simp: ok_def moves_def push_if_def intro!: does_gets does_check0 [OF does_ret] does_ret)

text \<open>Nothing has been released, so the final releases go through.\<close>

lemma clean_returns:
  assumes "ok s"
  shows "wp (demangle_clean False r) (\<lambda>_. False) (\<lambda>x t. x = r) s"
  using okD(11) [OF assms]
  by (simp add: demangle_clean_def cpp_demangle_data_dest_def vector_read_cmd_dest_def vector_str_dest_def wp_def
      bind_def gets_def ret_def list_ex_iff)

lemma output_returns:
  assumes "ok s" and "concat (vs_texts (output_v s)) \<noteq> []"
  shows "wp (bind get_output (demangle_clean False)) (\<lambda>_. False) (\<lambda>x t. x = Some (concat (vs_texts (output_v s)))) s"
proof -
  have "get_output s = Ok (Some (concat (vs_texts (output_v s)))) (s\<lparr>brk := Suc (brk s)\<rparr>)"
    using assms(2) okD(1) [OF assms(1)]
    by (cases "vs_container (output_v s)") (auto simp: get_output_def vector_str_get_flat_def get_strlen_sum_def c_assert_def
      sum_strlen_concat bind_def ret_def gets_def malloc_ok vs_texts_def vs_size_def)
  with clean_returns [of "s\<lparr>brk := Suc (brk s)\<rparr>"] assms(1) show ?thesis
    by (simp add: wp_def bind_def)
qed

lemma wp_does:
  assumes "does m k xs R s" and "\<And>x t. moves k xs s t \<Longrightarrow> R x t \<Longrightarrow> wp (f x) (\<lambda>_. False) Q t"
  shows "wp (bind m f) (\<lambda>_. False) Q s"
  unfolding wp_bind by (rule wp_mono [OF assms(1) [unfolded does_def]]) (use assms(2) in auto)

lemma main_types_returns:
  assumes loop: "does (limited TRY_ROUNDS (False, \<lparr>paren = False, firstp = True\<rparr>, False, False)
      (main_round rc) (\<lparr>paren = False, firstp = True\<rparr>, False, False)) k xs (\<lambda>x u. x = (True, td, False, False)) s"
    and out: "concat (vs_texts (output_v s) @ outs xs) \<noteq> []"
  shows "wp (main_types rc False) (\<lambda>_. False)
    (\<lambda>x t. x = Some (concat (vs_texts (output_v s) @ outs xs @ (if paren td then ['')''] else [])))) s"
  unfolding main_types_def
proof (rule wp_does [OF loop], goal_cases)
  case (1 x t)
  then have t: "ok t" "vs_texts (output_v t) = vs_texts (output_v s) @ outs xs" by (simp_all add: moves_def)
  then have "vs_size (output_v t) \<noteq> 0" using out by (auto simp: vs_size_def vs_texts_def)
  moreover have "wp (bind (main_finish td) (\<lambda>b. if \<not> b then demangle_clean False None
      else bind get_output (demangle_clean False))) (\<lambda>_. False)
      (\<lambda>x t. x = Some (concat (vs_texts (output_v s) @ outs xs @ (if paren td then ['')''] else [])))) t"
  proof (rule wp_does [OF does_finish [OF t(1)]], goal_cases)
    case (1 b u)
    with output_returns [of u] t(2) out show ?case by (cases "paren td") (auto simp: moves_def)
  qed
  ultimately show ?case using 1(2) by (simp add: wp_gets)
qed

section \<open>Encodings\<close>

text \<open>The hash of the first two characters of a name is that of no special name.\<close>

lemma digit_schar: "c_isdigit c \<Longrightarrow> 48 \<le> schar c \<and> schar c \<le> 57"
proof -
  assume "c_isdigit c"
  then have "48 \<le> (of_char c :: nat)" "(of_char c :: nat) \<le> 57" by (simp_all add: c_isdigit_def)
  then have "48 \<le> (of_char c :: int)" "(of_char c :: int) \<le> 57" by (subst of_char_int, simp)+
  then show ?thesis by (simp add: schar_def Let_def)
qed

lemma mangle_name_start2:
  assumes "valid_name ns"
  obtains c d r where "mangle_name ns = c # d # r" "c \<noteq> NUL"
    "SIMPLE_HASH c d < 4000 \<or> 5040 \<le> SIMPLE_HASH c d \<and> SIMPLE_HASH c d \<le> 5049"
proof (cases "\<exists>n. ns = [n]")
  case True
  then obtain n where n: "ns = [n]" by blast
  with assms have "n \<noteq> []" by (simp add: valid_name_def valid_id_def)
  then obtain c d r where "mangle_id n = c # d # r" "c_isdigit c" by (rule mangle_id_start)
  then show ?thesis
    using that [of c d r] n digit_hash [of c d] digit_not_letter(2) [of c] by (simp add: mangle_name_def)
next
  case False
  obtain n ms where ns: "ns = n # ms" using assms by (cases ns) (auto simp: valid_name_def)
  obtain c r where "mangle_id n = c # r" "c_isdigit c" using mangle_id_Cons [of n] by blast
  then show ?thesis
    using mangle_name_nested [of ns] False ns digit_schar [of c] that [of "CHR ''N''" c "r @ mangle_ids ms @ ''E''"]
    by (auto simp: mangle_ids_def SIMPLE_HASH_def schar_def [of "CHR ''N''"] NUL_def)
qed

lemma special_hashes:
  "list_all (\<lambda>(k, x). 5200 \<le> hash_of k) special_type_names" "list_all (\<lambda>(k, x). 5200 \<le> hash_of k) special_tls_names"
  by (simp_all add: special_type_names_def special_tls_names_def hash_of_def SIMPLE_HASH_def schar_def)

lemma encoding_is_name:
  assumes "rest s = c # d # r" and "c \<noteq> NUL"
    and h: "SIMPLE_HASH c d < 4000 \<or> 5040 \<le> SIMPLE_HASH c d \<and> SIMPLE_HASH c d \<le> 5049"
  shows "cpp_demangle_read_encoding rc s = call rc C_name s"
proof -
  have "hash_find special_type_names (SIMPLE_HASH c d) = None" "hash_find special_tls_names (SIMPLE_HASH c d) = None"
    using h by (auto intro: hash_find_None [OF special_hashes(1)] hash_find_None [OF special_hashes(2)])
  moreover have "SIMPLE_HASH c d \<noteq> hash_of k"
    if "k \<in> {''GA'', ''GR'', ''GT'', ''GV'', ''Tc'', ''TC'', ''Th'', ''Tv''}" for k
    using that h by (auto simp: hash_of_def SIMPLE_HASH_def schar_def)
  ultimately show ?thesis
    using assms(1,2) by (simp add: cpp_demangle_read_encoding_def run_peek run_peek_next Let_def)
qed

lemma does_encoding:
  assumes "ok s" and "valid_name ns" and r: "rest s = mangle_name ns @ r" "r = [] \<or> hd r \<noteq> CHR ''I''"
    and "vs_size (output_v s) + 2 * length ns \<le> SIZE_MAX"
  shows "does (call (run (Suc (Suc n))) C_encoding) (length (mangle_name ns)) (path_effects (map Id ns)) (\<lambda>b t. b) s"
proof -
  have name: "does (call (run (Suc n)) C_name) (length (mangle_name ns)) (path_effects (map Id ns)) (\<lambda>b t. b) s"
    using does_call_name [OF does_path [OF assms(1) valid_comps_Id [OF assms(2)]], of r n] assms by (simp add: mangle_path_Id)
  obtain c d q where "mangle_name ns = c # d # q" "c \<noteq> NUL"
    "SIMPLE_HASH c d < 4000 \<or> 5040 \<le> SIMPLE_HASH c d \<and> SIMPLE_HASH c d \<le> 5049"
    by (rule mangle_name_start2 [OF assms(2)])
  with encoding_is_name [of s c d "q @ r" "run (Suc n)"] r(1)
  have "cpp_demangle_read_encoding (run (Suc n)) s = call (run (Suc n)) C_name s" by simp
  with name have enc: "does (cpp_demangle_read_encoding (run (Suc n))) (length (mangle_name ns)) (path_effects (map Id ns)) (\<lambda>b t. b) s"
    by (simp only: does_def wp_def)
  show ?thesis
    unfolding call_def run.simps(2) [of "Suc n"] step_def call.case
    by (rule does_bind1 [OF does_bind1 [OF enc]]) (auto intro!: does_ret dest: moves_ok)
qed

text \<open>The state that \<open>cpp_demangle_data_init\<close> makes.\<close>

lemma data_init_ok:
  assumes "all_ok h" and "freed h = []"
  obtains s where "cpp_demangle_data_init org i (initial_dd h) = Ok True s" "ok s" "rest s = drop i org" "cur s = i" "buf s = org"
    "vs_texts (output_v s) = []" "\<not> ref_qualifier s" "dict s = []"
proof -
  let ?Q = "\<lambda>b s. b \<and> ok s \<and> rest s = drop i org \<and> cur s = i \<and> buf s = org \<and> vs_texts (output_v s) = [] \<and> \<not> ref_qualifier s \<and> dict s = []"
  have "wp (cpp_demangle_data_init org i) (\<lambda>_. False) ?Q (initial_dd h)"
    using assms
    by (simp add: cpp_demangle_data_init_def wp_rules initial_dd_def dd.defs heap.defs all_ok_def ok_def wf_dd_def
        vr_fit_def vr_size_def VECTOR_DEF_CAPACITY_def vs_texts_def rest_def dict_def)
  with that show ?thesis by (auto simp: wp_def split: res.splits)
qed

lemma ok_pop: "ok s \<Longrightarrow> ok (s\<lparr>subst := vector_str_pop (subst s)\<rparr>)"
  using vs_fit_pop [of "subst s"] by (auto simp: ok_def wf_dd_def all_ok_def) (auto simp: vector_str_pop_def)

lemma wp_peek_here: "cur s \<le> length (buf s) \<Longrightarrow> wp (f (here s)) E Q s \<Longrightarrow> wp (peek 0 f) E Q s"
proof (cases "rest s")
  case Nil
  moreover assume "cur s \<le> length (buf s)" "wp (f (here s)) E Q s"
  ultimately show ?thesis by (simp add: wp_def here_def peek_def rest_def)
qed (simp add: wp_def run_peek here_def)

lemma length_mangle_name: "valid_name ns \<Longrightarrow> 2 * length ns \<le> length (mangle_name ns)"
  using length_mangle_path [of "map Id ns"] by (auto simp: mangle_path_Id valid_name_def list_all_iff)

lemma length_scoped_name: "valid_name f \<Longrightarrow> length (scoped f) \<le> length (mangle_name f)"
  using length_scoped [of f] length_mangle_name [of f] by simp

text \<open>Before the parameters the name of the function is taken off the candidates again.\<close>

lemma dict_pop: "dict (s\<lparr>subst := vector_str_pop (subst s)\<rparr>) = butlast (dict s)"
  by (cases "vs_container (subst s)") (simp_all add: dict_def vector_str_pop_def vs_texts_def vs_size_def map_butlast)

lemma encoding_returns:
  assumes s: "ok s" "rest s = mangle_name f @ r" "vs_texts (output_v s) = []" "\<not> ref_qualifier s" "dict s = []"
    and f: "valid_name f" "r = [] \<or> hd r \<noteq> CHR ''I''" "length (mangle_name f) \<le> SIZE_MAX"
    and loop: "\<And>u. ok u \<Longrightarrow> rest u = r \<Longrightarrow> cur u \<le> length (buf u) \<Longrightarrow> \<not> ref_qualifier u \<Longrightarrow> vs_texts (output_v u) = scoped f
      \<Longrightarrow> (r \<noteq> [] \<and> hd r \<noteq> NUL \<longrightarrow> dict u = map cpp_type (scopes f)) \<Longrightarrow>
      does (limited TRY_ROUNDS (False, \<lparr>paren = False, firstp = True\<rparr>, False, False)
        (main_round (run (Suc (Suc n)))) (\<lparr>paren = False, firstp = True\<rparr>, False, False)) k xs (\<lambda>x u. x = (True, td, False, False)) u"
  shows "wp (demangle_encoding (run (Suc (Suc n)))) (\<lambda>_. False)
    (\<lambda>x t. x = Some (concat (scoped f @ outs xs @ (if paren td then ['')''] else [])))) s"
  unfolding demangle_encoding_def
proof (rule wp_does [OF does_encoding [OF s(1) f(1) s(2) f(2)]], goal_cases)
  case (2 b t)
  have "mangle_name f \<noteq> []" by (rule mangle_name_start2 [OF f(1)]) simp
  then have t: "ok t" "rest t = r" "cur t \<le> length (buf t)" "\<not> ref_qualifier t" "vs_texts (output_v t) = scoped f"
    using 2(1) s moves_in_range [OF 2(1)] moves_rest [OF 2(1)] by (auto simp: moves_def outs_path comp_def)
  define u where "u = (if here t \<noteq> NUL \<and> vs_size (subst t) \<ge> 1 then t\<lparr>subst := vector_str_pop (subst t)\<rparr> else t)"
  have u: "ok u" "rest u = r" "cur u \<le> length (buf u)" "\<not> ref_qualifier u" "vs_texts (output_v u) = scoped f" "\<not> is_tmpl u"
    using t ok_pop [OF t(1)] by (auto simp: u_def rest_def ok_def)
  have "dict t = recorded [] (path_effects (map Id f))" using 2(1) s(5) by (simp add: moves_def)
  moreover have "dict t = [] \<longleftrightarrow> vs_size (subst t) = 0" by (simp add: dict_def vs_texts_def vs_size_def)
  moreover have "r \<noteq> [] \<and> hd r \<noteq> NUL \<Longrightarrow> here t \<noteq> NUL" using t(2) by (cases r) (auto simp: here_def)
  ultimately have d: "r \<noteq> [] \<and> hd r \<noteq> NUL \<longrightarrow> dict u = map cpp_type (scopes f)"
    using recorded_name [OF f(1)] dict_pop [of t] by (auto simp: u_def)
  have "wp (main_types (run (Suc (Suc n))) False) (\<lambda>_. False)
      (\<lambda>x t. x = Some (concat (scoped f @ outs xs @ (if paren td then ['')''] else [])))) u"
    using main_types_returns [OF loop [OF u(1-5) d]] u(5) scoped_nonempty [OF f(1)] by auto
  then show ?case
    by (simp only: 2(2) not_True_eq_False if_False, intro wp_peek_here [OF t(3)])
      (simp only: wp_upd wp_gets u(6) not_False_eq_True if_True flip: u_def)
qed (use s f length_mangle_name [OF f(1)] in \<open>auto simp: vs_size_def vs_texts_def\<close>)

lemma demangle_Z:
  assumes "all_ok h" and "freed h = []"
    and "\<And>s. ok s \<Longrightarrow> rest s = r \<Longrightarrow> vs_texts (output_v s) = [] \<Longrightarrow> \<not> ref_qualifier s \<Longrightarrow> dict s = [] \<Longrightarrow>
      wp (demangle_encoding (run n)) (\<lambda>_. False) (\<lambda>x t. x = y) s"
  shows "demangle n h (Some (''_Z'' @ r)) = Inr y"
proof -
  obtain s where s: "cpp_demangle_data_init (''_Z'' @ r) 2 (initial_dd h) = Ok True s" "ok s" "rest s = r"
    "vs_texts (output_v s) = []" "\<not> ref_qualifier s" "dict s = []"
    by (rule data_init_ok [OF assms(1,2), of "''_Z'' @ r" 2]) simp
  with assms(3) [OF s(2-6)] show ?thesis
    by (auto simp: demangle_def cxa_demangle_gnu3_def strncmp_eq_def bind_def wp_def split: res.splits)
qed

section \<open>Functions\<close>

text \<open>The text of a list of parameters; \<open>v\<close> stands for an empty list.\<close>

fun cpp_params :: "ty list \<Rightarrow> string" where
  "cpp_params [] = ''''"
| "cpp_params [t] = cpp_type t"
| "cpp_params (t # ts) = cpp_type t @ '', '' @ cpp_params ts"

definition or_void :: "string \<Rightarrow> string" where
  "or_void m = (if m = [] then ''v'' else m)"

lemma concat_params_effects: "concat (outs (effects D t @ params_effects ps)) = cpp_params (t # map snd ps)"
proof (induction ps arbitrary: D t)
  case (Cons p ps)
  then show ?case by (cases p) (simp add: concat_effects)
qed (simp add: concat_effects)

lemma mangle_params_in_empty: "list_all (\<lambda>(D, t). valid_ty t) ps \<Longrightarrow> mangle_params_in ps = [] \<longleftrightarrow> ps = []"
  using mangled_hd by (cases ps) auto

lemma does_params:
  assumes "param_next ps n s \<or> ps = [] \<and> ok s \<and> rest s = ''v''" and "ps = [] \<longrightarrow> rest s = ''v''"
    and "0 < vs_size (output_v s)" and "length ps \<le> TRY_ROUNDS" and "4 \<le> n"
  shows "does (limited TRY_ROUNDS z (main_round (run n)) (\<lparr>paren = False, firstp = True\<rparr>, False, False)) (length (or_void (mangle_params_in ps)))
    (case ps of [] \<Rightarrow> [Out ''(''] | (D, t) # ps \<Rightarrow> Out ''('' # effects D t @ params_effects ps)
    (\<lambda>x u. x = (True, \<lparr>paren = True, firstp = False\<rparr>, False, False)) s"
proof (cases ps)
  case Nil
  obtain m k where mk: "n = Suc (Suc m)" "TRY_ROUNDS = Suc (Suc k)"
    using assms(5) by (cases n; cases "n - 1") (auto simp: TRY_ROUNDS_def CPP_DEMANGLE_TRY_LIMIT_def numeral_eq_Suc)
  have "ok s" "rest s = ''v''" using assms(1,2) Nil by (auto simp: param_next_def)
  from does_void_parameters [OF this assms(3), of k z m] show ?thesis
    unfolding mk Nil by (simp add: or_void_def del: run.simps limited.simps)
next
  case (Cons p ps')
  obtain D t where p: "p = (D, t)" by (cases p)
  obtain m k where mk: "n = Suc m" "TRY_ROUNDS = Suc k" "length ps' \<le> k" using assms(4,5) Cons by (cases n; cases TRY_ROUNDS) auto
  have "mangled D t \<noteq> []" using assms(1) Cons p mangled_hd [of t D] by (auto simp: param_next_def fits_def)
  with does_parameters [of D t ps' m s k z] mk Cons p assms(1,3) show ?thesis
    by (simp add: or_void_def del: limited.simps run.simps)
qed

lemma demangle_params:
  assumes "all_ok h" and "freed h = []" and "valid_name f"
    and "list_all (\<lambda>(D, t). valid_ty t \<and> t \<noteq> Base Void) ps" and "length ps \<le> TRY_ROUNDS" and "agree (map cpp_type (scopes f)) ps"
    and org: "org = ''_Z'' @ mangle_name f @ or_void (mangle_params_in ps)"
    and "3 * length org \<le> SIZE_MAX" and "enough_fuel org \<le> n"
  shows "demangle n h (Some org) = Inr (Some (concat (scoped f) @ ''('' @ cpp_params (map snd ps) @ '')''))"
proof -
  let ?out = "case ps of [] \<Rightarrow> [Out ''(''] | (D, t) # ps \<Rightarrow> Out ''('' # effects D t @ params_effects ps"
  let ?m = "or_void (mangle_params_in ps)"
  obtain m where n: "n = Suc (Suc m)" using assms(9) by (cases n; cases "n - 1") (auto simp: enough_fuel_def)
  have valid: "list_all (\<lambda>(D, t). valid_ty t) ps" using assms(4) by (auto simp: list_all_iff)
  have start: "?m \<noteq> []" "hd ?m \<noteq> CHR ''I''" "hd ?m \<noteq> NUL"
    using valid mangled_hd by (cases ps; force simp: or_void_def NUL_def)+
  have le: "length (mangled D t) \<le> length (mangle_params_in ps)" if "(D, t) \<in> set ps" for D t
    using that by (induction ps) auto
  have fits: "fits n ps (length (scoped f))" and sz: "length (mangle_name f) \<le> SIZE_MAX" "4 \<le> n"
    using assms(4,8,9) org length_scoped_name [OF assms(3)] le
    by (fastforce simp: fits_def list_all_iff or_void_def enough_fuel_def split: if_splits)+
  have pos: "0 < length (scoped f)" using scoped_nonempty [OF assms(3)] by (cases "scoped f") auto
  have loop: "does (limited TRY_ROUNDS (False, \<lparr>paren = False, firstp = True\<rparr>, False, False)
      (main_round (run n)) (\<lparr>paren = False, firstp = True\<rparr>, False, False)) (length ?m) ?out
      (\<lambda>x u. x = (True, \<lparr>paren = True, firstp = False\<rparr>, False, False)) u"
    if u: "ok u" "rest u = ?m" "cur u \<le> length (buf u)" "\<not> ref_qualifier u" "vs_texts (output_v u) = scoped f"
      "?m \<noteq> [] \<and> hd ?m \<noteq> NUL \<longrightarrow> dict u = map cpp_type (scopes f)" for u
  proof (rule does_params [OF _ _ _ assms(5) sz(2)])
    have "vs_size (output_v u) = length (scoped f)"
      using arg_cong [OF u(5), of length] by (simp add: vs_size_def vs_texts_def)
    with pos fits u start assms(6) mangle_params_in_empty [OF valid]
    show "param_next ps n u \<or> ps = [] \<and> ok u \<and> rest u = ''v''" "0 < vs_size (output_v u)" "ps = [] \<longrightarrow> rest u = ''v''"
      by (auto simp: param_next_def or_void_def)
  qed
  have enc: "wp (demangle_encoding (run n)) (\<lambda>_. False)
      (\<lambda>x t. x = Some (concat (scoped f @ outs ?out @ (if paren \<lparr>paren = True, firstp = False\<rparr> then ['')''] else [])))) s"
    if "ok s" "rest s = mangle_name f @ ?m" "vs_texts (output_v s) = []" "\<not> ref_qualifier s" "dict s = []" for s
    unfolding n by (rule encoding_returns [OF that assms(3) disjI2 [OF start(2)] sz(1)], rule loop [unfolded n])
  have "demangle n h (Some org) = Inr (Some (concat (scoped f @ outs ?out @ (if paren \<lparr>paren = True, firstp = False\<rparr> then ['')''] else []))))"
    unfolding org by (rule demangle_Z [OF assms(1,2) enc])
  moreover have "concat (outs ?out) = ''('' @ cpp_params (map snd ps)"
    using concat_params_effects [of "fst (hd ps)" "snd (hd ps)" "tl ps"] by (cases ps) auto
  ultimately show ?thesis by simp
qed

text \<open>Without substitutions.\<close>

definition mangle_tys :: "ty list \<Rightarrow> string" where
  "mangle_tys ts = concat (map mangle_ty ts)"

definition mangle_params :: "ty list \<Rightarrow> string" where
  "mangle_params ts = or_void (mangle_tys ts)"

lemma agree_Nil: "agree X (map (Pair []) ts)"
  by (induction ts arbitrary: X) (auto simp: LONG_MAX_def)

lemma mangle_params_Nil: "mangle_params_in (map (Pair []) ts) = mangle_tys ts"
  by (induction ts) (auto simp: mangle_tys_def mangle_sub_Nil)

lemma demangle_functions:
  assumes "all_ok h" and "freed h = []" and "valid_name f"
    and "list_all (\<lambda>t. valid_ty t \<and> t \<noteq> Base Void) ts" and "length ts \<le> TRY_ROUNDS"
    and "org = ''_Z'' @ mangle_name f @ mangle_params ts"
    and "3 * length org \<le> SIZE_MAX" and "enough_fuel org \<le> n"
  shows "demangle n h (Some org) = Inr (Some (concat (scoped f) @ ''('' @ cpp_params ts @ '')''))"
  using demangle_params [OF assms(1-3), of "map (Pair []) ts" org n] assms
  by (simp add: agree_Nil mangle_params_Nil mangle_params_def list_all_iff comp_def)

text \<open>With the substitutions of the ABI: the dictionary grows from one parameter to the next.\<close>

fun compress :: "ty list \<Rightarrow> ty list \<Rightarrow> string" where
  "compress D [] = ''''"
| "compress D (t # ts) = mangled D t @ compress (grow D t) ts"

definition compress_params :: "string list \<Rightarrow> ty list \<Rightarrow> string" where
  "compress_params f ts = or_void (compress (scopes f) ts)"

definition entities :: "string list \<Rightarrow> ty list \<Rightarrow> ty list" where
  "entities f ts = foldl grow (scopes f) ts"

fun with_dict :: "ty list \<Rightarrow> ty list \<Rightarrow> param list" where
  "with_dict D [] = []"
| "with_dict D (t # ts) = (D, t) # with_dict (grow D t) ts"

lemma with_dict_simps: "mangle_params_in (with_dict D ts) = compress D ts" "map snd (with_dict D ts) = ts" "length (with_dict D ts) = length ts"
    "list_all (\<lambda>(D, t). P t) (with_dict D ts) = list_all P ts"
  by (induction D ts rule: with_dict.induct) auto

lemma grow_prefix: "\<exists>zs. foldl grow D ts = D @ zs"
proof (induction ts arbitrary: D)
  case (Cons t ts)
  obtain xs where "grow D t = D @ xs" using add_prefix [of D "learn D False t"] unfolding grow_def by blast
  moreover obtain ys where "foldl grow (grow D t) ts = grow D t @ ys" using Cons.IH by blast
  ultimately show ?case by simp
qed simp

lemma agree_with_dict:
  assumes "list_all valid_ty ts" and "no_clash (foldl grow D ts)" and "int (length (foldl grow D ts)) \<le> LONG_MAX"
  shows "agree (map cpp_type D) (with_dict D ts)"
  using assms
proof (induction ts arbitrary: D)
  case (Cons t ts)
  obtain zs where zs: "foldl grow (grow D t) ts = grow D t @ zs" using grow_prefix by blast
  obtain ys where ys: "foldl grow D (t # ts) = D @ ys" using grow_prefix by blast
  have "no_clash (grow D t)" using Cons.prems(2) zs no_clash_prefix by (metis foldl_Cons)
  with Cons.prems(1) have "recorded (map cpp_type D) (effects D t) = map cpp_type (grow D t)" by (simp add: recorded_grow)
  with Cons ys show ?case by simp
qed simp

lemma length_learn: "valid_ty t \<Longrightarrow> length (learn D inner t) \<le> length (mangle_sub D inner t)"
proof (induction t arbitrary: inner)
  case (Base b)
  have "length (learn_base D b) \<le> length (mangle_base D b)" if b: "b = Class ns" "valid_name ns" for ns
  proof -
    have "2 * length (class_path D ns) \<le> length (mangle_path (class_path D ns))"
      using class_path_Id [OF b(2)] by (intro length_mangle_path) auto
    moreover have "length (learn_base D (Class ns)) \<le> length (class_path D ns)"
      by (cases rule: class_path_cases [of D ns]) auto
    ultimately show ?thesis using b(1) by simp
  qed
  with Base show ?case by (cases b) (auto split: option.splits simp del: learn_base.simps(3))
next
  case (Qual q t)
  from Qual.IH [of "in_group q t"] Qual.prems show ?case by (auto split: option.splits)
qed

lemma length_grow: "valid_ty t \<Longrightarrow> length (grow D t) \<le> length D + length (mangled D t)"
proof -
  have "length (foldl add D xs) \<le> length D + length xs" for xs
  proof (induction xs arbitrary: D)
    case (Cons x xs)
    from Cons [of "add D x"] show ?case by (cases "x \<in> set D") (simp_all add: add_def [of D x])
  qed simp
  from this [of "learn D False t"] show "valid_ty t \<Longrightarrow> ?thesis" using length_learn [of t D False] by (simp add: grow_def)
qed

lemma length_entities: "list_all valid_ty ts \<Longrightarrow> length (foldl grow D ts) \<le> length D + length (compress D ts)"
proof (induction ts arbitrary: D)
  case (Cons t ts)
  from Cons.IH [of "grow D t"] Cons.prems length_grow [of t D] show ?case by simp
qed simp

lemma demangle_compressed:
  assumes "all_ok h" and "freed h = []" and "valid_name f"
    and "list_all (\<lambda>t. valid_ty t \<and> t \<noteq> Base Void) ts" and "length ts \<le> TRY_ROUNDS" and "no_clash (entities f ts)"
    and org: "org = ''_Z'' @ mangle_name f @ compress_params f ts"
    and "3 * length org \<le> SIZE_MAX" and "enough_fuel org \<le> n"
  shows "demangle n h (Some org) = Inr (Some (concat (scoped f) @ ''('' @ cpp_params ts @ '')''))"
proof -
  have valid: "list_all valid_ty ts" using assms(4) by (auto simp: list_all_iff)
  have "length (scopes f) \<le> length (mangle_name f)" using length_mangle_name [OF assms(3)] by (simp add: scopes_def)
  then have "length (entities f ts) \<le> length org"
    using length_entities [OF valid, of "scopes f"] by (auto simp: org entities_def compress_params_def or_void_def split: if_splits)
  then have "int (length (entities f ts)) \<le> LONG_MAX" using assms(8) by (simp add: SIZE_MAX_def LONG_MAX_def)
  then have "agree (map cpp_type (scopes f)) (with_dict (scopes f) ts)"
    using agree_with_dict [OF valid] assms(6) by (simp add: entities_def)
  with demangle_params [OF assms(1-3), of "with_dict (scopes f) ts" org n] assms show ?thesis
    by (simp add: with_dict_simps compress_params_def)
qed

section \<open>Properties\<close>

lemmas concrete = all_ok_def h0_def valid_name_def valid_id_def simple_def builtin_types_def mangle_params_def or_void_def
  mangle_tys_def mangle_name_def mangle_ids_def mangle_id_def enough_fuel_def SIZE_MAX_def TRY_ROUNDS_def
  CPP_DEMANGLE_TRY_LIMIT_def LONG_MAX_def c_isdigit_def NUL_def show_nat.simps digit_char_def char_of_def bit_0

text \<open>
  C6. Functions: the mangled name of a function with any nested name and any list of parameter types, with the
  substitutions that the ABI asks for, is demangled to its declaration, \<open>name(type, .., type)\<close>; for the empty list, mangled
  as \<open>v\<close>, to \<open>name()\<close>. No entity's text may begin the text of an earlier one, which the demangler takes for it. Memory must be
  available and the name shorter than a third of the address space; the scopes and the parameters must not exceed the
  loop bounds of the code.
\<close>

theorem demangle_substitutions:
  assumes "all_ok h" and "freed h = []" and "valid_name f"
    and "list_all (\<lambda>t. valid_ty t \<and> t \<noteq> Base Void) ts" and "length ts \<le> TRY_ROUNDS" and "no_clash (entities f ts)"
    and org: "org = ''_Z'' @ mangle_name f @ compress_params f ts"
    and "3 * length org \<le> SIZE_MAX" and "enough_fuel org \<le> n"
  shows "demangle n h (Some org) = Inr (Some (concat (scoped f) @ ''('' @ cpp_params ts @ '')''))"
  by (rule demangle_compressed [OF assms])

theorem demangle_substitutions_witness:
  "demangle 200 h0 (Some ''_ZN3foo3barERKNS_3bazEPS0_PS1_'') = Inr (Some ''foo::bar(foo::baz const&, foo::baz*, foo::baz const*)'')"
proof -
  let ?baz = "Base (Class [''foo'', ''baz''])" and ?f = "[''foo'', ''bar'']"
  let ?ts = "[Qual TYPE_REF (Qual TYPE_CST ?baz), Qual TYPE_PTR ?baz, Qual TYPE_PTR (Qual TYPE_CST ?baz)]"
  have "demangle 200 h0 (Some ''_ZN3foo3barERKNS_3bazEPS0_PS1_'')
      = Inr (Some (concat (scoped ?f) @ ''('' @ cpp_params ?ts @ '')''))"
  proof (rule demangle_substitutions)
    show "''_ZN3foo3barERKNS_3bazEPS0_PS1_'' = ''_Z'' @ mangle_name ?f @ compress_params ?f ?ts" by code_simp
    show "no_clash (entities ?f ?ts)" by code_simp
  qed (simp_all add: concrete)
  then show ?thesis by simp
qed

text \<open>
  The same for names that spell every entity out, which compilers do not produce but the demangler accepts; without any condition
  on the texts.
\<close>

theorem demangle_function:
  assumes "all_ok h" and "freed h = []" and "valid_name f"
    and "list_all (\<lambda>t. valid_ty t \<and> t \<noteq> Base Void) ts" and "length ts \<le> TRY_ROUNDS"
    and org: "org = ''_Z'' @ mangle_name f @ mangle_params ts"
    and "3 * length org \<le> SIZE_MAX" and "enough_fuel org \<le> n"
  shows "demangle n h (Some org) = Inr (Some (concat (scoped f) @ ''('' @ cpp_params ts @ '')''))"
  by (rule demangle_functions [OF assms])

theorem demangle_function_witness:
  "demangle 200 h0 (Some ''_ZN3foo3barERK3bazPi'') = Inr (Some ''foo::bar(baz const&, int*)'')"
proof -
  let ?ts = "[Qual TYPE_REF (Qual TYPE_CST (Base (Class [''baz'']))), Qual TYPE_PTR (Base (Builtin CHR ''i''))]"
  have "demangle 200 h0 (Some ''_ZN3foo3barERK3bazPi'')
      = Inr (Some (concat (scoped [''foo'', ''bar'']) @ ''('' @ cpp_params ?ts @ '')''))"
    by (rule demangle_function) (simp_all add: concrete)
  then show ?thesis by (simp add: concrete)
qed

text \<open>
  Data: the mangled name of a variable, with any scopes, is demangled to the name with its
  scopes and no parameter list.
\<close>

theorem demangle_variable:
  assumes "all_ok h" and "freed h = []" and "valid_name f" and org: "org = ''_Z'' @ mangle_name f"
    and "length org \<le> SIZE_MAX" and "enough_fuel org \<le> n"
  shows "demangle n h (Some org) = Inr (Some (concat (scoped f)))"
proof -
  let ?td = "\<lparr>paren = False, firstp = True\<rparr>"
  obtain m where n: "n = Suc (Suc m)" using assms(6) by (cases n; cases "n - 1") (auto simp: enough_fuel_def)
  have stop: "does (main_round (run n) (?td, False, False)) 0 [] (\<lambda>x u. x = Stop (True, ?td, False, False)) u"
    if "ok u" "rest u = []" "cur u \<le> length (buf u)" for u
    unfolding main_round_def prod.case by (rule does_peek_end) (use that in \<open>auto simp: rest_def intro: does_ret\<close>)
  have loop: "does (limited TRY_ROUNDS z (main_round (run n)) (?td, False, False)) 0 [] (\<lambda>x u. x = (True, ?td, False, False)) u"
    if "ok u" "rest u = []" "cur u \<le> length (buf u)" for u z
    by (rule does_limited_stop, rule stop [OF that])
  have sz: "length (mangle_name f) \<le> SIZE_MAX" using assms(5) by (simp add: org)
  have enc: "wp (demangle_encoding (run n)) (\<lambda>_. False) (\<lambda>x t. x = Some (concat (scoped f @ outs [] @ (if paren ?td then ['')''] else [])))) s"
    if "ok s" "rest s = mangle_name f @ []" "vs_texts (output_v s) = []" "\<not> ref_qualifier s" "dict s = []" for s
    unfolding n by (rule encoding_returns [OF that assms(3) disjI1 [OF refl] sz], rule loop [unfolded n])
  have "demangle n h (Some (''_Z'' @ mangle_name f @ []))
      = Inr (Some (concat (scoped f @ outs [] @ (if paren ?td then ['')''] else []))))"
    by (rule demangle_Z [OF assms(1,2) enc])
  then show ?thesis by (simp add: org)
qed

theorem demangle_variable_witness: "demangle 100 h0 (Some ''_ZN3std4coutE'') = Inr (Some ''std::cout'')"
proof -
  have "demangle 100 h0 (Some ''_ZN3std4coutE'') = Inr (Some (concat (scoped [''std'', ''cout''])))"
    by (rule demangle_variable) (simp_all add: concrete)
  then show ?thesis by simp
qed

lemma demangle_types:
  assumes "all_ok h" and "freed h = []" and "valid_ty t" and "length (mangle_ty t) \<le> SIZE_MAX"
    and "enough_fuel (mangle_ty t) \<le> n"
  shows "demangle n h (Some (mangle_ty t)) = Inr (Some (cpp_type t))"
proof -
  have m: "mangled [] t = mangle_ty t" by (rule mangle_sub_Nil)
  obtain c r where c: "mangle_ty t = c # r" "c \<noteq> CHR ''_''" using mangled_start [OF assms(3), of "[]" False] m by metis
  obtain s where s: "cpp_demangle_data_init (mangle_ty t) 0 (initial_dd h) = Ok True s" "ok s" "rest s = mangle_ty t"
    "vs_texts (output_v s) = []" "\<not> ref_qualifier s"
    by (rule data_init_ok [OF assms(1,2), of "mangle_ty t" 0]) simp
  obtain k where k: "n = Suc k" using assms(5) by (cases n) (auto simp: enough_fuel_def)
  have "readable [] t k [] s"
    using s assms(3-5) m length_quals [of "[]" t] k
    by (auto simp: readable_def dictionary_def enough_fuel_def LONG_MAX_def vs_size_def vs_texts_def)
  with does_type s(5) have type: "does (run n (C_type None)) (length (mangled [] t)) (effects [] t) (\<lambda>x u. x = (True, None) \<and> \<not> ref_qualifier u) s"
    unfolding k by blast
  have ne: "cpp_type t \<noteq> []" by (rule cpp_type_nonempty [OF assms(3)])
  have call: "does (call (run n) (C_type None)) (length (mangled [] t)) (effects [] t) (\<lambda>b u. b) s"
    unfolding call_def by (rule does_bind1 [OF type]) (auto intro!: does_ret dest: moves_ok)
  have "wp (demangle_type (run n)) (\<lambda>_. False) (\<lambda>x u. x = Some (cpp_type t)) s"
    unfolding demangle_type_def
  proof (rule wp_does [OF call], goal_cases)
    case (1 b u)
    then have "ok u" "concat (vs_texts (output_v u)) = cpp_type t"
      using s(4) by (simp_all only: moves_def append_Nil concat_effects)
    with output_returns [of u] 1(2) ne show ?case by simp
  qed
  with s(1) show ?thesis
    by (auto simp: demangle_def cxa_demangle_gnu3_def c bind_def wp_def split: res.splits)
qed

text \<open>
  Types: a name that does not begin with \<open>_Z\<close> is read as a type, and every mangled type is
  demangled to its text.
\<close>

theorem demangle_type_text:
  assumes "all_ok h" and "freed h = []" and "valid_ty t" and "length (mangle_ty t) \<le> SIZE_MAX"
    and "enough_fuel (mangle_ty t) \<le> n"
  shows "demangle n h (Some (mangle_ty t)) = Inr (Some (cpp_type t))"
  by (rule demangle_types [OF assms])

theorem demangle_type_text_witness: "demangle 100 h0 (Some ''PKc'') = Inr (Some ''char const*'')"
  using demangle_type_text [of h0 "Qual TYPE_PTR (Qual TYPE_CST (Base (Builtin CHR ''c'')))" 100]
  by (simp add: concrete)

end
