(* ===== verification/Demangle_Api.thy ===== *)
theory Demangle_Api
  imports Demangle_Roundtrip
begin

text \<open>
  \<open>__cxa_demangle\<close> (\<open>typeinfo.cc\<close>): the entry point of the C++ ABI around \<open>__cxa_demangle_gnu3\<close>, with its
  protocol on the caller's buffer, its length and the status.

  The buffer is the list of the bytes of the caller's block, so that its length is the real size of the block;
  \<open>n\<close> and \<open>status\<close> are \<open>None\<close> for a null pointer and else the value pointed to. \<open>realloc_ok k\<close> says
  whether \<open>realloc\<close> finds \<open>k\<close> bytes.
\<close>

section \<open>The wrapper\<close>

record demangled =
  r_buf :: "char list option"      \<comment> \<open>the block that is returned\<close>
  r_n :: "nat option"
  r_status :: "int option"

definition set_status :: "int \<Rightarrow> int option \<Rightarrow> int option" where
  "set_status v status = map_option (\<lambda>_. v) status"

definition fill_buffer :: "string \<Rightarrow> char list \<Rightarrow> nat option \<Rightarrow> int option \<Rightarrow> fault + demangled" where
  "fill_buffer dem b n status =
     (if length b < length dem + 1 then Inl Buffer_Overflow
      else Inr \<lparr>r_buf = Some (dem @ NUL # drop (length dem + 1) b), r_n = map_option (\<lambda>_. length dem) n,
        r_status = set_status 0 status\<rparr>)"

text \<open>The bytes beyond the old block are overwritten before anything reads them; the model starts them at zero.\<close>

definition realloc :: "nat \<Rightarrow> char list \<Rightarrow> char list" where
  "realloc k old = take k old @ replicate (k - length old) NUL"

definition grow_buffer :: "(nat \<Rightarrow> bool) \<Rightarrow> string \<Rightarrow> char list \<Rightarrow> nat option \<Rightarrow> int option \<Rightarrow> fault + demangled" where
  "grow_buffer realloc_ok dem old n status =
     (if realloc_ok (length dem + 1) then fill_buffer dem (realloc (length dem + 1) old) n status
      else Inr \<lparr>r_buf = None, r_n = n, r_status = set_status (- 1) status\<rparr>)"

definition cxa_demangle ::
    "nat \<Rightarrow> heap \<Rightarrow> (nat \<Rightarrow> bool) \<Rightarrow> string option \<Rightarrow> char list option \<Rightarrow> nat option \<Rightarrow> int option \<Rightarrow> fault + demangled" where
  "cxa_demangle fuel h realloc_ok mangled_name dst n status =
     (case demangle fuel h mangled_name of
        Inl e \<Rightarrow> Inl e
      | Inr None \<Rightarrow> Inr \<lparr>r_buf = None, r_n = n, r_status = set_status (- 2) status\<rparr>
      | Inr (Some dem) \<Rightarrow>
          (case dst of None \<Rightarrow> grow_buffer realloc_ok dem [] n status
           | Some b \<Rightarrow> (case n of None \<Rightarrow> Inl Out_Of_Bounds
               | Some k \<Rightarrow> if k < length dem + 1 then grow_buffer realloc_ok dem b n status else fill_buffer dem b n status)))"

lemma length_realloc [simp]: "length (realloc k old) = k"
  by (simp add: realloc_def min_def)

lemma cxa_demangle_fresh:
  assumes "demangle fuel h org = Inr (Some dem)" and "realloc_ok (length dem + 1)"
  shows "cxa_demangle fuel h realloc_ok org None n (Some st)
    = Inr \<lparr>r_buf = Some (dem @ [NUL]), r_n = map_option (\<lambda>_. length dem) n, r_status = Some 0\<rparr>"
  using assms by (simp add: cxa_demangle_def grow_buffer_def fill_buffer_def set_status_def)

section \<open>Properties\<close>

text \<open>
  \<open>__cxa_demangle\<close> keeps the protocol of the ABI: a caller that gives no buffer, or a buffer of at least \<open>*n\<close> bytes
  with its length, gets a block that holds the demangled name and its terminator, or a null pointer with status -1 when
  memory is short and -2 when the name is not demangled. The buffer is never written beyond its end, and it
  is grown only when \<open>*n\<close> is too small.
\<close>

theorem cxa_demangle_protocol:
  assumes "\<And>b. dst = Some b \<Longrightarrow> \<exists>k. n = Some k \<and> k \<le> length b"
  shows "cxa_demangle fuel h realloc_ok name dst n (Some st) =
    (case demangle fuel h name of Inl e \<Rightarrow> Inl e
     | Inr None \<Rightarrow> Inr \<lparr>r_buf = None, r_n = n, r_status = Some (- 2)\<rparr>
     | Inr (Some dem) \<Rightarrow>
         let small = (case (dst, n) of (Some b, Some k) \<Rightarrow> k \<le> length dem | _ \<Rightarrow> True)
         in if small \<and> \<not> realloc_ok (length dem + 1) then Inr \<lparr>r_buf = None, r_n = n, r_status = Some (- 1)\<rparr>
            else Inr \<lparr>r_buf = Some (dem @ NUL # (if small then [] else drop (length dem + 1) (the dst))),
              r_n = map_option (\<lambda>_. length dem) n, r_status = Some 0\<rparr>)"
  using assms
  by (auto simp: cxa_demangle_def grow_buffer_def fill_buffer_def set_status_def Let_def split: sum.splits option.splits)

theorem cxa_demangle_protocol_witness:
  "cxa_demangle 200 h0 (\<lambda>k. True) None (Some [NUL, NUL]) (Some 2) (Some 7) = Inr \<lparr>r_buf = None, r_n = Some 2, r_status = Some (- 2)\<rparr>"
proof -
  have "demangle 200 h0 None = Inr None" by (simp add: demangle_def cxa_demangle_gnu3_def ret_def)
  then show ?thesis using cxa_demangle_protocol [of "Some [NUL, NUL]" "Some 2" 200 h0 "\<lambda>k. True" None 7] by simp
qed



text \<open>The same for names that spell every entity out.\<close>

theorem cxa_demangle_function:
  assumes "all_ok h" and "freed h = []" and "valid_name f"
    and "list_all (\<lambda>t. valid_ty t \<and> t \<noteq> Base Void) ts" and "length ts \<le> TRY_ROUNDS"
    and "org = ''_Z'' @ mangle_name f @ mangle_params ts"
    and "3 * length org \<le> SIZE_MAX" and "enough_fuel org \<le> fuel"
    and "decl = concat (scoped f) @ ''('' @ cpp_params ts @ '')''" and "realloc_ok (length decl + 1)"
  shows "cxa_demangle fuel h realloc_ok (Some org) None n (Some st)
    = Inr \<lparr>r_buf = Some (decl @ [NUL]), r_n = map_option (\<lambda>_. length decl) n, r_status = Some 0\<rparr>"
proof -
  have "demangle fuel h (Some org) = Inr (Some decl)"
    using assms(9) demangle_functions [OF assms(1-8)] by simp
  then show ?thesis by (rule cxa_demangle_fresh) (rule assms(10))
qed

theorem cxa_demangle_function_witness:
  "cxa_demangle 200 h0 (\<lambda>k. k \<le> 100) (Some ''_ZN3foo3barERK3bazPi'') None (Some 7) (Some 9)
    = Inr \<lparr>r_buf = Some (''foo::bar(baz const&, int*)'' @ [NUL]), r_n = Some 26, r_status = Some 0\<rparr>"
proof -
  let ?ts = "[Qual TYPE_REF (Qual TYPE_CST (Base (Class [''baz'']))), Qual TYPE_PTR (Base (Builtin CHR ''i''))]"
  have "cxa_demangle 200 h0 (\<lambda>k. k \<le> 100) (Some ''_ZN3foo3barERK3bazPi'') None (Some 7) (Some 9)
      = Inr \<lparr>r_buf = Some ((concat (scoped [''foo'', ''bar'']) @ ''('' @ cpp_params ?ts @ '')'') @ [NUL]),
          r_n = map_option (\<lambda>_. length (concat (scoped [''foo'', ''bar'']) @ ''('' @ cpp_params ?ts @ '')'')) (Some (7 :: nat)), r_status = Some 0\<rparr>"
    by (rule cxa_demangle_function [where f = "[''foo'', ''bar'']" and ts = ?ts]) (simp_all add: concrete)
  then show ?thesis by (simp add: concrete)
qed

end
