(* ===== verification/Guard.thy ===== *)
theory Guard
  imports Prelude "HOL-Library.Word"
begin

text \<open>
  Guards of function-local statics (\<open>guard.cc\<close> and the part of \<open>atomic.h\<close> it uses). The two
  guard classes are modelled at the granularity of their atomic accesses, with any number of
  threads interleaved; \<open>sw_step\<close> is the system of the threads that use a \<open>SingleWordGuard\<close>,
  \<open>dw_step\<close> that of a \<open>DoubleWordGuard\<close>. Both refine \<open>guard_spec_step\<close>, a lock that ends once the
  static is initialised. The accesses are sequentially consistent: the model does not reorder
  them.
\<close>

section \<open>Atomic words\<close>

text \<open>
  \<open>compare_exchange(expected, desired)\<close>: success, the new \<open>expected\<close> and the new value. The
  weak form may fail although the value is the expected one.
\<close>

definition compare_exchange :: "bool \<Rightarrow> 'a \<Rightarrow> 'a \<Rightarrow> 'a \<Rightarrow> bool \<times> 'a \<times> 'a" where
  "compare_exchange spurious expected desired val =
     (if val = expected \<and> \<not> spurious then (True, expected, desired) else (False, val, val))"

datatype GuardState = InitDone | InitLockSucceeded | InitLockFailed

text \<open>The first byte in memory of a word, which the code of the compiler compares with 0.\<close>

definition first_byte :: "bool \<Rightarrow> 'w::len word \<Rightarrow> 'w word" where
  "first_byte big v = take_bit 8 (if big then drop_bit (LENGTH('w) - 8) v else v)"

definition bit_value :: "nat \<Rightarrow> 'w::len word" where
  "bit_value b = push_bit b 1"

section \<open>The single-word guard\<close>

definition sw_unlock :: "nat \<Rightarrow> bool \<Rightarrow> 'w::len word" where
  "sw_unlock initBit isInitialised = (if isInitialised then bit_value initBit else 0)"

definition sw_unlock_assert :: "bool \<Rightarrow> nat \<Rightarrow> 'w::len word \<Rightarrow> bool" where
  "sw_unlock_assert big initBit val = (first_byte big (bit_value initBit :: 'w word) \<noteq> 0)"

definition sw_try_lock :: "nat \<Rightarrow> nat \<Rightarrow> bool \<Rightarrow> 'w::len word \<Rightarrow> GuardState \<times> 'w word" where
  "sw_try_lock lockedBit initBit spurious val =
     (let (success, old, val') = compare_exchange spurious 0 (bit_value lockedBit) val in
      if success then (InitLockSucceeded, val')
      else if old = bit_value initBit then (InitDone, val')
      else (InitLockFailed, val'))"

definition sw_is_initialised :: "nat \<Rightarrow> 'w::len word \<Rightarrow> bool" where
  "sw_is_initialised initBit val = (and val (bit_value initBit) = bit_value initBit)"

text \<open>
  Where a thread is: outside the functions, before the first check of \<open>__cxa_guard_acquire\<close>,
  in its loop, between acquire and release or abort (running the constructor), after
  initialisation, or stopped by an assertion.
\<close>

datatype sw_pc = S_Idle | S_Check | S_Try | S_Own | S_Done | S_Failed

record 'v sw =
  sw_val :: 'v
  sw_pc :: "nat \<Rightarrow> sw_pc"

definition sw_start :: "'w::len word sw" where
  "sw_start = \<lparr>sw_val = 0, sw_pc = (\<lambda>t. S_Idle)\<rparr>"

text \<open>The switch in the loop of \<open>__cxa_guard_acquire\<close>.\<close>

fun sw_acquire_switch :: "GuardState \<Rightarrow> sw_pc" where
  "sw_acquire_switch InitDone = S_Done"
| "sw_acquire_switch InitLockSucceeded = S_Own"
| "sw_acquire_switch InitLockFailed = S_Try"

definition sw_goto :: "nat \<Rightarrow> sw_pc \<Rightarrow> 'v sw \<Rightarrow> 'v sw" where
  "sw_goto t p s = s\<lparr>sw_pc := (sw_pc s)(t := p)\<rparr>"

inductive sw_step :: "nat \<Rightarrow> nat \<Rightarrow> bool \<Rightarrow> 'w::len word sw \<Rightarrow> 'w word sw \<Rightarrow> bool" for lockedBit initBit big where
  sw_call: "sw_pc s t \<in> {S_Idle, S_Done} \<Longrightarrow> sw_step lockedBit initBit big s (sw_goto t S_Check s)"
| sw_check: "sw_pc s t = S_Check \<Longrightarrow>
    sw_step lockedBit initBit big s (sw_goto t (if sw_is_initialised initBit (sw_val s) then S_Done else S_Try) s)"
| sw_try: "sw_pc s t = S_Try \<Longrightarrow> sw_try_lock lockedBit initBit spurious (sw_val s) = (r, v) \<Longrightarrow>
    sw_step lockedBit initBit big s (sw_goto t (sw_acquire_switch r) (s\<lparr>sw_val := v\<rparr>))"
| sw_release: "sw_pc s t = S_Own \<Longrightarrow> s' = s\<lparr>sw_val := sw_unlock initBit True\<rparr> \<Longrightarrow>
    sw_step lockedBit initBit big s (sw_goto t (if sw_unlock_assert big initBit (sw_val s') then S_Done else S_Failed) s')"
| sw_abort: "sw_pc s t = S_Own \<Longrightarrow> s' = s\<lparr>sw_val := sw_unlock initBit False\<rparr> \<Longrightarrow>
    sw_step lockedBit initBit big s (sw_goto t (if sw_unlock_assert big initBit (sw_val s') then S_Idle else S_Failed) s')"

section \<open>The double-word guard\<close>

datatype dw_pc = D_Idle | D_Check | D_Try | D_Recheck | D_Drop | D_Own | D_Unlock bool | D_Assert bool | D_Done | D_Failed

record dw =
  init_word :: "32 word"
  lock_word :: "32 word"
  dw_pc :: "nat \<Rightarrow> dw_pc"

definition dw_start :: dw where
  "dw_start = \<lparr>init_word = 0, lock_word = 0, dw_pc = (\<lambda>t. D_Idle)\<rparr>"

definition dw_is_initialised :: "nat \<Rightarrow> dw \<Rightarrow> bool" where
  "dw_is_initialised initBit s = (and (init_word s) (bit_value initBit) = bit_value initBit)"

definition dw_goto :: "nat \<Rightarrow> dw_pc \<Rightarrow> dw \<Rightarrow> dw" where
  "dw_goto t p s = s\<lparr>dw_pc := (dw_pc s)(t := p)\<rparr>"

text \<open>
  \<open>try_lock\<close> takes up to three accesses: the exchange, the check of the other word with the
  lock held and, when the static was initialised meanwhile, the release. \<open>unlock\<close> takes two
  stores and, in a build with assertions, reads the first byte after the lock is free.
\<close>

inductive dw_step :: "nat \<Rightarrow> nat \<Rightarrow> bool \<Rightarrow> dw \<Rightarrow> dw \<Rightarrow> bool" for lockedBit initBit big where
  dw_call: "dw_pc s t \<in> {D_Idle, D_Done} \<Longrightarrow> dw_step lockedBit initBit big s (dw_goto t D_Check s)"
| dw_check: "dw_pc s t = D_Check \<Longrightarrow>
    dw_step lockedBit initBit big s (dw_goto t (if dw_is_initialised initBit s then D_Done else D_Try) s)"
| dw_try: "dw_pc s t = D_Try \<Longrightarrow> compare_exchange spurious 0 (bit_value lockedBit) (lock_word s) = (success, old, v) \<Longrightarrow>
    dw_step lockedBit initBit big s (dw_goto t (if success then D_Recheck else D_Try) (s\<lparr>lock_word := v\<rparr>))"
| dw_recheck: "dw_pc s t = D_Recheck \<Longrightarrow>
    dw_step lockedBit initBit big s (dw_goto t (if dw_is_initialised initBit s then D_Drop else D_Own) s)"
| dw_drop: "dw_pc s t = D_Drop \<Longrightarrow> dw_step lockedBit initBit big s (dw_goto t D_Done (s\<lparr>lock_word := 0\<rparr>))"
| dw_unlock_init: "dw_pc s t = D_Own \<Longrightarrow>
    dw_step lockedBit initBit big s (dw_goto t (D_Unlock b) (s\<lparr>init_word := (if b then bit_value initBit else 0)\<rparr>))"
| dw_unlock_lock: "dw_pc s t = D_Unlock b \<Longrightarrow>
    dw_step lockedBit initBit big s (dw_goto t (D_Assert b) (s\<lparr>lock_word := 0\<rparr>))"
| dw_unlock_assert: "dw_pc s t = D_Assert b \<Longrightarrow>
    dw_step lockedBit initBit big s (dw_goto t
      (if (first_byte big (init_word s) \<noteq> 0) = b then (if b then D_Done else D_Idle) else D_Failed) s)"

section \<open>The specification\<close>

datatype phase = Free | Busy nat | Ready

datatype status = Outside | Waiting | Inside | Passed

record gspec =
  phase :: phase
  status :: "nat \<Rightarrow> status"
  built :: nat

definition guard_spec_start :: gspec where
  "guard_spec_start = \<lparr>phase = Free, status = (\<lambda>t. Outside), built = 0\<rparr>"

definition spec_goto :: "nat \<Rightarrow> status \<Rightarrow> gspec \<Rightarrow> gspec" where
  "spec_goto t p a = a\<lparr>status := (status a)(t := p)\<rparr>"

text \<open>
  A thread waits until the static is initialised or nobody is constructing it; then it passes or
  constructs. Construction ends with the static initialised for good, or gives up and lets
  another thread try. \<open>built\<close> counts completed constructions.
\<close>

inductive guard_spec_step :: "gspec \<Rightarrow> gspec \<Rightarrow> bool" where
  spec_enter: "status a t \<in> {Outside, Passed} \<Longrightarrow> guard_spec_step a (spec_goto t Waiting a)"
| spec_pass: "status a t = Waiting \<Longrightarrow> phase a = Ready \<Longrightarrow> guard_spec_step a (spec_goto t Passed a)"
| spec_lock: "status a t = Waiting \<Longrightarrow> phase a = Free \<Longrightarrow> guard_spec_step a (spec_goto t Inside (a\<lparr>phase := Busy t\<rparr>))"
| spec_finish: "status a t = Inside \<Longrightarrow> phase a = Busy t \<Longrightarrow>
    guard_spec_step a (spec_goto t Passed (a\<lparr>phase := Ready, built := Suc (built a)\<rparr>))"
| spec_give_up: "status a t = Inside \<Longrightarrow> phase a = Busy t \<Longrightarrow> guard_spec_step a (spec_goto t Outside (a\<lparr>phase := Free\<rparr>))"

inductive_cases sw_stepE: "sw_step lockedBit initBit big s s'"
inductive_cases dw_stepE: "dw_step lockedBit initBit big s s'"
inductive_cases spec_stepE: "guard_spec_step a b"

definition spec_inv :: "gspec \<Rightarrow> bool" where
  "spec_inv a \<longleftrightarrow> (\<forall>t. status a t = Inside \<longleftrightarrow> phase a = Busy t) \<and> (\<forall>t. status a t = Passed \<longrightarrow> phase a = Ready)
     \<and> built a = (if phase a = Ready then 1 else 0)"

lemma spec_inv_start: "spec_inv guard_spec_start"
  by (simp add: spec_inv_def guard_spec_start_def)

lemma spec_inv_step: "spec_inv a \<Longrightarrow> guard_spec_step a b \<Longrightarrow> spec_inv b"
  by (erule spec_stepE) (auto simp: spec_inv_def spec_goto_def, metis status.distinct)

lemma spec_inv_steps: "guard_spec_step\<^sup>*\<^sup>* a b \<Longrightarrow> spec_inv a \<Longrightarrow> spec_inv b"
  by (induction rule: rtranclp_induct) (auto intro: spec_inv_step)

section \<open>Refinement\<close>

text \<open>A guard refines the specification when a relation between their states is kept by steps.\<close>

locale guard_refinement =
  fixes step :: "'s \<Rightarrow> 's \<Rightarrow> bool" and start :: 's and sim :: "'s \<Rightarrow> gspec \<Rightarrow> bool"
  assumes sim_start: "sim start guard_spec_start"
    and sim_step: "sim s a \<Longrightarrow> spec_inv a \<Longrightarrow> step s s' \<Longrightarrow> \<exists>b. guard_spec_step\<^sup>*\<^sup>* a b \<and> sim s' b"
begin

lemma sim_reach: "step\<^sup>*\<^sup>* start s \<Longrightarrow> \<exists>a. guard_spec_step\<^sup>*\<^sup>* guard_spec_start a \<and> sim s a"
proof (induction rule: rtranclp_induct)
  case base
  then show ?case using sim_start by blast
next
  case (step s s')
  then obtain a where a: "guard_spec_step\<^sup>*\<^sup>* guard_spec_start a" "sim s a" by blast
  with spec_inv_steps [OF a(1) spec_inv_start] step(2) obtain b where "guard_spec_step\<^sup>*\<^sup>* a b" "sim s' b"
    using sim_step by blast
  with a(1) show ?case by (meson rtranclp_trans)
qed

lemma reach_inv:
  assumes "step\<^sup>*\<^sup>* start s"
  obtains a where "sim s a" "spec_inv a"
  using sim_reach [OF assms] spec_inv_steps [OF _ spec_inv_start] by blast

end

fun sw_status :: "sw_pc \<Rightarrow> status" where
  "sw_status S_Idle = Outside"
| "sw_status S_Check = Waiting"
| "sw_status S_Try = Waiting"
| "sw_status S_Own = Inside"
| "sw_status S_Done = Passed"
| "sw_status S_Failed = Outside"

text \<open>The layout of a guard word: two different bits, the first byte shows initialisation only.\<close>

definition layout :: "'w::len itself \<Rightarrow> nat \<Rightarrow> nat \<Rightarrow> bool \<Rightarrow> bool" where
  "layout w lockedBit initBit big \<longleftrightarrow> lockedBit < LENGTH('w) \<and> initBit < LENGTH('w) \<and> lockedBit \<noteq> initBit
     \<and> first_byte big (bit_value initBit :: 'w word) \<noteq> 0 \<and> first_byte big (bit_value lockedBit :: 'w word) = 0"

definition sw_sim :: "nat \<Rightarrow> nat \<Rightarrow> 'w::len word sw \<Rightarrow> gspec \<Rightarrow> bool" where
  "sw_sim lockedBit initBit s a \<longleftrightarrow> (\<forall>t. status a t = sw_status (sw_pc s t)) \<and> (\<forall>t. sw_pc s t \<noteq> S_Failed)
     \<and> sw_val s = (case phase a of Free \<Rightarrow> 0 | Busy t \<Rightarrow> bit_value lockedBit | Ready \<Rightarrow> bit_value initBit)"

lemma bit_value_nonzero: "b < LENGTH('w::len) \<Longrightarrow> (bit_value b :: 'w word) \<noteq> 0"
  by (simp add: bit_value_def)

lemma bit_value_and:
  assumes "b < LENGTH('w::len)"
  shows "and (bit_value b' :: 'w word) (bit_value b) = bit_value b \<longleftrightarrow> b = b'"
proof
  assume "and (bit_value b' :: 'w word) (bit_value b) = bit_value b"
  then have "bit (and (bit_value b' :: 'w word) (bit_value b)) b = bit (bit_value b :: 'w word) b" by simp
  then show "b = b'" using assms by (auto simp: bit_value_def bit_and_iff bit_exp_iff)
qed simp

lemma bit_value_inject: "b < LENGTH('w::len) \<Longrightarrow> (bit_value b :: 'w word) = bit_value b' \<longleftrightarrow> b = b'"
  using bit_value_and [of b b', where 'w = 'w] by auto

lemma layoutD:
  assumes "layout TYPE('w::len) lockedBit initBit big"
  shows "(bit_value lockedBit :: 'w word) \<noteq> 0" "(bit_value initBit :: 'w word) \<noteq> 0"
    "(bit_value lockedBit :: 'w word) \<noteq> bit_value initBit" "(bit_value initBit :: 'w word) \<noteq> bit_value lockedBit"
    "and (bit_value lockedBit :: 'w word) (bit_value initBit) \<noteq> bit_value initBit"
    "first_byte big (bit_value initBit :: 'w word) \<noteq> 0" "first_byte big (bit_value lockedBit :: 'w word) = 0"
  using assms bit_value_nonzero [where 'w = 'w] bit_value_inject [where 'w = 'w] bit_value_and [where 'w = 'w]
  by (auto simp: layout_def)

lemma sw_sim_goto:
  assumes "sw_sim lockedBit initBit s a" and "p \<noteq> S_Failed" and "sw_pc s' = sw_pc s" and "status b = status a"
    and "sw_val s' = (case phase b of Free \<Rightarrow> 0 | Busy t \<Rightarrow> bit_value lockedBit | Ready \<Rightarrow> bit_value initBit)"
  shows "sw_sim lockedBit initBit (sw_goto t p s') (spec_goto t (sw_status p) b)"
  using assms by (auto simp: sw_sim_def sw_goto_def spec_goto_def)

lemma sw_sim_stay:
  assumes "sw_sim lockedBit initBit s a" and "p \<noteq> S_Failed" and "sw_status p = sw_status (sw_pc s t)"
  shows "sw_sim lockedBit initBit (sw_goto t p s) a"
  using assms by (auto simp: sw_sim_def sw_goto_def)

lemma sw_simulates:
  assumes l: "layout TYPE('w::len) lockedBit initBit big" and sim: "sw_sim lockedBit initBit (s :: 'w word sw) a"
    and inv: "spec_inv a" and step: "sw_step lockedBit initBit big s s'"
  shows "\<exists>b. guard_spec_step\<^sup>*\<^sup>* a b \<and> sw_sim lockedBit initBit s' b"
  using step
proof (cases rule: sw_step.cases)
  case (sw_call t)
  then have "guard_spec_step a (spec_goto t Waiting a)" using sim by (intro spec_enter) (auto simp: sw_sim_def)
  moreover have "sw_sim lockedBit initBit s' (spec_goto t (sw_status S_Check) a)"
    unfolding sw_call by (rule sw_sim_goto [OF sim]) (use sim in \<open>auto simp: sw_sim_def\<close>)
  ultimately show ?thesis by auto
next
  case (sw_check t)
  show ?thesis
  proof (cases "phase a = Ready")
    case True
    then have "guard_spec_step a (spec_goto t Passed a)" using sim sw_check by (intro spec_pass) (auto simp: sw_sim_def)
    moreover have "sw_sim lockedBit initBit (sw_goto t S_Done s) (spec_goto t (sw_status S_Done) a)"
      by (rule sw_sim_goto [OF sim]) (use sim in \<open>auto simp: sw_sim_def\<close>)
    moreover have "sw_is_initialised initBit (sw_val s)" using True sim by (simp add: sw_sim_def sw_is_initialised_def)
    ultimately show ?thesis using sw_check by auto
  next
    case False
    then have "\<not> sw_is_initialised initBit (sw_val s)"
      using sim layoutD [OF l] by (auto simp: sw_sim_def sw_is_initialised_def split: phase.splits)
    moreover have "sw_sim lockedBit initBit (sw_goto t S_Try s) a" by (rule sw_sim_stay [OF sim]) (use sw_check in auto)
    ultimately show ?thesis using sw_check by auto
  qed
next
  case (sw_try t spurious r v)
  have w: "status a t = Waiting" using sim sw_try by (simp add: sw_sim_def)
  consider (stay) "r = InitLockFailed" "v = sw_val s" | (ready) "r = InitDone" "v = sw_val s" "phase a = Ready"
    | (lock) "r = InitLockSucceeded" "v = bit_value lockedBit" "phase a = Free"
    using sw_try(3) sim layoutD [OF l]
    by (cases "phase a") (auto simp: sw_try_lock_def compare_exchange_def sw_sim_def split: if_splits)
  then show ?thesis
  proof cases
    case stay
    have "sw_sim lockedBit initBit (sw_goto t S_Try s) a" by (rule sw_sim_stay [OF sim]) (use sw_try in auto)
    then show ?thesis using stay sw_try by auto
  next
    case ready
    have "sw_sim lockedBit initBit (sw_goto t S_Done s) (spec_goto t (sw_status S_Done) a)"
      by (rule sw_sim_goto [OF sim]) (use sim in \<open>auto simp: sw_sim_def\<close>)
    then show ?thesis using ready sw_try spec_pass [OF w] by auto
  next
    case lock
    have "sw_sim lockedBit initBit (sw_goto t S_Own (s\<lparr>sw_val := v\<rparr>)) (spec_goto t (sw_status S_Own) (a\<lparr>phase := Busy t\<rparr>))"
      by (rule sw_sim_goto [OF sim]) (use lock in auto)
    then show ?thesis using lock sw_try spec_lock [OF w] by auto
  qed
next
  case (sw_release t s1)
  then have i: "status a t = Inside" "phase a = Busy t" using sim inv by (auto simp: sw_sim_def spec_inv_def)
  have "sw_sim lockedBit initBit (sw_goto t S_Done s1) (spec_goto t (sw_status S_Done) (a\<lparr>phase := Ready, built := Suc (built a)\<rparr>))"
    by (rule sw_sim_goto [OF sim]) (use sw_release in \<open>auto simp: sw_unlock_def\<close>)
  then show ?thesis using sw_release spec_finish [OF i] layoutD(6) [OF l] by (auto simp: sw_unlock_assert_def)
next
  case (sw_abort t s1)
  then have i: "status a t = Inside" "phase a = Busy t" using sim inv by (auto simp: sw_sim_def spec_inv_def)
  have "sw_sim lockedBit initBit (sw_goto t S_Idle s1) (spec_goto t (sw_status S_Idle) (a\<lparr>phase := Free\<rparr>))"
    by (rule sw_sim_goto [OF sim]) (use sw_abort in \<open>auto simp: sw_unlock_def\<close>)
  then show ?thesis using sw_abort spec_give_up [OF i] layoutD(6) [OF l] by (auto simp: sw_unlock_assert_def)
qed

lemma sw_refines:
  assumes "layout TYPE('w::len) lockedBit initBit big"
  shows "guard_refinement (sw_step lockedBit initBit big) (sw_start :: 'w word sw) (sw_sim lockedBit initBit)"
  by unfold_locales
    (auto simp: sw_sim_def sw_start_def guard_spec_start_def intro: sw_simulates [OF assms, unfolded sw_sim_def])

fun dw_status :: "dw_pc \<Rightarrow> status" where
  "dw_status D_Check = Waiting"
| "dw_status D_Try = Waiting"
| "dw_status D_Recheck = Waiting"
| "dw_status D_Drop = Waiting"
| "dw_status D_Own = Inside"
| "dw_status (D_Unlock b) = (if b then Passed else Outside)"
| "dw_status (D_Assert b) = (if b then Passed else Outside)"
| "dw_status D_Done = Passed"
| "dw_status D_Idle = Outside"
| "dw_status D_Failed = Outside"

text \<open>The program points at which a thread holds the lock word.\<close>

definition dw_holds :: "dw_pc \<Rightarrow> bool" where
  "dw_holds p \<longleftrightarrow> p \<in> {D_Recheck, D_Drop, D_Own, D_Unlock True, D_Unlock False}"

definition holders :: "dw \<Rightarrow> nat set" where
  "holders s = {t. dw_holds (dw_pc s t)}"

definition dw_lock_inv :: "nat \<Rightarrow> dw \<Rightarrow> bool" where
  "dw_lock_inv lockedBit s \<longleftrightarrow>
     lock_word s = 0 \<and> holders s = {} \<or> lock_word s = bit_value lockedBit \<and> (\<exists>t. holders s = {t})"

definition dw_sim :: "nat \<Rightarrow> nat \<Rightarrow> dw \<Rightarrow> gspec \<Rightarrow> bool" where
  "dw_sim lockedBit initBit s a \<longleftrightarrow> status a = dw_status \<circ> dw_pc s \<and> dw_lock_inv lockedBit s
     \<and> init_word s = (if phase a = Ready then bit_value initBit else 0) \<and> (\<forall>t. dw_pc s t = D_Drop \<longrightarrow> phase a = Ready)"

lemma holders_goto:
  "holders (dw_goto t p s) = (if dw_holds p then insert t (holders s) else holders s - {t})"
  by (auto simp: holders_def dw_goto_def)

lemma holders_words [simp]: "holders (s\<lparr>lock_word := x\<rparr>) = holders s" "holders (s\<lparr>init_word := x\<rparr>) = holders s"
  by (simp_all add: holders_def)

lemma dw_goto_words [simp]:
  "lock_word (dw_goto t p s) = lock_word s" "init_word (dw_goto t p s) = init_word s"
  "dw_pc (dw_goto t p s) = (dw_pc s)(t := p)"
  by (simp_all add: dw_goto_def)

lemma spec_goto_parts [simp]:
  "phase (spec_goto t q a) = phase a" "status (spec_goto t q a) = (status a)(t := q)" "built (spec_goto t q a) = built a"
  by (simp_all add: spec_goto_def)

text \<open>A step that neither takes nor gives up the lock, one that takes it and one that gives it up.\<close>

lemma lock_inv_keep:
  assumes "dw_lock_inv lockedBit s" and "dw_holds p = dw_holds (dw_pc s t)" and "lock_word s' = lock_word s" and "dw_pc s' = dw_pc s"
  shows "dw_lock_inv lockedBit (dw_goto t p s')"
proof -
  have "holders (dw_goto t p s') = holders s" using assms(2,4) by (auto simp: holders_def)
  then show ?thesis using assms(1,3) by (simp add: dw_lock_inv_def)
qed

lemma lock_inv_take:
  assumes "dw_lock_inv lockedBit s" and "lock_word s = 0" and "dw_holds p" and "bit_value lockedBit \<noteq> (0 :: 32 word)"
  shows "dw_lock_inv lockedBit (dw_goto t p (s\<lparr>lock_word := bit_value lockedBit\<rparr>))"
  using assms by (auto simp: dw_lock_inv_def holders_goto)

lemma lock_inv_drop:
  assumes "dw_lock_inv lockedBit s" and "dw_holds (dw_pc s t)" and "\<not> dw_holds p"
  shows "dw_lock_inv lockedBit (dw_goto t p (s\<lparr>lock_word := 0\<rparr>))"
proof -
  have "t \<in> holders s" using assms(2) by (simp add: holders_def)
  then show ?thesis using assms(1,3) by (auto simp: dw_lock_inv_def holders_goto)
qed

lemma dw_sim_goto:
  assumes "dw_sim lockedBit initBit s a" and "dw_pc s' = dw_pc s" and "status b = status a"
    and "init_word s' = (if phase b = Ready then bit_value initBit else 0)"
    and "dw_lock_inv lockedBit (dw_goto t p s')"
    and "p = D_Drop \<longrightarrow> phase b = Ready" and "phase a = Ready \<longrightarrow> phase b = Ready"
  shows "dw_sim lockedBit initBit (dw_goto t p s') (spec_goto t (dw_status p) b)"
  using assms by (auto simp: dw_sim_def fun_upd_comp)

lemma spec_goto_same: "status a t = q \<Longrightarrow> spec_goto t q a = a"
  by (cases a) (auto simp: spec_goto_def)

lemma dw_status_Inside: "dw_status p = Inside \<longleftrightarrow> p = D_Own"
  by (cases p) auto

lemma dw_init_iff:
  assumes "dw_sim lockedBit initBit s a" and "bit_value initBit \<noteq> (0 :: 32 word)"
  shows "dw_is_initialised initBit s \<longleftrightarrow> phase a = Ready"
  using assms by (auto simp: dw_sim_def dw_is_initialised_def)

text \<open>Only the holder of the lock can be constructing.\<close>

lemma dw_holder_free:
  assumes "dw_sim lockedBit initBit s a" and "spec_inv a" and "dw_holds (dw_pc s t)" and "dw_pc s t \<noteq> D_Own" and "phase a \<noteq> Ready"
  shows "phase a = Free"
proof (cases "phase a")
  case (Busy u)
  then have "dw_pc s u = D_Own" using assms(1,2) by (auto simp: spec_inv_def dw_sim_def dw_status_Inside)
  then have "u \<in> holders s" "t \<in> holders s" using assms(3) by (simp_all add: holders_def dw_holds_def)
  then have "u = t" using assms(1) by (auto simp: dw_sim_def dw_lock_inv_def)
  with assms(4) \<open>dw_pc s u = D_Own\<close> show ?thesis by simp
qed (use assms(5) in auto)

lemma dw_sim_stay:
  assumes "dw_sim lockedBit initBit s a" and "dw_pc s' = dw_pc s" and "init_word s' = init_word s"
    and "dw_lock_inv lockedBit (dw_goto t p s')" and "p = D_Drop \<longrightarrow> phase a = Ready" and "dw_status p = dw_status (dw_pc s t)"
  shows "\<exists>b. guard_spec_step\<^sup>*\<^sup>* a b \<and> dw_sim lockedBit initBit (dw_goto t p s') b"
proof -
  have same: "spec_goto t (dw_status p) a = a" using assms(1,6) by (intro spec_goto_same) (simp add: dw_sim_def)
  have "init_word s' = (if phase a = Ready then bit_value initBit else 0)" using assms(1,3) by (simp add: dw_sim_def)
  from dw_sim_goto [OF assms(1,2) refl this assms(4,5) impI] have "dw_sim lockedBit initBit (dw_goto t p s') a"
    unfolding same .
  then show ?thesis by blast
qed

lemma dw_sim_move:
  assumes "dw_sim lockedBit initBit s a" and "dw_pc s' = dw_pc s" and "status b = status a"
    and "init_word s' = (if phase b = Ready then bit_value initBit else 0)" and "dw_lock_inv lockedBit (dw_goto t p s')"
    and "p \<noteq> D_Drop" and "phase a = Ready \<longrightarrow> phase b = Ready" and "guard_spec_step a (spec_goto t (dw_status p) b)"
  shows "\<exists>b. guard_spec_step\<^sup>*\<^sup>* a b \<and> dw_sim lockedBit initBit (dw_goto t p s') b"
  using dw_sim_goto [OF assms(1-5)] assms(6-8) by blast

lemma dw_simulates:
  assumes l: "layout TYPE(32) lockedBit initBit big" and sim: "dw_sim lockedBit initBit s a"
    and inv: "spec_inv a" and step: "dw_step lockedBit initBit big s s'"
  shows "\<exists>b. guard_spec_step\<^sup>*\<^sup>* a b \<and> dw_sim lockedBit initBit s' b"
proof -
  have st: "status a t = dw_status (dw_pc s t)" for t using sim by (simp add: dw_sim_def)
  have lock: "dw_lock_inv lockedBit s" and init: "init_word s = (if phase a = Ready then bit_value initBit else 0)"
    using sim by (simp_all add: dw_sim_def)
  note init_iff = dw_init_iff [OF sim layoutD(2) [OF l]]
  show ?thesis
    using step
  proof (cases rule: dw_step.cases)
    case (dw_call t)
    then show ?thesis
      by (auto intro!: dw_sim_move [OF sim] lock_inv_keep [OF lock] spec_enter simp: st init dw_holds_def)
  next
    case (dw_check t)
    show ?thesis
    proof (cases "phase a = Ready")
      case True
      then show ?thesis using dw_check init_iff
        by (auto intro!: dw_sim_move [OF sim] lock_inv_keep [OF lock] spec_pass simp: st init dw_holds_def)
    next
      case False
      then show ?thesis using dw_check init_iff
        by (auto intro!: dw_sim_stay [OF sim] lock_inv_keep [OF lock] simp: dw_holds_def)
    qed
  next
    case (dw_try t spurious success old v)
    show ?thesis
    proof (cases success)
      case True
      then have "v = bit_value lockedBit" "lock_word s = 0"
        using dw_try(3) by (auto simp: compare_exchange_def split: if_splits)
      then show ?thesis using True dw_try layoutD(1) [OF l]
        by (auto intro!: dw_sim_stay [OF sim] lock_inv_take [OF lock] simp: dw_holds_def)
    next
      case False
      then have "v = lock_word s" using dw_try(3) by (auto simp: compare_exchange_def split: if_splits)
      then show ?thesis using False dw_try
        by (auto intro!: dw_sim_stay [OF sim] lock_inv_keep [OF lock] simp: dw_holds_def)
    qed
  next
    case (dw_recheck t)
    show ?thesis
    proof (cases "phase a = Ready")
      case True
      then show ?thesis using dw_recheck init_iff
        by (auto intro!: dw_sim_stay [OF sim] lock_inv_keep [OF lock] simp: dw_holds_def)
    next
      case False
      then have free: "phase a = Free"
        using dw_recheck by (intro dw_holder_free [OF sim inv, of t]) (auto simp: dw_holds_def)
      have "guard_spec_step a (spec_goto t (dw_status D_Own) (a\<lparr>phase := Busy t\<rparr>))"
        using free dw_recheck by (auto intro!: spec_lock simp: st)
      then show ?thesis using False dw_recheck init_iff
        by (auto intro!: dw_sim_move [OF sim, where b = "a\<lparr>phase := Busy t\<rparr>"] lock_inv_keep [OF lock] simp: init dw_holds_def)
    qed
  next
    case (dw_drop t)
    then have "phase a = Ready" using sim by (auto simp: dw_sim_def)
    then show ?thesis using dw_drop
      by (auto intro!: dw_sim_move [OF sim] lock_inv_drop [OF lock] spec_pass simp: st init dw_holds_def)
  next
    case (dw_unlock_init t b)
    then have "status a t = Inside" by (simp add: st)
    with inv have i: "status a t = Inside" "phase a = Busy t" by (simp_all add: spec_inv_def)
    define w where "w = (if b then a\<lparr>phase := Ready, built := Suc (built a)\<rparr> else a\<lparr>phase := Free\<rparr>)"
    have "guard_spec_step a (spec_goto t (dw_status (D_Unlock b)) w)"
      using spec_finish [OF i] spec_give_up [OF i] by (simp add: w_def)
    moreover have "dw_lock_inv lockedBit s'"
      unfolding dw_unlock_init by (rule lock_inv_keep [OF lock]) (use dw_unlock_init in \<open>auto simp: dw_holds_def\<close>)
    ultimately show ?thesis
      unfolding dw_unlock_init by (intro dw_sim_move [OF sim, where b = w]) (simp_all add: w_def i)
  next
    case (dw_unlock_lock t b)
    then show ?thesis
      by (cases b) (auto intro!: dw_sim_stay [OF sim] lock_inv_drop [OF lock] simp: dw_holds_def)
  next
    case (dw_unlock_assert t b)
    have "first_byte big (init_word s) \<noteq> 0" if b
      using inv that dw_unlock_assert st [of t] layoutD(6) [OF l] by (auto simp: init spec_inv_def)
    then show ?thesis using dw_unlock_assert
      by (cases b) (auto intro!: dw_sim_stay [OF sim] lock_inv_keep [OF lock] simp: dw_holds_def)
  qed
qed

lemma dw_refines:
  assumes "layout TYPE(32) lockedBit initBit big"
  shows "guard_refinement (dw_step lockedBit initBit big) dw_start (dw_sim lockedBit initBit)"
proof
  show "dw_sim lockedBit initBit dw_start guard_spec_start"
    by (auto simp: dw_sim_def dw_start_def guard_spec_start_def dw_lock_inv_def holders_def dw_holds_def)
qed (rule dw_simulates [OF assms])

section \<open>The guards of the supported platforms\<close>

lemma layouts:
  "layout TYPE(64) 63 0 False" "layout TYPE(64) 0 56 True" "layout TYPE(32) 31 0 False" "layout TYPE(32) 0 24 True"
  by (simp_all add: layout_def first_byte_def bit_value_def)

interpretation lp64_little: guard_refinement "sw_step 63 0 False" "sw_start :: 64 word sw" "sw_sim 63 0"
  by (rule sw_refines [OF layouts(1)])

interpretation lp64_big: guard_refinement "sw_step 0 56 True" "sw_start :: 64 word sw" "sw_sim 0 56"
  by (rule sw_refines [OF layouts(2)])

interpretation arm32: guard_refinement "sw_step 31 0 False" "sw_start :: 32 word sw" "sw_sim 31 0"
  by (rule sw_refines [OF layouts(3)])

interpretation ilp32_little: guard_refinement "dw_step 31 0 False" dw_start "dw_sim 31 0"
  by (rule dw_refines [OF layouts(3)])

interpretation ilp32_big: guard_refinement "dw_step 0 24 True" dw_start "dw_sim 0 24"
  by (rule dw_refines [OF layouts(4)])

section \<open>Properties\<close>

lemma sw_status_inject: "sw_status p = Inside \<longleftrightarrow> p = S_Own" "sw_status p = Passed \<longleftrightarrow> p = S_Done"
  by (cases p; simp)+

lemma first_byte_0 [simp]: "first_byte big 0 = 0"
  by (simp add: first_byte_def)

text \<open>Runs for the witnesses: thread 0 acquires a fresh guard.\<close>

lemma sw_acquire_run:
  assumes "sw_pc s t = S_Idle" and "sw_val s = 0" and "initBit < LENGTH('w::len)"
  shows "(sw_step lockedBit initBit big)\<^sup>*\<^sup>* s (sw_goto t S_Own ((s :: 'w word sw)\<lparr>sw_val := bit_value lockedBit\<rparr>))"
proof -
  let ?step = "sw_step lockedBit initBit big" and ?c = "sw_goto t S_Check s" and ?t = "sw_goto t S_Try s"
  have "?step s ?c" using assms(1) by (intro sw_call) simp
  also have "?step ?c (sw_goto t (if sw_is_initialised initBit (sw_val ?c) then S_Done else S_Try) ?c)"
    by (intro sw_check) (simp add: sw_goto_def)
  then have "?step\<^sup>*\<^sup>* ?c ?t"
    using assms(2) bit_value_nonzero [OF assms(3)] by (auto simp: sw_is_initialised_def sw_goto_def)
  also have "?step ?t (sw_goto t (sw_acquire_switch InitLockSucceeded) (?t\<lparr>sw_val := bit_value lockedBit\<rparr>))"
    by (rule sw_try [where spurious = False]) (simp_all add: sw_goto_def sw_try_lock_def compare_exchange_def assms(2))
  then have "?step\<^sup>*\<^sup>* ?t (sw_goto t S_Own (s\<lparr>sw_val := bit_value lockedBit\<rparr>))" by (auto simp: sw_goto_def)
  finally show ?thesis .
qed

lemma dw_acquire_run:
  assumes "dw_pc s t = D_Idle" and "lock_word s = 0" and "init_word s = 0" and "layout TYPE(32) lockedBit initBit big"
  shows "(dw_step lockedBit initBit big)\<^sup>*\<^sup>* s (dw_goto t D_Own (s\<lparr>lock_word := bit_value lockedBit\<rparr>))"
proof -
  let ?step = "dw_step lockedBit initBit big" and ?c = "dw_goto t D_Check s" and ?t = "dw_goto t D_Try s"
  let ?r = "dw_goto t D_Recheck (s\<lparr>lock_word := bit_value lockedBit\<rparr>)"
  have ni: "\<not> dw_is_initialised initBit x" if "init_word x = 0" for x
    using that layoutD(2) [OF assms(4)] by (auto simp: dw_is_initialised_def)
  have "?step s ?c" using assms(1) by (intro dw_call) simp
  also have "?step ?c (dw_goto t D_Try ?c)" using dw_check [of ?c t lockedBit initBit big] ni [of ?c] assms(3) by simp
  then have "?step\<^sup>*\<^sup>* ?c ?t" by (auto simp: dw_goto_def)
  also have "?step ?t (dw_goto t D_Recheck (?t\<lparr>lock_word := bit_value lockedBit\<rparr>))"
    using dw_try [of ?t t False lockedBit True 0 "bit_value lockedBit" initBit big] assms(2) by (simp add: compare_exchange_def)
  then have "?step\<^sup>*\<^sup>* ?t ?r" by (auto simp: dw_goto_def)
  also have "?step ?r (dw_goto t D_Own ?r)" using dw_recheck [of ?r t lockedBit initBit big] ni [of ?r] assms(3) by simp
  then have "?step\<^sup>*\<^sup>* ?r (dw_goto t D_Own (s\<lparr>lock_word := bit_value lockedBit\<rparr>))" by (auto simp: dw_goto_def)
  finally show ?thesis .
qed





text \<open>
  C27. A waiting thread is not kept out: in every reachable state in which no thread is
  constructing the static, a thread in the loop of \<open>__cxa_guard_acquire\<close> leaves it with its
  next exchange, with the lock or because the static is initialised.
\<close>

theorem sw_guard_progress:
  assumes "layout TYPE('w::len) lockedBit initBit big"
    and "(sw_step lockedBit initBit big)\<^sup>*\<^sup>* sw_start (s :: 'w word sw)"
    and "sw_pc s t = S_Try" and "\<forall>u. sw_pc s u \<noteq> S_Own"
  shows "\<exists>s'. sw_step lockedBit initBit big s s' \<and> sw_pc s' t \<in> {S_Own, S_Done}"
proof -
  obtain a where a: "sw_sim lockedBit initBit s a" "spec_inv a"
    by (rule guard_refinement.reach_inv [OF sw_refines [OF assms(1)] assms(2)])
  have "phase a \<noteq> Busy u" for u using a assms(4) by (auto simp: sw_sim_def spec_inv_def sw_status_inject)
  then have "sw_val s = 0 \<or> sw_val s = bit_value initBit" using a(1) by (cases "phase a") (auto simp: sw_sim_def)
  then obtain r v where r: "sw_try_lock lockedBit initBit False (sw_val s) = (r, v)" "r \<noteq> InitLockFailed"
    using layoutD(2) [OF assms(1)] by (cases "sw_val s = 0") (auto simp: sw_try_lock_def compare_exchange_def)
  from sw_try [OF assms(3) r(1), of big] r(2) show ?thesis
    by (intro exI conjI) (assumption, cases r, auto simp: sw_goto_def)
qed

theorem sw_guard_progress_witness:
  "\<exists>s'. sw_step 63 0 False (sw_goto 0 S_Try (sw_start :: 64 word sw)) s' \<and> sw_pc s' 0 \<in> {S_Own, S_Done}"
proof -
  let ?c = "sw_goto 0 S_Check (sw_start :: 64 word sw)"
  have "sw_step 63 0 False sw_start ?c" by (rule sw_call) (simp add: sw_start_def)
  moreover have "sw_step 63 0 False ?c (sw_goto 0 S_Try ?c)"
    using sw_check [of ?c 0 63 0 False] by (simp add: sw_goto_def sw_start_def sw_is_initialised_def bit_value_def)
  ultimately have "(sw_step 63 0 False)\<^sup>*\<^sup>* sw_start (sw_goto 0 S_Try (sw_start :: 64 word sw))"
    by (auto simp: sw_goto_def intro: converse_rtranclp_into_rtranclp)
  then show ?thesis by (rule sw_guard_progress [OF layouts(1)]) (auto simp: sw_goto_def sw_start_def)
qed

text \<open>
  C36. The assertion at the end of \<open>DoubleWordGuard::unlock\<close> reads the guard after the lock is
  free: when a constructor throws and another thread initialises the static before the
  assertion is evaluated, a correct program is aborted.
\<close>

theorem dw_assert_race: "\<exists>s. (dw_step 31 0 False)\<^sup>*\<^sup>* dw_start s \<and> dw_pc s 0 = D_Failed \<and> dw_is_initialised 0 s"
proof -
  let ?step = "dw_step 31 0 False" and ?locked = "bit_value 31"
  define s1 where "s1 = dw_goto 0 D_Own (dw_start\<lparr>lock_word := ?locked\<rparr>)"
  define s2 where "s2 = dw_goto 0 (D_Assert False) (dw_start\<lparr>lock_word := 0\<rparr>)"
  define s3 where "s3 = dw_goto 1 D_Own (s2\<lparr>lock_word := ?locked\<rparr>)"
  define s4 where "s4 = dw_goto 1 (D_Unlock True) (s3\<lparr>init_word := bit_value 0\<rparr>)"
  have 1: "?step\<^sup>*\<^sup>* dw_start s1" unfolding s1_def by (rule dw_acquire_run) (simp_all add: dw_start_def layouts)
  have "?step s1 (dw_goto 0 (D_Unlock False) (s1\<lparr>init_word := 0\<rparr>))"
    using dw_unlock_init [of s1 0 31 0 False False] by (simp add: s1_def)
  moreover have "?step (dw_goto 0 (D_Unlock False) (s1\<lparr>init_word := 0\<rparr>)) s2"
    using dw_unlock_lock [of "dw_goto 0 (D_Unlock False) (s1\<lparr>init_word := 0\<rparr>)" 0 False 31 0 False]
    by (simp add: s1_def s2_def dw_goto_def dw_start_def)
  moreover have "?step\<^sup>*\<^sup>* s2 s3" unfolding s3_def by (rule dw_acquire_run) (simp_all add: s2_def dw_start_def layouts)
  moreover have "?step s3 s4" using dw_unlock_init [of s3 1 31 0 False True] by (simp add: s3_def s4_def)
  moreover have "?step s4 (dw_goto 0 D_Failed s4)"
    using dw_unlock_assert [of s4 0 False 31 0 False] by (simp add: s4_def s3_def s2_def first_byte_def bit_value_def)
  ultimately have "?step\<^sup>*\<^sup>* dw_start (dw_goto 0 D_Failed s4)" using 1 by (meson rtranclp.rtrancl_into_rtrancl rtranclp_trans)
  then show ?thesis by (intro exI [of _ "dw_goto 0 D_Failed s4"]) (simp add: s4_def dw_is_initialised_def)
qed

end
