(* ===== verification/Atexit.thy ===== *)
theory Atexit
  imports Prelude
begin

text \<open>
  Exit handlers (\<open>cxa_atexit.c\<close>, \<open>cxa_finalize.c\<close>): a linked list of handlers on the heap,
  protected by a mutex. The list is a chain of blocks; \<open>holds s xs\<close> relates it to the abstract
  list of registered handlers, newest first, of which \<open>__cxa_atexit\<close> is a push and
  \<open>__cxa_finalize\<close> a partition.

  The handlers are outside code: \<open>reenters f p\<close> says whether a handler calls one of the two
  functions again. \<open>keeps\<close> says whether a released block still holds its contents; the C
  standard does not promise it.
\<close>

record atexit_handler =
  h_f :: nat
  h_p :: nat
  h_d :: nat
  h_next :: "nat option"

record cxa = heap +
  head :: "nat option"
  blocks :: "nat \<Rightarrow> atexit_handler option"
  mutex :: bool
  ran :: "(nat \<times> nat) list"        \<comment> \<open>the calls of handlers so far, oldest first\<close>

definition pthread_mutex_lock :: "('a, cxa) M \<Rightarrow> ('a, cxa) M" where
  "pthread_mutex_lock k = gets mutex (\<lambda>held. if held then crash Deadlock else upd (\<lambda>s. s\<lparr>mutex := True\<rparr>) k)"

definition pthread_mutex_unlock :: "('a, cxa) M \<Rightarrow> ('a, cxa) M" where
  "pthread_mutex_unlock k = upd (\<lambda>s. s\<lparr>mutex := False\<rparr>) k"

text \<open>Reading a block through a pointer.\<close>

definition deref :: "bool \<Rightarrow> nat \<Rightarrow> (atexit_handler \<Rightarrow> ('a, cxa) M) \<Rightarrow> ('a, cxa) M" where
  "deref keeps h k = (\<lambda>s. if List.member (freed s) h \<and> \<not> keeps then Fault Use_After_Free
     else case blocks s h of None \<Rightarrow> Fault Out_Of_Bounds | Some b \<Rightarrow> k b s)"

definition sizeof_atexit_handler :: nat where
  "sizeof_atexit_handler = 32"

definition cxa_atexit :: "nat \<Rightarrow> nat \<Rightarrow> nat \<Rightarrow> (int, cxa) M" where
  "cxa_atexit fn ptr dso = pthread_mutex_lock (
     bind (malloc sizeof_atexit_handler) (\<lambda>h.
       case h of None \<Rightarrow> pthread_mutex_unlock (ret 1)
       | Some h \<Rightarrow>
           gets head (\<lambda>old.
           upd (\<lambda>s. s\<lparr>blocks := (blocks s)(h \<mapsto> \<lparr>h_f = fn, h_p = ptr, h_d = dso, h_next = old\<rparr>)\<rparr>) (
           upd (\<lambda>s. s\<lparr>head := Some h\<rparr>) (
           pthread_mutex_unlock (ret 0))))))"

text \<open>\<open>struct atexit_handler **last\<close>: the address of \<open>head\<close> or of the link of a block.\<close>

datatype link = Head | Link nat

fun relink :: "link \<Rightarrow> nat option \<Rightarrow> cxa \<Rightarrow> cxa" where
  "relink Head v s = s\<lparr>head := v\<rparr>"
| "relink (Link a) v s = s\<lparr>blocks := (blocks s)(a := map_option (\<lambda>b. b\<lparr>h_next := v\<rparr>) (blocks s a))\<rparr>"

definition set_link :: "link \<Rightarrow> nat option \<Rightarrow> ('a, cxa) M \<Rightarrow> ('a, cxa) M" where
  "set_link l v k = upd (relink l v) k"

definition call_handler :: "(nat \<Rightarrow> nat \<Rightarrow> bool) \<Rightarrow> nat \<Rightarrow> nat \<Rightarrow> ('a, cxa) M \<Rightarrow> ('a, cxa) M" where
  "call_handler reenters fn ptr k =
     (if reenters fn ptr then pthread_mutex_lock k else upd (\<lambda>s. s\<lparr>ran := ran s @ [(fn, ptr)]\<rparr>) k)"

definition free_block :: "nat \<Rightarrow> ('a, cxa) M \<Rightarrow> ('a, cxa) M" where
  "free_block h k = (\<lambda>s. if List.member (freed s) h then Fault Double_Free else k (s\<lparr>freed := h # freed s\<rparr>))"

primrec finalize_loop ::
    "nat \<Rightarrow> bool \<Rightarrow> (nat \<Rightarrow> nat \<Rightarrow> bool) \<Rightarrow> nat \<Rightarrow> link \<Rightarrow> nat option \<Rightarrow> (unit, cxa) M" where
  "finalize_loop 0 keeps reenters dso lastp h = crash Out_Of_Fuel"
| "finalize_loop (Suc n) keeps reenters dso lastp h = (case h of None \<Rightarrow> ret ()
     | Some h \<Rightarrow> deref keeps h (\<lambda>b.
         if h_d b = dso \<or> dso = 0 then
           set_link lastp (h_next b) (
           call_handler reenters (h_f b) (h_p b) (
           free_block h (
           deref keeps h (\<lambda>b. finalize_loop n keeps reenters dso lastp (h_next b)))))
         else deref keeps h (\<lambda>b. finalize_loop n keeps reenters dso (Link h) (h_next b))))"

definition cxa_finalize :: "nat \<Rightarrow> bool \<Rightarrow> (nat \<Rightarrow> nat \<Rightarrow> bool) \<Rightarrow> nat \<Rightarrow> (unit, cxa) M" where
  "cxa_finalize n keeps reenters dso = pthread_mutex_lock (
     gets head (\<lambda>h. bind (finalize_loop n keeps reenters dso Head h) (\<lambda>_. pthread_mutex_unlock (ret ()))))"

text \<open>The destructor of a shared object; \<open>dso_handle\<close> is the address of its \<open>__dso_handle\<close>.\<close>

definition cleanup :: "nat \<Rightarrow> bool \<Rightarrow> (nat \<Rightarrow> nat \<Rightarrow> bool) \<Rightarrow> nat \<Rightarrow> (unit, cxa) M" where
  "cleanup n keeps reenters dso_handle = cxa_finalize n keeps reenters dso_handle"

section \<open>The list of handlers\<close>

type_synonym entry = "nat \<times> nat \<times> nat"

definition data :: "atexit_handler \<Rightarrow> entry" where
  "data b = (h_f b, h_p b, h_d b)"

fun seg :: "(nat \<Rightarrow> atexit_handler option) \<Rightarrow> nat option \<Rightarrow> (nat \<times> entry) list \<Rightarrow> nat option \<Rightarrow> bool" where
  "seg B a [] z = (a = z)"
| "seg B a (x # xs) z = (\<exists>b. a = Some (fst x) \<and> B (fst x) = Some b \<and> data b = snd x \<and> seg B (h_next b) xs z)"

lemma seg_append: "seg B a (xs @ ys) z \<longleftrightarrow> (\<exists>m. seg B a xs m \<and> seg B m ys z)"
  by (induction xs arbitrary: a) auto

lemma seg_other: "x \<notin> fst ` set xs \<Longrightarrow> seg (B(x := v)) a xs z = seg B a xs z"
  by (induction xs arbitrary: a) auto

definition well_linked :: "cxa \<Rightarrow> (nat \<times> entry) list \<Rightarrow> bool" where
  "well_linked s xs \<longleftrightarrow> seg (blocks s) (head s) xs None \<and> distinct (map fst xs)
     \<and> (\<forall>x \<in> fst ` set xs. x < brk s \<and> x \<notin> set (freed s))
     \<and> (\<forall>x \<in> set (freed s). x < brk s)"

definition holds :: "cxa \<Rightarrow> entry list \<Rightarrow> bool" where
  "holds s es \<longleftrightarrow> (\<exists>xs. es = map snd xs \<and> well_linked s xs) \<and> \<not> mutex s"

definition at_start :: "heap \<Rightarrow> cxa" where
  "at_start h = heap.extend h (cxa.fields None (\<lambda>_. None) False [])"

lemma holds_start: "freed h = [] \<Longrightarrow> holds (at_start h) []"
  by (simp add: holds_def well_linked_def at_start_def heap.defs cxa.defs)

lemma cxa_atexit_run:
  assumes "holds s es"
  shows "cxa_atexit fn ptr dso s = (if mem s (brk s) sizeof_atexit_handler
     then Ok 0 (s\<lparr>brk := Suc (brk s), head := Some (brk s),
       blocks := (blocks s)(brk s \<mapsto> \<lparr>h_f = fn, h_p = ptr, h_d = dso, h_next = head s\<rparr>)\<rparr>)
     else Ok 1 (s\<lparr>brk := Suc (brk s)\<rparr>))"
  using assms
  by (simp add: cxa_atexit_def pthread_mutex_lock_def pthread_mutex_unlock_def run_rules holds_def)

lemma well_linked_push:
  assumes "well_linked s xs"
  shows "well_linked (s\<lparr>brk := Suc (brk s), head := Some (brk s),
      blocks := (blocks s)(brk s \<mapsto> \<lparr>h_f = fn, h_p = ptr, h_d = dso, h_next = head s\<rparr>)\<rparr>) ((brk s, fn, ptr, dso) # xs)"
proof -
  have "brk s \<notin> fst ` set xs" using assms by (auto simp: well_linked_def)
  moreover have "brk s \<notin> set (freed s)" using assms by (auto simp: well_linked_def)
  ultimately show ?thesis using assms by (auto simp: well_linked_def seg_other data_def)
qed

definition link_of :: "(nat \<times> entry) list \<Rightarrow> link" where
  "link_of pre = (if pre = [] then Head else Link (fst (last pre)))"

lemma relink_fields [simp]:
  "freed (relink l v s) = freed s" "brk (relink l v s) = brk s" "mutex (relink l v s) = mutex s"
  "ran (relink l v s) = ran s"
  by (cases l; simp)+

lemma relink_blocks:
  "l \<noteq> Link a \<Longrightarrow> blocks (relink l v s) a = blocks s a"
  by (cases l) auto

lemma unlink:
  assumes wl: "well_linked s (pre @ x # rest)" and b: "blocks s (fst x) = Some b"
  shows "well_linked (relink (link_of pre) (h_next b) s) (pre @ rest)"
    and "seg (blocks (relink (link_of pre) (h_next b) s)) (h_next b) rest None"
proof -
  let ?t = "relink (link_of pre) (h_next b) s"
  have "seg (blocks ?t) (head ?t) pre (h_next b) \<and> seg (blocks ?t) (h_next b) rest None"
  proof (cases pre rule: rev_cases)
    case Nil
    then show ?thesis using wl b by (auto simp: well_linked_def link_of_def)
  next
    case (snoc ys y)
    from wl have "distinct (map fst (ys @ y # x # rest))" by (simp add: well_linked_def snoc)
    then have "fst y \<notin> fst ` set ys" "fst y \<notin> fst ` set rest" "fst y \<noteq> fst x" by auto
    with wl b show ?thesis
      by (auto simp: well_linked_def link_of_def snoc seg_append seg_other data_def)
  qed
  then show "well_linked ?t (pre @ rest)" "seg (blocks ?t) (h_next b) rest None"
    using wl by (auto simp: well_linked_def seg_append)
qed

definition handler_matches :: "nat \<Rightarrow> entry \<Rightarrow> bool" where
  "handler_matches dso e \<longleftrightarrow> snd (snd e) = dso \<or> dso = 0"

definition call_of :: "entry \<Rightarrow> nat \<times> nat" where
  "call_of e = (fst e, fst (snd e))"

lemma well_linked_irrelevant [simp]:
  "well_linked (s\<lparr>ran := r\<rparr>) xs = well_linked s xs" "well_linked (s\<lparr>mutex := m\<rparr>) xs = well_linked s xs"
  by (simp_all add: well_linked_def)

lemma well_linked_free:
  assumes "well_linked s xs" and "a < brk s" and "a \<notin> fst ` set xs"
  shows "well_linked (s\<lparr>freed := a # freed s\<rparr>) xs"
  using assms by (auto simp: well_linked_def)

lemma finalize_loop_spec:
  assumes "well_linked s (pre @ rest)" and "seg (blocks s) h rest None" and "length rest < n"
    and "\<forall>e \<in> snd ` set rest. handler_matches dso e \<longrightarrow> \<not> reenters (fst e) (fst (snd e))"
  shows "\<exists>t. finalize_loop n True reenters dso (link_of pre) h s = Ok () t
    \<and> well_linked t (pre @ filter (\<lambda>x. \<not> handler_matches dso (snd x)) rest)
    \<and> ran t = ran s @ map (\<lambda>x. call_of (snd x)) (filter (\<lambda>x. handler_matches dso (snd x)) rest) \<and> mutex t = mutex s
    \<and> freed t = rev (map fst (filter (\<lambda>x. handler_matches dso (snd x)) rest)) @ freed s"
  using assms
proof (induction rest arbitrary: pre h s n)
  case Nil
  then show ?case by (cases n) (auto simp: ret_def)
next
  case (Cons x rest)
  then obtain m where n: "n = Suc m" "length rest < m" by (cases n) auto
  from Cons.prems(2) obtain b where b: "h = Some (fst x)" "blocks s (fst x) = Some b" "data b = snd x"
    "seg (blocks s) (h_next b) rest None" by auto
  have fr: "fst x \<notin> set (freed s)" "fst x < brk s" and ds: "distinct (map fst (pre @ x # rest))"
    using Cons.prems(1) by (auto simp: well_linked_def)
  have mt: "handler_matches dso (snd x) \<longleftrightarrow> h_d b = dso \<or> dso = 0" "h_f b = fst (snd x)" "h_p b = fst (snd (snd x))"
    by (auto simp: handler_matches_def data_def b(3) [symmetric])
  show ?case
  proof (cases "handler_matches dso (snd x)")
    case False
    from Cons.IH [of s "pre @ [x]" "h_next b" m] Cons.prems n b False
    show ?thesis by (simp add: n(1) mt b(1,2) deref_def fr link_of_def)
  next
    case True
    let ?s1 = "relink (link_of pre) (h_next b) s"
    let ?s = "?s1\<lparr>ran := ran s @ [call_of (snd x)], freed := fst x # freed s\<rparr>"
    have "link_of pre \<noteq> Link (fst x)" using ds by (cases pre rule: rev_cases) (auto simp: link_of_def)
    then have b1: "blocks ?s (fst x) = Some b" using b(2) by (simp add: relink_blocks)
    have "well_linked ?s (pre @ rest)"
      using well_linked_free [of "?s1\<lparr>ran := ran s @ [call_of (snd x)]\<rparr>" "pre @ rest" "fst x"] unlink(1) [OF Cons.prems(1) b(2)] fr ds
      by (simp add: image_Un)
    from Cons.IH [OF this _ n(2), of "h_next b"] unlink(2) [OF Cons.prems(1) b(2)] Cons.prems(4)
    obtain t where t: "finalize_loop m True reenters dso (link_of pre) (h_next b) ?s = Ok () t"
      "well_linked t (pre @ filter (\<lambda>x. \<not> handler_matches dso (snd x)) rest)"
      "ran t = ran ?s @ map (\<lambda>x. call_of (snd x)) (filter (\<lambda>x. handler_matches dso (snd x)) rest)" "mutex t = mutex ?s"
      "freed t = rev (map fst (filter (\<lambda>x. handler_matches dso (snd x)) rest)) @ freed ?s" by auto
    have "\<not> reenters (h_f b) (h_p b)" using Cons.prems(4) True mt by auto
    moreover have "h_d b = dso \<or> dso = 0" using True mt by simp
    ultimately have "finalize_loop n True reenters dso (link_of pre) h s = Ok () t"
      using t(1) b1 by (simp add: n(1) b(1,2) deref_def fr set_link_def call_handler_def free_block_def run_upd mt(2,3) call_of_def)
    with t True show ?thesis by (intro exI [of _ t]) (simp add: comp_def)
  qed
qed

lemma well_linked_length: "well_linked s xs \<Longrightarrow> length xs \<le> brk s"
proof -
  assume wl: "well_linked s xs"
  then have "fst ` set xs \<subseteq> {..<brk s}" by (auto simp: well_linked_def)
  then have "card (fst ` set xs) \<le> brk s" using card_mono [of "{..<brk s}"] by fastforce
  moreover have "card (fst ` set xs) = length xs" using wl distinct_card [of "map fst xs"] by (simp add: well_linked_def)
  ultimately show ?thesis by simp
qed

lemma finalize_run:
  assumes "holds s es" and "brk s < n" and "\<forall>e \<in> set es. handler_matches dso e \<longrightarrow> \<not> reenters (fst e) (fst (snd e))"
  shows "\<exists>t. cxa_finalize n True reenters dso s = Ok () t \<and> holds t (filter (\<lambda>e. \<not> handler_matches dso e) es)
    \<and> ran t = ran s @ map call_of (filter (handler_matches dso) es)"
proof -
  obtain xs where xs: "es = map snd xs" "well_linked s xs" "\<not> mutex s" using assms(1) by (auto simp: holds_def)
  let ?s = "s\<lparr>mutex := True\<rparr>"
  have "seg (blocks ?s) (head s) xs None" "length xs < n"
    using xs(2) well_linked_length [OF xs(2)] assms(2) by (auto simp: well_linked_def)
  from finalize_loop_spec [of ?s "[]" xs "head s" n dso reenters, OF _ this] assms(3) xs
  obtain t where t: "finalize_loop n True reenters dso Head (head s) ?s = Ok () t"
    "well_linked t (filter (\<lambda>x. \<not> handler_matches dso (snd x)) xs)"
    "ran t = ran s @ map (\<lambda>x. call_of (snd x)) (filter (\<lambda>x. handler_matches dso (snd x)) xs)" by (auto simp: link_of_def)
  have "holds (t\<lparr>mutex := False\<rparr>) (filter (\<lambda>e. \<not> handler_matches dso e) es)"
    unfolding holds_def using t(2)
    by (intro conjI exI [of _ "filter (\<lambda>x. \<not> handler_matches dso (snd x)) xs"]) (simp_all add: xs(1) filter_map comp_def)
  moreover have "cxa_finalize n True reenters dso s = Ok () (t\<lparr>mutex := False\<rparr>)"
    using t(1) xs(3) by (simp add: cxa_finalize_def pthread_mutex_lock_def pthread_mutex_unlock_def run_rules)
  ultimately show ?thesis using t(3) by (auto simp: xs(1) filter_map comp_def)
qed

lemma register_run:
  assumes "holds s es"
  shows "\<exists>t. cxa_atexit fn ptr dso s = Ok (if mem s (brk s) sizeof_atexit_handler then 0 else 1) t
    \<and> holds t (if mem s (brk s) sizeof_atexit_handler then (fn, ptr, dso) # es else es) \<and> ran t = ran s"
proof -
  obtain xs where xs: "es = map snd xs" "well_linked s xs" "\<not> mutex s" using assms by (auto simp: holds_def)
  have "well_linked (s\<lparr>brk := Suc (brk s)\<rparr>) xs" using xs(2) by (auto simp: well_linked_def)
  then have fail: "holds (s\<lparr>brk := Suc (brk s)\<rparr>) es" using xs by (auto simp: holds_def)
  have "holds (s\<lparr>brk := Suc (brk s), head := Some (brk s),
      blocks := (blocks s)(brk s \<mapsto> \<lparr>h_f = fn, h_p = ptr, h_d = dso, h_next = head s\<rparr>)\<rparr>) ((fn, ptr, dso) # es)"
    using well_linked_push [OF xs(2), of fn ptr dso] xs(1,3) unfolding holds_def
    by (intro conjI exI [of _ "(brk s, fn, ptr, dso) # xs"]) simp_all
  with fail show ?thesis unfolding cxa_atexit_run [OF assms] by simp
qed

section \<open>The interface\<close>

text \<open>What the two functions promise to the program: a stack of handlers.\<close>

fun register_all :: "(entry \<Rightarrow> 's \<Rightarrow> 's option) \<Rightarrow> entry list \<Rightarrow> 's \<Rightarrow> 's option" where
  "register_all register [] s = Some s"
| "register_all register (e # es) s = (case register e s of None \<Rightarrow> None | Some t \<Rightarrow> register_all register es t)"

locale exit_registry =
  fixes register :: "entry \<Rightarrow> 's \<Rightarrow> 's option" and finalize :: "nat \<Rightarrow> 's \<Rightarrow> 's option"
    and repr :: "'s \<Rightarrow> entry list \<Rightarrow> bool" and calls :: "'s \<Rightarrow> (nat \<times> nat) list"
  assumes register_law: "repr s es \<Longrightarrow> register e s = Some t \<Longrightarrow> repr t (e # es) \<and> calls t = calls s"
    and finalize_law: "repr s es \<Longrightarrow> \<exists>t. finalize dso s = Some t \<and> repr t (filter (\<lambda>e. \<not> handler_matches dso e) es)
      \<and> calls t = calls s @ map call_of (filter (handler_matches dso) es)"
begin

lemma register_all_repr:
  "repr s es \<Longrightarrow> register_all register ds s = Some t \<Longrightarrow> repr t (rev ds @ es) \<and> calls t = calls s"
proof (induction ds arbitrary: s es)
  case (Cons d ds)
  then obtain u where u: "register d s = Some u" "register_all register ds u = Some t" by (auto split: option.splits)
  from register_law [OF Cons.prems(1) u(1)] Cons.IH [OF _ u(2)] show ?case by fastforce
qed simp

text \<open>Unloading a library and then ending the program runs every handler once, newest first in each part.\<close>

lemma unload_then_exit:
  assumes "repr s es" and "dso \<noteq> 0"
  shows "\<exists>t u. finalize dso s = Some t \<and> finalize 0 t = Some u \<and> repr u []
    \<and> calls u = calls s @ map call_of (filter (handler_matches dso) es @ filter (\<lambda>e. \<not> handler_matches dso e) es)"
proof -
  obtain t where t: "finalize dso s = Some t" "repr t (filter (\<lambda>e. \<not> handler_matches dso e) es)"
    "calls t = calls s @ map call_of (filter (handler_matches dso) es)" using finalize_law [OF assms(1)] by blast
  from finalize_law [OF t(2), of 0] t(1,3) show ?thesis by (auto simp: handler_matches_def)
qed

end

definition register_handler :: "entry \<Rightarrow> cxa \<Rightarrow> cxa option" where
  "register_handler e s = (case cxa_atexit (fst e) (fst (snd e)) (snd (snd e)) s of
     Ok r t \<Rightarrow> if r = 0 then Some t else None | Fault _ \<Rightarrow> None)"

definition finalize_handlers :: "nat \<Rightarrow> cxa \<Rightarrow> cxa option" where
  "finalize_handlers dso s = (case cxa_finalize (Suc (brk s)) True (\<lambda>_ _. False) dso s of
     Ok _ t \<Rightarrow> Some t | Fault _ \<Rightarrow> None)"

interpretation exits: exit_registry register_handler finalize_handlers holds ran
proof
  fix s es e t
  assume "holds s es" and "register_handler e s = Some t"
  then show "holds t (e # es) \<and> ran t = ran s"
    using register_run [of s es "fst e" "fst (snd e)" "snd (snd e)"]
    by (auto simp: register_handler_def split: if_splits)
next
  fix s es dso
  assume "holds s es"
  from finalize_run [OF this, of "Suc (brk s)" dso "\<lambda>_ _. False"]
  show "\<exists>t. finalize_handlers dso s = Some t \<and> holds t (filter (\<lambda>e. \<not> handler_matches dso e) es)
      \<and> ran t = ran s @ map call_of (filter (handler_matches dso) es)"
    by (auto simp: finalize_handlers_def)
qed

section \<open>Properties\<close>

text \<open>
  \<open>__cxa_atexit\<close> pushes the handler and returns 0, or returns 1 and changes nothing when
  there is no memory; the mutex is free afterwards in both cases.
\<close>

theorem cxa_atexit_pushes:
  assumes "holds s es"
  shows "\<exists>t. cxa_atexit fn ptr dso s = Ok (if mem s (brk s) sizeof_atexit_handler then 0 else 1) t
    \<and> holds t (if mem s (brk s) sizeof_atexit_handler then (fn, ptr, dso) # es else es) \<and> \<not> mutex t"
  using register_run [OF assms, of fn ptr dso] by (auto simp: holds_def)

theorem cxa_atexit_pushes_witness: "\<exists>t. cxa_atexit 1 2 3 (at_start h0) = Ok 0 t \<and> holds t [(1, 2, 3)]"
  using cxa_atexit_pushes [OF holds_start, of h0 1 2 3] by (auto simp: h0_def at_start_def heap.defs cxa.defs)

text \<open>
  \<open>__cxa_finalize\<close> runs the handlers of the given object, or all of them for a null
  argument, in the reverse order of their registration, removes exactly them from the list
  and ends, on a platform where a block can still be read after it was released and for
  handlers that do not call back.
\<close>

theorem cxa_finalize_runs:
  assumes "holds s es" and "brk s < n" and "\<forall>e \<in> set es. handler_matches dso e \<longrightarrow> \<not> reenters (fst e) (fst (snd e))"
  shows "\<exists>t. cxa_finalize n True reenters dso s = Ok () t \<and> holds t (filter (\<lambda>e. \<not> handler_matches dso e) es)
    \<and> ran t = ran s @ map call_of (filter (handler_matches dso) es)"
  by (rule finalize_run [OF assms])

theorem cxa_finalize_runs_witness:
  "\<exists>s t. holds s [(4, 5, 6), (1, 2, 3)] \<and> cxa_finalize 9 True (\<lambda>_ _. False) 3 s = Ok () t \<and> holds t [(4, 5, 6)] \<and> ran t = [(1, 2)]"
proof -
  obtain s where s: "cxa_atexit 1 2 3 (at_start h0) = Ok 0 s" "holds s [(1, 2, 3)]" "ran s = []" "mem s = mem h0" "brk s = 1"
    using cxa_atexit_run [OF holds_start, of h0 1 2 3] register_run [OF holds_start, of h0 1 2 3]
    by (auto simp: h0_def at_start_def heap.defs cxa.defs)
  obtain t where t: "holds t [(4, 5, 6), (1, 2, 3)]" "ran t = []" "brk t = 2"
    using cxa_atexit_run [OF s(2), of 4 5 6] register_run [OF s(2), of 4 5 6] s(3-5) by (auto simp: h0_def)
  from cxa_finalize_runs [OF t(1), of 9 3 "\<lambda>_ _. False"] t show ?thesis
    by (auto simp: handler_matches_def call_of_def)
qed



text \<open>
  C38. The loop of \<open>__cxa_finalize\<close> reads the link of a handler after it was released: on a
  platform that reports such reads, every call that runs a handler fails.
\<close>

theorem cxa_finalize_use_after_free:
  assumes "holds s ((fn, ptr, dso) # es)" and "\<not> reenters fn ptr"
  shows "cxa_finalize (Suc n) False reenters dso s = Fault Use_After_Free"
proof -
  obtain x xs where xs: "snd x = (fn, ptr, dso)" "well_linked s (x # xs)" "\<not> mutex s"
    using assms(1) by (auto simp: holds_def Cons_eq_map_conv)
  then obtain b where b: "head s = Some (fst x)" "blocks s (fst x) = Some b" "data b = (fn, ptr, dso)"
    "fst x \<notin> set (freed s)" by (auto simp: well_linked_def)
  then show ?thesis using assms(2) xs(3)
    by (simp add: cxa_finalize_def pthread_mutex_lock_def run_rules deref_def set_link_def call_handler_def
        free_block_def data_def)
qed

theorem cxa_finalize_use_after_free_witness:
  "\<exists>s. cxa_atexit 1 2 3 (at_start h0) = Ok 0 s \<and> cxa_finalize 9 False (\<lambda>_ _. False) 3 s = Fault Use_After_Free"
proof -
  obtain s where s: "cxa_atexit 1 2 3 (at_start h0) = Ok 0 s" "holds s [(1, 2, 3)]"
    using register_run [OF holds_start, of h0 1 2 3] by (auto simp: h0_def at_start_def heap.defs cxa.defs)
  with cxa_finalize_use_after_free [OF s(2), of "\<lambda>_ _. False" 8] show ?thesis by (auto simp: numeral_eq_Suc)
qed

text \<open>
  The handlers run with the mutex held: a handler that registers another handler, as the
  standard allows, blocks for ever.
\<close>

theorem cxa_finalize_deadlock:
  assumes "holds s ((fn, ptr, dso) # es)" and "reenters fn ptr"
  shows "cxa_finalize (Suc n) keeps reenters dso s = Fault Deadlock"
proof -
  obtain x xs where xs: "snd x = (fn, ptr, dso)" "well_linked s (x # xs)" "\<not> mutex s"
    using assms(1) by (auto simp: holds_def Cons_eq_map_conv)
  then obtain b where b: "head s = Some (fst x)" "blocks s (fst x) = Some b" "data b = (fn, ptr, dso)"
    "fst x \<notin> set (freed s)" by (auto simp: well_linked_def)
  then show ?thesis using assms(2) xs(3)
    by (simp add: cxa_finalize_def pthread_mutex_lock_def run_rules deref_def set_link_def call_handler_def
        data_def)
qed

theorem cxa_finalize_deadlock_witness:
  "\<exists>s. cxa_atexit 1 2 3 (at_start h0) = Ok 0 s \<and> cxa_finalize 9 True (\<lambda>fn _. fn = 1) 3 s = Fault Deadlock"
proof -
  obtain s where s: "cxa_atexit 1 2 3 (at_start h0) = Ok 0 s" "holds s [(1, 2, 3)]"
    using register_run [OF holds_start, of h0 1 2 3] by (auto simp: h0_def at_start_def heap.defs cxa.defs)
  with cxa_finalize_deadlock [OF s(2), of "\<lambda>fn _. fn = 1" 8 True] show ?thesis by (auto simp: numeral_eq_Suc)
qed

end
