(* ===== verification/New_Delete.thy ===== *)
theory New_Delete
  imports Prelude
begin

text \<open>
  The weak allocation operators (\<open>memory.cc\<close>): \<open>operator new\<close> with its loop over the new-handler, the
  \<open>nothrow\<close> and array forms, the \<open>delete\<close> operators and the register of the new-handler.

  \<open>malloc\<close>, \<open>free\<close> and the handlers are outside code: the fields of \<open>nd_env\<close>. A handler may change the
  memory and the register (\<open>std::set_new_handler\<close> is open to it), return, or throw; the loop may run forever, so
  \<open>new_loop\<close> is a partial function and \<open>None\<close> is a call that does not return.
\<close>

section \<open>The operators\<close>

datatype thrown = Bad_alloc | Thrown nat

record 'm nd =
  new_handl :: nat             \<comment> \<open>0 is the null pointer\<close>
  memory :: 'm

record 'm nd_env =
  nd_malloc :: "nat \<Rightarrow> 'm \<Rightarrow> nat option \<times> 'm"
  nd_free :: "nat \<Rightarrow> 'm \<Rightarrow> 'm"
  nd_call :: "nat \<Rightarrow> 'm nd \<Rightarrow> thrown option \<times> 'm nd"

definition set_new_handler :: "nat \<Rightarrow> 'm nd \<Rightarrow> nat \<times> 'm nd" where
  "set_new_handler handler s = (new_handl s, s\<lparr>new_handl := handler\<rparr>)"

definition get_new_handler :: "'m nd \<Rightarrow> nat" where
  "get_new_handler s = new_handl s"

definition malloc_in :: "'m nd_env \<Rightarrow> nat \<Rightarrow> 'm nd \<Rightarrow> nat option \<times> 'm nd" where
  "malloc_in E sz s = (let (p, m) = nd_malloc E sz (memory s) in (p, s\<lparr>memory := m\<rparr>))"

partial_function (option) new_loop :: "'m nd_env \<Rightarrow> nat \<Rightarrow> nat option \<Rightarrow> 'm nd \<Rightarrow> ((thrown + nat) \<times> 'm nd) option" where
  "new_loop E sz p s = (case p of Some a \<Rightarrow> Some (Inr a, s)
     | None \<Rightarrow>
        (if get_new_handler s \<noteq> 0 then
           (case nd_call E (get_new_handler s) s of
              (Some e, s) \<Rightarrow> Some (Inl e, s)
            | (None, s) \<Rightarrow> (case malloc_in E sz s of (p, s) \<Rightarrow> new_loop E sz p s))
         else Some (Inl Bad_alloc, s)))"

definition operator_new :: "'m nd_env \<Rightarrow> nat \<Rightarrow> 'm nd \<Rightarrow> ((thrown + nat) \<times> 'm nd) option" where
  "operator_new E sz s =
     (let sz = (if 0 = sz then 1 else sz);
          (p, s) = malloc_in E sz s
      in new_loop E sz p s)"

definition noexcept_new ::
    "(nat \<Rightarrow> 'm nd \<Rightarrow> ((thrown + nat) \<times> 'm nd) option) \<Rightarrow> nat \<Rightarrow> 'm nd \<Rightarrow> (nat option \<times> 'm nd) option" where
  "noexcept_new New sz s = (case New sz s of None \<Rightarrow> None
     | Some (Inr a, s) \<Rightarrow> Some (Some a, s)
     | Some (Inl e, s) \<Rightarrow> Some (None, s))"

definition operator_new_nothrow :: "'m nd_env \<Rightarrow> nat \<Rightarrow> 'm nd \<Rightarrow> (nat option \<times> 'm nd) option" where
  "operator_new_nothrow E sz s = noexcept_new (operator_new E) sz s"

definition operator_new_array :: "'m nd_env \<Rightarrow> nat \<Rightarrow> 'm nd \<Rightarrow> ((thrown + nat) \<times> 'm nd) option" where
  "operator_new_array E sz s = operator_new E sz s"

definition operator_new_array_nothrow :: "'m nd_env \<Rightarrow> nat \<Rightarrow> 'm nd \<Rightarrow> (nat option \<times> 'm nd) option" where
  "operator_new_array_nothrow E sz s = noexcept_new (operator_new_array E) sz s"

definition operator_delete :: "'m nd_env \<Rightarrow> nat \<Rightarrow> 'm nd \<Rightarrow> 'm nd" where
  "operator_delete E ptr s = s\<lparr>memory := nd_free E ptr (memory s)\<rparr>"

definition operator_delete_array :: "'m nd_env \<Rightarrow> nat \<Rightarrow> 'm nd \<Rightarrow> 'm nd" where
  "operator_delete_array E ptr s = operator_delete E ptr s"

definition operator_delete_sized :: "'m nd_env \<Rightarrow> nat \<Rightarrow> nat \<Rightarrow> 'm nd \<Rightarrow> 'm nd" where
  "operator_delete_sized E ptr sz s = operator_delete E ptr s"

definition operator_delete_array_sized :: "'m nd_env \<Rightarrow> nat \<Rightarrow> nat \<Rightarrow> 'm nd \<Rightarrow> 'm nd" where
  "operator_delete_array_sized E ptr sz s = operator_delete E ptr s"

section \<open>The contract of an allocation\<close>

text \<open>
  What an allocation may do, as the C++ standard describes it: attempts separated by calls of the handler that is installed at that moment,
  ended by memory, by an exception of a handler, or by \<open>bad_alloc\<close> when no handler is installed.
\<close>

inductive allocates :: "'m nd_env \<Rightarrow> nat \<Rightarrow> 'm nd \<Rightarrow> thrown + nat \<Rightarrow> 'm nd \<Rightarrow> bool" for E sz where
  success: "malloc_in E sz s = (Some a, t) \<Longrightarrow> allocates E sz s (Inr a) t"
| failure: "malloc_in E sz s = (None, t) \<Longrightarrow> new_handl t = 0 \<Longrightarrow> allocates E sz s (Inl Bad_alloc) t"
| throws: "malloc_in E sz s = (None, t) \<Longrightarrow> new_handl t \<noteq> 0 \<Longrightarrow> nd_call E (new_handl t) t = (Some e, u)
    \<Longrightarrow> allocates E sz s (Inl e) u"
| retry: "malloc_in E sz s = (None, t) \<Longrightarrow> new_handl t \<noteq> 0 \<Longrightarrow> nd_call E (new_handl t) t = (None, u)
    \<Longrightarrow> allocates E sz u r v \<Longrightarrow> allocates E sz s r v"

lemma new_loop_sound:
  assumes "new_loop E sz p t = Some rv" and "malloc_in E sz s = (p, t)"
  shows "allocates E sz s (fst rv) (snd rv)"
proof -
  have "\<forall>s. malloc_in E sz s = (p, t) \<longrightarrow> allocates E sz s (fst rv) (snd rv)"
  proof (rule new_loop.raw_induct [where P = "\<lambda>E sz p t rv. \<forall>s. malloc_in E sz s = (p, t) \<longrightarrow> allocates E sz s (fst rv) (snd rv)",
      OF _ assms(1)], intro allI impI)
    fix loop and E :: "'a nd_env" and sz p t rv s
    assume IH: "\<And>E sz p t rv. loop E sz p t = Some rv \<Longrightarrow> \<forall>s. malloc_in E sz s = (p, t) \<longrightarrow> allocates E sz s (fst rv) (snd rv)"
      and step: "(case p of Some a \<Rightarrow> Some (Inr a, t) | None \<Rightarrow>
        (if get_new_handler t \<noteq> 0 then (case nd_call E (get_new_handler t) t of (Some e, s) \<Rightarrow> Some (Inl e, s)
            | (None, s) \<Rightarrow> (case malloc_in E sz s of (p, s) \<Rightarrow> loop E sz p s))
         else Some (Inl Bad_alloc, t))) = Some rv"
      and m: "malloc_in E sz s = (p, t)"
    obtain x u where call: "nd_call E (new_handl t) t = (x, u)" by force
    obtain q v where again: "malloc_in E sz u = (q, v)" by force
    show "allocates E sz s (fst rv) (snd rv)"
    proof (cases "p = None \<and> new_handl t \<noteq> 0 \<and> x = None")
      case True
      with step call again have "loop E sz q v = Some rv" by (simp add: get_new_handler_def)
      from IH [OF this] again have "allocates E sz u (fst rv) (snd rv)" by simp
      with m True call show ?thesis by (blast intro: retry)
    next
      case False
      with step m call show ?thesis
        by (cases p; cases x; cases "new_handl t = 0") (auto simp: get_new_handler_def intro: success failure throws)
    qed
  qed
  then show ?thesis using assms(2) by blast
qed

lemma new_loop_complete:
  "allocates E sz s r v \<Longrightarrow> (case malloc_in E sz s of (p, t) \<Rightarrow> new_loop E sz p t) = Some (r, v)"
  by (induction rule: allocates.induct)
     (simp_all add: new_loop.simps [of E sz "Some _"] new_loop.simps [of E sz None] get_new_handler_def)

lemma operator_new_allocates: "operator_new E sz s = Some (r, t) \<longleftrightarrow> allocates E (max 1 sz) s r t"
  by (cases "malloc_in E (max 1 sz) s")
     (use new_loop_sound new_loop_complete [of E "max 1 sz" s r t] in
       \<open>auto simp: operator_new_def Let_def max_def split: if_splits\<close>)

lemma allocates_memory:
  assumes "allocates E sz s r t"
  shows "(\<exists>a m. r = Inr a \<and> nd_malloc E sz m = (Some a, memory t)) \<or> r = Inl Bad_alloc \<and> new_handl t = 0
    \<or> (\<exists>e u h. r = Inl e \<and> h \<noteq> 0 \<and> nd_call E h u = (Some e, t))"
  using assms by induction (auto simp: malloc_in_def split: prod.splits)

lemma returning_handlers:
  assumes progress: "\<And>t u. new_handl t \<noteq> 0 \<Longrightarrow> nd_call E (new_handl t) t = (None, u) \<Longrightarrow> new_handl u \<noteq> 0
      \<Longrightarrow> reserve (memory u) < (reserve (memory t) :: nat)"
    and shrink: "\<And>m p m'. nd_malloc E sz m = (p, m') \<Longrightarrow> reserve m' \<le> reserve m"
  shows "\<exists>r t. allocates E sz s r t"
proof (induction "reserve (memory s)" arbitrary: s rule: less_induct)
  case less
  obtain p t where m: "malloc_in E sz s = (p, t)" by force
  then have le: "reserve (memory t) \<le> reserve (memory s)" using shrink by (auto simp: malloc_in_def split: prod.splits)
  obtain x u where call: "nd_call E (new_handl t) t = (x, u)" by force
  show ?case
  proof (cases "p = None \<and> new_handl t \<noteq> 0 \<and> x = None")
    case True
    obtain r v where "allocates E sz u r v"
    proof (cases "new_handl u = 0")
      case False
      with progress [of t u] True call le less that show ?thesis by (meson order_less_le_trans)
    next
      case None: True
      obtain q v where "malloc_in E sz u = (q, v)" by force
      moreover from this None have "new_handl v = 0" by (auto simp: malloc_in_def split: prod.splits)
      ultimately show ?thesis by (cases q) (auto intro: that success failure)
    qed
    with m True call show ?thesis by (blast intro: retry)
  next
    case False
    then show ?thesis using m call by (cases p; cases x; cases "new_handl t = 0") (auto intro: success failure throws)
  qed
qed

section \<open>Properties\<close>

text \<open>
  C25. \<open>operator new\<close> is exactly the allocation the standard describes, for at least one byte: it returns an outcome if and only if
  there is such a sequence of attempts and calls of handlers, and this outcome is the one of the sequence.
\<close>

theorem operator_new_refines: "operator_new E sz s = Some (r, t) \<longleftrightarrow> allocates E (max 1 sz) s r t"
  by (rule operator_new_allocates)

text \<open>
  C26. When every call of a handler that returns gives up a reserve of memory or leaves no handler installed,
  \<open>operator new\<close> returns: with a block that \<open>malloc\<close> returned for at least one byte, with \<open>bad_alloc\<close> when no handler is installed, or with the exception of a
  handler; the \<open>nothrow\<close> form returns in the same state, with the block or a null pointer.
\<close>

theorem operator_new_returns:
  fixes reserve :: "'m \<Rightarrow> nat"
  assumes "\<And>t u. new_handl t \<noteq> 0 \<Longrightarrow> nd_call E (new_handl t) t = (None, u) \<Longrightarrow> new_handl u \<noteq> 0
      \<Longrightarrow> reserve (memory u) < reserve (memory t)"
    and "\<And>n m p m'. nd_malloc E n m = (p, m') \<Longrightarrow> reserve m' \<le> reserve m"
  shows "\<exists>r t. operator_new E sz s = Some (r, t)
    \<and> operator_new_nothrow E sz s = Some (case r of Inl e \<Rightarrow> None | Inr a \<Rightarrow> Some a, t)
    \<and> ((\<exists>a m. r = Inr a \<and> nd_malloc E (max 1 sz) m = (Some a, memory t)) \<or> r = Inl Bad_alloc \<and> new_handl t = 0
       \<or> (\<exists>e u h. r = Inl e \<and> h \<noteq> 0 \<and> nd_call E h u = (Some e, t)))"
proof -
  obtain r t where a: "allocates E (max 1 sz) s r t"
    using returning_handlers [of E reserve "max 1 sz" s] assms by blast
  then have "operator_new E sz s = Some (r, t)" by (simp add: operator_new_allocates)
  moreover from this have "operator_new_nothrow E sz s = Some (case r of Inl e \<Rightarrow> None | Inr a \<Rightarrow> Some a, t)"
    by (simp add: operator_new_nothrow_def noexcept_new_def split: sum.splits)
  ultimately show ?thesis using allocates_memory [OF a] by blast
qed

text \<open>A pool of bytes with a reserve of blocks of 64 bytes; the handler releases one of them, or uninstalls itself.\<close>

definition pool_env :: "(nat \<times> nat) nd_env" where
  "pool_env = \<lparr>nd_malloc = (\<lambda>n (a, b). if n \<le> a then (Some a, (a - n, b)) else (None, (a, b))),
     nd_free = (\<lambda>p m. m),
     nd_call = (\<lambda>h s. (None, case memory s of (a, 0) \<Rightarrow> s\<lparr>new_handl := 0\<rparr> | (a, Suc b) \<Rightarrow> s\<lparr>memory := (a + 64, b)\<rparr>))\<rparr>"

theorem operator_new_returns_witness:
  "\<exists>r t. operator_new pool_env 100 \<lparr>new_handl = 1, memory = (10, 3)\<rparr> = Some (r, t)"
proof -
  have "snd (memory u) < snd (memory t)"
    if "nd_call pool_env (new_handl t) t = (None, u)" "new_handl u \<noteq> 0" for t u :: "(nat \<times> nat) nd"
    using that by (auto simp: pool_env_def split: prod.splits nat.splits)
  moreover have "snd m' \<le> snd m" if "nd_malloc pool_env n m = (p, m')" for n m p m'
    using that by (auto simp: pool_env_def split: prod.splits if_splits)
  ultimately show ?thesis
    using operator_new_returns [of pool_env snd 100 "\<lparr>new_handl = 1, memory = (10, 3)\<rparr>"] by blast
qed

text \<open>
  A handler that returns without making memory available keeps \<open>operator new\<close>, and the \<open>nothrow\<close> form, in its loop forever.
\<close>

theorem operator_new_spins:
  assumes "new_handl s \<noteq> 0" and "nd_malloc E (max 1 sz) (memory s) = (None, memory s)" and "nd_call E (new_handl s) s = (None, s)"
  shows "operator_new E sz s = None \<and> operator_new_nothrow E sz s = None"
proof -
  have m: "malloc_in E (max 1 sz) s = (None, s)" using assms(2) by (simp add: malloc_in_def)
  have "u \<noteq> s" if "allocates E (max 1 sz) u r t" for u r t
    using that m assms(1,3) by (induction rule: allocates.induct) auto
  then have "operator_new E sz s = None" by (metis operator_new_allocates option.exhaust surj_pair)
  then show ?thesis by (simp add: operator_new_nothrow_def noexcept_new_def)
qed

theorem operator_new_spins_witness:
  "operator_new (pool_env\<lparr>nd_call := \<lambda>h s. (None, s)\<rparr>) 8 \<lparr>new_handl = 1, memory = (0, 0)\<rparr> = None"
  using operator_new_spins [of "\<lparr>new_handl = 1, memory = (0, 0)\<rparr>" "pool_env\<lparr>nd_call := \<lambda>h s. (None, s)\<rparr>" 8]
  by (simp add: pool_env_def)

end
