(* ===== verification/Helpers.thy ===== *)
theory Helpers
  imports New_Delete
begin

text \<open>
  The helpers that compilers call (\<open>auxhelper.cc\<close>), the exception classes they throw with their messages (\<open>stdexcept.cc\<close>), and the stubs for
  programs without exceptions (\<open>noexception.cc\<close>, \<open>terminate.cc\<close>). None of the helpers returns: a call ends in an exception or, with
  \<open>_CXXRT_NO_EXCEPTIONS\<close>, in \<open>abort()\<close>.
\<close>

datatype std_exception = Std_exception | Std_bad_alloc | Std_bad_cast | Std_bad_typeid | Std_bad_array_new_length

fun what :: "std_exception \<Rightarrow> string" where
  "what Std_exception = ''std::exception''"
| "what Std_bad_alloc = ''cxxrt::bad_alloc''"
| "what Std_bad_cast = ''std::bad_cast''"
| "what Std_bad_typeid = ''std::bad_typeid''"
| "what Std_bad_array_new_length = ''std::bad_array_new_length''"

text \<open>How a call that does not return ends.\<close>

datatype leaves = Throws std_exception | Aborts

definition throw_or_abort :: "bool \<Rightarrow> std_exception \<Rightarrow> leaves" where
  "throw_or_abort no_exceptions T = (if no_exceptions then Aborts else Throws T)"

definition cxa_bad_cast :: "bool \<Rightarrow> leaves" where
  "cxa_bad_cast no_exceptions = throw_or_abort no_exceptions Std_bad_cast"

definition cxa_bad_typeid :: "bool \<Rightarrow> leaves" where
  "cxa_bad_typeid no_exceptions = throw_or_abort no_exceptions Std_bad_typeid"

definition cxa_pure_virtual :: leaves where
  "cxa_pure_virtual = Aborts"

definition cxa_deleted_virtual :: leaves where
  "cxa_deleted_virtual = Aborts"

definition cxa_throw_bad_array_new_length :: "bool \<Rightarrow> leaves" where
  "cxa_throw_bad_array_new_length no_exceptions = throw_or_abort no_exceptions Std_bad_array_new_length"

definition stub_terminate :: leaves where
  "stub_terminate = Aborts"

definition stub_uncaught_exception :: bool where
  "stub_uncaught_exception = False"

definition stub_uncaught_exceptions :: int where
  "stub_uncaught_exceptions = 0"

text \<open>The message identifies the class.\<close>

lemma what_inject: "what a = what b \<longleftrightarrow> a = b"
  by (cases a; cases b) simp_all

end
