(* ===== verification/Dwarf_Eh.thy ===== *)
theory Dwarf_Eh
  imports Prelude "HOL-Library.Word"
begin

text \<open>
  DWARF exception tables (\<open>dwarf_eh.h\<close>), on a little-endian machine with 64-bit pointers. Memory
  maps an address to a byte; reading an address that is not mapped is a fault. A function that
  takes \<open>dw_eh_ptr_t *data\<close> is a state transformer of that pointer. The functions of the unwind
  library are fields of \<open>unwind_context\<close>.

  Shifts follow C++11: a left shift of a non-negative \<open>int\<close> is undefined when its result does
  not fit \<open>unsigned int\<close>, and otherwise converted modulo \<open>2^32\<close>. The sign extension
  \<open>int64_t(-1) << bits\<close> is taken in two's complement, as every compiler the code names does.
\<close>

unbundle bit_operations_syntax

type_synonym ptr = "64 word"
type_synonym memory = "ptr \<Rightarrow> 8 word option"

section \<open>Encodings\<close>

definition DW_EH_PE_signed :: "8 word" where
  "DW_EH_PE_signed = 0x08"

datatype dwarf_data_encoding =
    DW_EH_PE_absptr | DW_EH_PE_uleb128 | DW_EH_PE_udata2 | DW_EH_PE_udata4 | DW_EH_PE_udata8
  | DW_EH_PE_sleb128 | DW_EH_PE_sdata2 | DW_EH_PE_sdata4 | DW_EH_PE_sdata8 | Other_encoding

definition get_encoding :: "8 word \<Rightarrow> dwarf_data_encoding" where
  "get_encoding x = (let e = x AND 0xf in
     if e = 0 then DW_EH_PE_absptr
     else if e = 1 then DW_EH_PE_uleb128
     else if e = 2 then DW_EH_PE_udata2
     else if e = 3 then DW_EH_PE_udata4
     else if e = 4 then DW_EH_PE_udata8
     else if e = 1 OR DW_EH_PE_signed then DW_EH_PE_sleb128
     else if e = 2 OR DW_EH_PE_signed then DW_EH_PE_sdata2
     else if e = 3 OR DW_EH_PE_signed then DW_EH_PE_sdata4
     else if e = 4 OR DW_EH_PE_signed then DW_EH_PE_sdata8
     else Other_encoding)"

definition DW_EH_PE_omit :: "8 word" where
  "DW_EH_PE_omit = 0xff"

datatype dwarf_data_relative =
  DW_EH_PE_pcrel | DW_EH_PE_textrel | DW_EH_PE_datarel | DW_EH_PE_funcrel | DW_EH_PE_aligned | Other_relative

definition get_base :: "8 word \<Rightarrow> dwarf_data_relative" where
  "get_base x = (let b = x AND 0x70 in
     if b = 0x10 then DW_EH_PE_pcrel
     else if b = 0x20 then DW_EH_PE_textrel
     else if b = 0x30 then DW_EH_PE_datarel
     else if b = 0x40 then DW_EH_PE_funcrel
     else if b = 0x50 then DW_EH_PE_aligned
     else Other_relative)"

definition is_indirect :: "8 word \<Rightarrow> bool" where
  "is_indirect x \<longleftrightarrow> x AND 0x80 = 0x80"

definition dwarf_size_of_fixed_size_field :: "8 word \<Rightarrow> (int, ptr) M" where
  "dwarf_size_of_fixed_size_field type = (case get_encoding type of
     DW_EH_PE_sdata2 \<Rightarrow> ret 2 | DW_EH_PE_udata2 \<Rightarrow> ret 2
   | DW_EH_PE_sdata4 \<Rightarrow> ret 4 | DW_EH_PE_udata4 \<Rightarrow> ret 4
   | DW_EH_PE_sdata8 \<Rightarrow> ret 8 | DW_EH_PE_udata8 \<Rightarrow> ret 8
   | DW_EH_PE_absptr \<Rightarrow> ret 8
   | _ \<Rightarrow> crash Aborted)"

section \<open>Variable-length numbers\<close>

text \<open>\<open>digit << bit\<close>, computed in \<open>int\<close>, as it is added to a \<open>uint64_t\<close>.\<close>

definition shift_digit :: "8 word \<Rightarrow> nat \<Rightarrow> 64 word option" where
  "shift_digit digit sh = (if sh < 32 \<and> unat digit * 2 ^ sh < 2 ^ 32
     then Some (scast (of_nat (unat digit * 2 ^ sh) :: 32 word)) else None)"

function leb128_loop :: "memory \<Rightarrow> nat \<Rightarrow> 64 word \<Rightarrow> (64 word \<times> nat, ptr) M" where
  "leb128_loop m sh uleb data =
     (if sh \<ge> 64 then Fault Assert_Failed
      else case m data of None \<Rightarrow> Fault Out_Of_Bounds
      | Some byte \<Rightarrow>
          let digit = byte AND 0x7f in
          (case shift_digit digit sh of None \<Rightarrow> Fault Bad_Shift
          | Some x \<Rightarrow>
              if byte \<noteq> digit then leb128_loop m (sh + 7) (uleb + x) (data + 1)
              else Ok (uleb + x, sh + 7) (data + 1)))"
  by pat_completeness auto
termination by (relation "measure (\<lambda>(m, sh, uleb, data). 64 - sh)") auto

declare leb128_loop.simps [simp del]

definition read_leb128 :: "memory \<Rightarrow> (64 word \<times> nat, ptr) M" where
  "read_leb128 m = leb128_loop m 0 0"

definition read_uleb128 :: "memory \<Rightarrow> (64 word, ptr) M" where
  "read_uleb128 m = bind (read_leb128 m) (\<lambda>(uleb, b). ret uleb)"

definition read_sleb128 :: "memory \<Rightarrow> (64 word, ptr) M" where
  "read_sleb128 m = bind (read_leb128 m) (\<lambda>(uleb, bits).
     if bits - 1 \<ge> 64 then crash Bad_Shift
     else if drop_bit (bits - 1) uleb = 1 then ret (uleb OR push_bit bits (- 1)) else ret uleb)"

section \<open>Encoded values\<close>

primrec read_bytes :: "nat \<Rightarrow> memory \<Rightarrow> (nat, ptr) M" where
  "read_bytes 0 m data = Ok 0 data"
| "read_bytes (Suc n) m data = (case m data of None \<Rightarrow> Fault Out_Of_Bounds
     | Some byte \<Rightarrow> (case read_bytes n m (data + 1) of
         Ok v data' \<Rightarrow> Ok (unat byte + 256 * v) data' | Fault e \<Rightarrow> Fault e))"

definition read_value :: "8 word \<Rightarrow> memory \<Rightarrow> (64 word, ptr) M" where
  "read_value encoding m = (case get_encoding encoding of
     DW_EH_PE_udata2 \<Rightarrow> bind (read_bytes 2 m) (\<lambda>t. ret (ucast (of_nat t :: 16 word)))
   | DW_EH_PE_udata4 \<Rightarrow> bind (read_bytes 4 m) (\<lambda>t. ret (ucast (of_nat t :: 32 word)))
   | DW_EH_PE_udata8 \<Rightarrow> bind (read_bytes 8 m) (\<lambda>t. ret (of_nat t))
   | DW_EH_PE_sdata2 \<Rightarrow> bind (read_bytes 2 m) (\<lambda>t. ret (scast (of_nat t :: 16 word)))
   | DW_EH_PE_sdata4 \<Rightarrow> bind (read_bytes 4 m) (\<lambda>t. ret (scast (of_nat t :: 32 word)))
   | DW_EH_PE_sdata8 \<Rightarrow> bind (read_bytes 8 m) (\<lambda>t. ret (of_nat t))
   | DW_EH_PE_absptr \<Rightarrow> bind (read_bytes 8 m) (\<lambda>t. ret (of_nat t))
   | DW_EH_PE_sleb128 \<Rightarrow> read_sleb128 m
   | DW_EH_PE_uleb128 \<Rightarrow> read_uleb128 m
   | Other_encoding \<Rightarrow> crash Aborted)"

text \<open>What the unwind library tells about a frame.\<close>

record unwind_context =
  GetTextRelBase :: ptr
  GetDataRelBase :: ptr
  GetRegionStart :: ptr
  GetIP :: ptr
  GetLanguageSpecificData :: ptr

definition resolve_indirect_value :: "memory \<Rightarrow> unwind_context \<Rightarrow> 8 word \<Rightarrow> 64 word \<Rightarrow> ptr \<Rightarrow> (64 word, ptr) M" where
  "resolve_indirect_value m c encoding v start =
     (let v = (case get_base encoding of
          DW_EH_PE_pcrel \<Rightarrow> v + start
        | DW_EH_PE_textrel \<Rightarrow> v + GetTextRelBase c
        | DW_EH_PE_datarel \<Rightarrow> v + GetDataRelBase c
        | DW_EH_PE_funcrel \<Rightarrow> v + GetRegionStart c
        | _ \<Rightarrow> v) in
      if is_indirect encoding then (\<lambda>data. case read_bytes 8 m v of Ok t _ \<Rightarrow> Ok (of_nat t) data | Fault e \<Rightarrow> Fault e)
      else ret v)"

definition read_value_with_encoding :: "memory \<Rightarrow> unwind_context \<Rightarrow> 64 word \<Rightarrow> (64 word, ptr) M" where
  "read_value_with_encoding m context out = (\<lambda>start. case m start of None \<Rightarrow> Fault Out_Of_Bounds
     | Some encoding \<Rightarrow>
         if encoding = DW_EH_PE_omit then Ok out (start + 1)
         else bind (read_value encoding m) (\<lambda>v. resolve_indirect_value m context encoding v start) (start + 1))"

section \<open>The language-specific data area\<close>

record dwarf_eh_lsda =
  region_start :: ptr
  landing_pads :: ptr
  type_table :: ptr
  type_table_encoding :: "8 word"
  call_site_table :: ptr
  action_table :: ptr
  callsite_encoding :: "8 word"

definition read_byte :: "memory \<Rightarrow> (8 word, ptr) M" where
  "read_byte m = (\<lambda>data. case m data of None \<Rightarrow> Fault Out_Of_Bounds | Some b \<Rightarrow> Ok b (data + 1))"

definition parse_lsda :: "memory \<Rightarrow> unwind_context \<Rightarrow> (dwarf_eh_lsda, ptr) M" where
  "parse_lsda m context =
     bind (read_value_with_encoding m context (GetRegionStart context)) (\<lambda>lp.
     bind (read_byte m) (\<lambda>tt_enc.
     bind (if tt_enc \<noteq> DW_EH_PE_omit
           then bind (read_uleb128 m) (\<lambda>v. \<lambda>data. Ok (data + v) data) else ret 0) (\<lambda>tt.
     bind (read_byte m) (\<lambda>cs_enc.
     bind (read_uleb128 m) (\<lambda>callsite_size. \<lambda>data.
       Ok \<lparr>region_start = GetRegionStart context, landing_pads = lp, type_table = tt, type_table_encoding = tt_enc,
           call_site_table = data, action_table = data + callsite_size, callsite_encoding = cs_enc\<rparr> data)))))"

record dwarf_eh_action =
  landing_pad :: ptr
  action_record :: ptr

text \<open>The loop of \<open>dwarf_eh_find_callsite\<close>; the state is \<open>callsite_table\<close>.\<close>

primrec find_callsite_loop :: "nat \<Rightarrow> memory \<Rightarrow> dwarf_eh_lsda \<Rightarrow> 64 word \<Rightarrow> (dwarf_eh_action option, ptr) M" where
  "find_callsite_loop 0 m lsda ip = crash Out_Of_Fuel"
| "find_callsite_loop (Suc n) m lsda ip = (\<lambda>callsite_table.
     if callsite_table > action_table lsda then Ok None callsite_table
     else
       bind (read_value (callsite_encoding lsda) m) (\<lambda>call_site_start.
       bind (read_value (callsite_encoding lsda) m) (\<lambda>call_site_size.
       if call_site_start > ip then ret None
       else
         bind (read_value (callsite_encoding lsda) m) (\<lambda>lp.
         bind (read_uleb128 m) (\<lambda>action.
         if call_site_start < ip \<and> ip \<le> call_site_start + call_site_size then
           ret (Some \<lparr>landing_pad = (if lp \<noteq> 0 then landing_pads lsda + lp else 0),
                      action_record = (if action \<noteq> 0 then action_table lsda + action - 1 else 0)\<rparr>)
         else find_callsite_loop n m lsda ip)))) callsite_table)"

definition no_action :: dwarf_eh_action where
  "no_action = \<lparr>landing_pad = 0, action_record = 0\<rparr>"

text \<open>The result says whether there is an entry; without one \<open>result\<close> has null pointers.\<close>

definition dwarf_eh_find_callsite ::
    "nat \<Rightarrow> memory \<Rightarrow> unwind_context \<Rightarrow> dwarf_eh_lsda \<Rightarrow> fault + bool \<times> dwarf_eh_action" where
  "dwarf_eh_find_callsite n m context lsda =
     (case find_callsite_loop n m lsda (GetIP context - GetRegionStart context) (call_site_table lsda) of
        Fault e \<Rightarrow> Inl e
      | Ok None _ \<Rightarrow> Inr (False, no_action)
      | Ok (Some a) _ \<Rightarrow> Inr (True, a))"

section \<open>Exception classes\<close>

definition EXCEPTION_CLASS :: "8 word \<Rightarrow> 8 word \<Rightarrow> 8 word \<Rightarrow> 8 word \<Rightarrow> 8 word \<Rightarrow> 8 word \<Rightarrow> 8 word \<Rightarrow> 8 word \<Rightarrow> 64 word" where
  "EXCEPTION_CLASS a b c d e f g h =
     push_bit 56 (ucast a) + push_bit 48 (ucast b) + push_bit 40 (ucast c) + push_bit 32 (ucast d)
     + push_bit 24 (ucast e) + push_bit 16 (ucast f) + push_bit 8 (ucast g) + ucast h"

end
