(* ===== verification/Dwarf_Codec.thy ===== *)
theory Dwarf_Codec
  imports Dwarf_Eh
begin

text \<open>
  The readers of \<open>Dwarf_Eh\<close> against the encodings of the DWARF standard: LEB128 numbers, fixed-size
  numbers, the header of a language-specific data area and its call-site table.
\<close>

unbundle bit_operations_syntax

section \<open>Bytes in memory\<close>

fun stored :: "memory \<Rightarrow> ptr \<Rightarrow> 8 word list \<Rightarrow> bool" where
  "stored m a [] = True"
| "stored m a (b # bs) = (m a = Some b \<and> stored m (a + 1) bs)"

lemma stored_append: "stored m a (bs @ cs) = (stored m a bs \<and> stored m (a + of_nat (length bs)) cs)"
  by (induction bs arbitrary: a) (auto simp: algebra_simps)

section \<open>Digits\<close>

lemma and_127: "w AND 0x7f = take_bit 7 (w :: 8 word)"
  by (simp add: take_bit_eq_mask mask_eq_exp_minus_1)

lemma unat_digit: "unat (w AND 0x7f :: 8 word) = unat w mod 128"
  by (simp only: and_127 unsigned_take_bit_eq) (simp add: take_bit_eq_mod)

lemma continues_iff: "w \<noteq> w AND 0x7f \<longleftrightarrow> 128 \<le> unat (w :: 8 word)"
proof -
  have "w = w AND 0x7f \<longleftrightarrow> unat w = unat w mod 128" by (simp add: word_eq_iff_unsigned [where 'a = nat] unat_digit)
  then show ?thesis by (metis mod_less mod_less_divisor not_le zero_less_numeral)
qed

lemma scast_small: "k < 2 ^ 31 \<Longrightarrow> scast (of_nat k :: 32 word) = (of_nat k :: 64 word)"
  by (simp add: signed_of_nat signed_take_bit_int_eq_self)

lemma shift_digit_small:
  assumes "unat x * 2 ^ sh < 2 ^ 31" and "sh < 32"
  shows "shift_digit x sh = Some (of_nat (unat x * 2 ^ sh))"
  using assms scast_small [of "unat x * 2 ^ sh"] by (simp add: shift_digit_def)

lemma loop_continue:
  assumes "m a = Some b" and "128 \<le> unat b" and "unat b mod 128 * 2 ^ sh < 2 ^ 31" and "sh < 32"
  shows "leb128_loop m sh u a = leb128_loop m (sh + 7) (u + of_nat (unat b mod 128 * 2 ^ sh)) (a + 1)"
  using assms continues_iff [of b] shift_digit_small [of "b AND 0x7f" sh]
  by (subst leb128_loop.simps) (simp add: unat_digit Let_def)

lemma loop_stop:
  assumes "m a = Some b" and "unat b < 128" and "unat b * 2 ^ sh < 2 ^ 31" and "sh < 32"
  shows "leb128_loop m sh u a = Ok (u + of_nat (unat b * 2 ^ sh), sh + 7) (a + 1)"
  using assms continues_iff [of b] shift_digit_small [of "b AND 0x7f" sh]
  by (subst leb128_loop.simps) (simp add: unat_digit Let_def)

section \<open>Unsigned numbers\<close>

fun uleb :: "nat \<Rightarrow> 8 word list" where
  "uleb n = (if n < 128 then [of_nat n] else of_nat (128 + n mod 128) # uleb (n div 128))"

declare uleb.simps [simp del]

lemma unat_byte: "k < 256 \<Longrightarrow> unat (of_nat k :: 8 word) = k"
  by (simp add: unat_of_nat take_bit_nat_eq_self)

lemma loop_stop_digit:
  assumes "m a = Some (of_nat d)" and "d < 128" and "d * 2 ^ sh < 2 ^ 31" and "sh < 32"
  shows "leb128_loop m sh u a = Ok (u + of_nat (d * 2 ^ sh), sh + 7) (a + 1)"
  using loop_stop [of m a "of_nat d" sh u] assms unat_byte [of d] by simp

lemma loop_continue_digit:
  assumes "m a = Some (of_nat (128 + d))" and "d < 128" and "d * 2 ^ sh < 2 ^ 31" and "sh < 32"
  shows "leb128_loop m sh u a = leb128_loop m (sh + 7) (u + of_nat (d * 2 ^ sh)) (a + 1)"
proof -
  have v: "unat (of_nat (128 + d) :: 8 word) = 128 + d" using assms(2) by (intro unat_byte) simp
  from loop_continue [of m a "of_nat (128 + d)" sh u] assms show ?thesis unfolding v by simp
qed

lemma uleb_continue:
  assumes "stored m a (uleb n)" and "128 \<le> n" and "n mod 128 * 2 ^ sh < 2 ^ 31" and "sh < 32"
  shows "leb128_loop m sh u a = leb128_loop m (sh + 7) (u + of_nat (n mod 128 * 2 ^ sh)) (a + 1)"
    and "stored m (a + 1) (uleb (n div 128))"
proof -
  have st: "m a = Some (of_nat (128 + n mod 128))" "stored m (a + 1) (uleb (n div 128))"
    using assms(1,2) by (simp_all add: uleb.simps [of n])
  then show "leb128_loop m sh u a = leb128_loop m (sh + 7) (u + of_nat (n mod 128 * 2 ^ sh)) (a + 1)"
    using loop_continue_digit [of m a "n mod 128" sh u] assms(3,4) by simp
  show "stored m (a + 1) (uleb (n div 128))" by (rule st(2))
qed

lemma uleb_stop:
  assumes "stored m a (uleb n)" and "n < 128" and "n * 2 ^ sh < 2 ^ 31" and "sh < 32"
  shows "leb128_loop m sh u a = Ok (u + of_nat (n * 2 ^ sh), sh + 7) (a + 1)"
  using loop_stop_digit [of m a n sh u] assms by (simp add: uleb.simps [of n])

lemma digit_sum: "(q * 128 + r) * 2 ^ sh = r * 2 ^ sh + q * 2 ^ (sh + 7)" for q r :: nat
  by (simp add: power_add algebra_simps)

lemma leb128_loop_uleb:
  assumes "stored m a (uleb n)" and "n * 2 ^ sh < 2 ^ 31" and "sh < 32"
  shows "leb128_loop m sh u a = Ok (u + of_nat (n * 2 ^ sh), sh + 7 * length (uleb n)) (a + of_nat (length (uleb n)))"
  using assms
proof (induction n arbitrary: sh u a rule: uleb.induct)
  case (1 n)
  show ?case
  proof (cases "n < 128")
    case True
    with uleb_stop [OF "1.prems"(1) True "1.prems"(2,3)] show ?thesis by (simp add: uleb.simps [of n])
  next
    case False
    have digit: "n mod 128 * 2 ^ sh < 2 ^ 31" and shifted: "n div 128 * 2 ^ (sh + 7) < 2 ^ 31"
    proof -
      have "n mod 128 * 2 ^ sh \<le> n * 2 ^ sh" by simp
      with "1.prems"(2) show "n mod 128 * 2 ^ sh < 2 ^ 31" by linarith
      have "n div 128 * 2 ^ (sh + 7) = n div 128 * 128 * 2 ^ sh" by (simp add: power_add)
      also have "\<dots> \<le> n * 2 ^ sh" by (intro mult_le_mono1) simp
      finally show "n div 128 * 2 ^ (sh + 7) < 2 ^ 31" using "1.prems"(2) by linarith
    qed
    have "1 * 2 ^ (sh + 7) \<le> n div 128 * 2 ^ (sh + 7)" using False by (intro mult_le_mono1) simp
    with shifted have "2 ^ (sh + 7) < (2 ^ 31 :: nat)" by linarith
    then have "sh + 7 < 31" by (rule power_less_imp_less_exp [rotated]) simp
    then have "sh + 7 < 32" by simp
    note step = uleb_continue [OF "1.prems"(1) _ digit "1.prems"(3)] and ih = "1.IH" [OF False _ shifted this]
    have "n * 2 ^ sh = n mod 128 * 2 ^ sh + n div 128 * 2 ^ (sh + 7)"
      using digit_sum [of "n div 128" "n mod 128" sh] by simp
    then show ?thesis using False step(1) [of u] ih [OF step(2)]
      by (simp add: uleb.simps [of n] algebra_simps)
  qed
qed

lemma read_uleb:
  assumes "stored m a (uleb n)" and "n < 2 ^ 31"
  shows "read_uleb128 m a = Ok (of_nat n) (a + of_nat (length (uleb n)))"
  using leb128_loop_uleb [OF assms(1), of 0 0] assms(2) by (simp add: read_uleb128_def read_leb128_def bind_def ret_def)

text \<open>
  From \<open>2^31\<close> on the fifth digit is shifted into the sign bit of \<open>int\<close>, or out of it.
\<close>

lemma uleb_four_digits:
  assumes "stored m a (uleb n)" and "2 ^ 28 \<le> n"
  shows "leb128_loop m 0 0 a = leb128_loop m 28 (of_nat (n mod 2 ^ 28)) (a + 4)"
    and "stored m (a + 4) (uleb (n div 2 ^ 28))"
proof -
  have d: "x mod 128 * 2 ^ 0 < 2 ^ 31" "x mod 128 * 2 ^ 7 < 2 ^ 31" "x mod 128 * 2 ^ 14 < 2 ^ 31" "x mod 128 * 2 ^ 21 < 2 ^ 31"
    for x :: nat using mod_less_divisor [of 128 x] by simp_all
  have ge: "128 \<le> n" "128 \<le> n div 128" "128 \<le> n div 128 div 128" "128 \<le> n div 128 div 128 div 128"
    using assms(2) by simp_all
  note s1 = uleb_continue [OF assms(1) ge(1) d(1)]
  note s2 = uleb_continue [OF s1(2) ge(2) d(2)]
  note s3 = uleb_continue [OF s2(2) ge(3) d(3)]
  note s4 = uleb_continue [OF s3(2) ge(4) d(4)]
  have sum: "n mod 2 ^ 28 = n mod 128 + n div 128 mod 128 * 2 ^ 7 + n div 128 div 128 mod 128 * 2 ^ 14
      + n div 128 div 128 div 128 mod 128 * 2 ^ 21"
    by (simp add: mod_mult2_eq [of n 128 2097152, simplified] mod_mult2_eq [of "n div 128" 128 16384, simplified]
        mod_mult2_eq [of "n div 128 div 128" 128 128, simplified] div_mult2_eq)
  show "leb128_loop m 0 0 a = leb128_loop m 28 (of_nat (n mod 2 ^ 28)) (a + 4)"
    unfolding sum using s1(1) [of 0] s2(1) s3(1) s4(1) by (simp add: algebra_simps)
  show "stored m (a + 4) (uleb (n div 2 ^ 28))" using s4(2) by (simp add: algebra_simps div_mult2_eq [symmetric])
qed

lemma scast_big: "2 ^ 31 \<le> k \<Longrightarrow> k < 2 ^ 32 \<Longrightarrow> scast (of_nat k :: 32 word) = (of_nat k - 2 ^ 32 :: 64 word)"
proof -
  assume k: "2 ^ 31 \<le> k" "k < 2 ^ 32"
  have "(int k - 2147483648 + 4294967296) mod 4294967296 = (int k - 2147483648) mod 4294967296" by (rule mod_add_self2)
  also have "\<dots> = int k - 2147483648" using k by (intro mod_pos_pos_trivial) simp_all
  finally have "(int k + 2147483648) mod 4294967296 = int k - 2147483648" by (simp add: add.commute)
  then have "signed_take_bit 31 (int k) = int k - 2 ^ 32"
    by (simp add: signed_take_bit_eq_take_bit_shift take_bit_eq_mod)
  then show ?thesis by (simp add: signed_of_nat)
qed

lemma uleb_first:
  assumes "stored m a (uleb n)"
  shows "\<exists>b. m a = Some b \<and> unat b = (if n < 128 then n else 128 + n mod 128)"
proof (cases "n < 128")
  case True
  then have "m a = Some (of_nat n)" using assms by (simp add: uleb.simps [of n])
  moreover have "unat (of_nat n :: 8 word) = n" using True by (intro unat_byte) simp
  ultimately show ?thesis using True by simp
next
  case False
  then have "m a = Some (of_nat (128 + n mod 128))" using assms by (simp add: uleb.simps [of n])
  moreover have "unat (of_nat (128 + n mod 128) :: 8 word) = 128 + n mod 128" by (rule unat_byte) simp
  ultimately show ?thesis using False by (intro exI [of _ "of_nat (128 + n mod 128)"] conjI) simp_all
qed

lemma read_uleb_wide:
  assumes "stored m a (uleb n)" and "2 ^ 31 \<le> n" and "n < 2 ^ 32"
  shows "read_uleb128 m a = Ok (of_nat n - 2 ^ 32) (a + 5)"
proof -
  have ge: "2 ^ 28 \<le> n" using assms(2) by simp
  note four = uleb_four_digits [OF assms(1) ge]
  let ?q = "n div 2 ^ 28"
  have q: "8 \<le> ?q" "?q < 16" using assms(2,3) by simp_all
  obtain b where b: "m (a + 4) = Some b" "unat b = ?q" using uleb_first [OF four(2)] q by auto
  have "unat (b AND 0x7f) = ?q" using q b(2) by (simp add: unat_digit)
  then have "shift_digit (b AND 0x7f) 28 = Some (of_nat (?q * 2 ^ 28) - 2 ^ 32)"
    using scast_big [of "?q * 2 ^ 28"] q by (simp add: shift_digit_def)
  then have loop: "leb128_loop m 28 u (a + 4) = Ok (u + (of_nat (?q * 2 ^ 28) - 2 ^ 32), 35) (a + 5)" for u
    using b(1) continues_iff [of b] q b(2) by (subst leb128_loop.simps) (simp add: Let_def algebra_simps)
  have "of_nat n = (of_nat (n mod 2 ^ 28 + ?q * 2 ^ 28) :: 64 word)" by (simp only: mod_div_mult_eq)
  then have "of_nat (n mod 2 ^ 28) + (of_nat (?q * 2 ^ 28) - 2 ^ 32) = (of_nat n - 2 ^ 32 :: 64 word)"
    by (simp only: of_nat_add algebra_simps)
  with four(1) loop show ?thesis by (simp only: read_uleb128_def read_leb128_def bind_def ret_def res.case prod.case)
qed

lemma read_uleb_overflow:
  assumes "stored m a (uleb n)" and "2 ^ 32 \<le> n"
  shows "read_uleb128 m a = Fault Bad_Shift"
proof -
  have ge: "2 ^ 28 \<le> n" using assms(2) by simp
  note four = uleb_four_digits [OF assms(1) ge]
  let ?q = "n div 2 ^ 28"
  have q: "16 \<le> ?q" using assms(2) by simp
  obtain b where b: "m (a + 4) = Some b" "unat b = (if ?q < 128 then ?q else 128 + ?q mod 128)" using uleb_first [OF four(2)] by blast
  have "leb128_loop m 28 u (a + 4) = Fault Bad_Shift" for u
  proof (cases "16 \<le> ?q mod 128")
    case True
    moreover have "unat b mod 128 = ?q mod 128" using b(2) by (cases "?q < 128") auto
    ultimately have "shift_digit (b AND 0x7f) 28 = None" by (simp add: shift_digit_def unat_digit)
    then show ?thesis using b(1) by (subst leb128_loop.simps) (simp add: Let_def)
  next
    case False
    then have "128 \<le> ?q" using q by (cases "?q < 128") auto
    then have "stored m (a + 4 + 1) (uleb (?q div 128))" using four(2) by (simp only: uleb.simps [of ?q] stored.simps not_le if_False split: if_split_asm)
    then obtain c where c: "m (a + 5) = Some c" using uleb_first [of m "a + 5" "?q div 128"] by (auto simp: algebra_simps)
    have "leb128_loop m 35 v (a + 5) = Fault Bad_Shift" for v
      using c by (subst leb128_loop.simps) (simp add: Let_def shift_digit_def)
    moreover have "unat b mod 128 = ?q mod 128" using b(2) by (cases "?q < 128") auto
    then have "shift_digit (b AND 0x7f) 28 = Some (scast (of_nat (?q mod 128 * 2 ^ 28) :: 32 word))"
      using False by (simp add: shift_digit_def unat_digit)
    moreover have "b \<noteq> b AND 0x7f" using b(2) \<open>128 \<le> ?q\<close> continues_iff [of b] by simp
    ultimately show ?thesis using b(1) by (subst leb128_loop.simps) (simp add: Let_def algebra_simps)
  qed
  with four(1) show ?thesis by (simp add: read_uleb128_def read_leb128_def bind_def)
qed

section \<open>Signed numbers\<close>

function sleb :: "int \<Rightarrow> 8 word list" where
  "sleb i = (if - 64 \<le> i \<and> i < 64 then [of_nat (nat (i mod 128))] else of_nat (128 + nat (i mod 128)) # sleb (i div 128))"
  by pat_completeness auto
termination by (relation "measure (\<lambda>i. nat \<bar>i\<bar>)") auto

declare sleb.simps [simp del]

lemma sleb_range: "- (2 ^ (7 * length (sleb i) - 1)) \<le> i \<and> i < 2 ^ (7 * length (sleb i) - 1) \<and> sleb i \<noteq> []"
proof (induction i rule: sleb.induct)
  case (1 i)
  show ?case
  proof (cases "- 64 \<le> i \<and> i < 64")
    case True
    then show ?thesis by (simp add: sleb.simps [of i])
  next
    case False
    with "1.IH" have ih: "- (2 ^ (7 * length (sleb (i div 128)) - 1)) \<le> i div 128" "i div 128 < 2 ^ (7 * length (sleb (i div 128)) - 1)"
        "sleb (i div 128) \<noteq> []" by blast+
    then obtain k where k: "7 * length (sleb (i div 128)) = Suc k" by (cases "sleb (i div 128)") auto
    with ih show ?thesis using False by (simp add: sleb.simps [of i] power_add) linarith
  qed
qed

lemma sleb_length: "- (2 ^ (7 * l + 6)) \<le> i \<Longrightarrow> i < 2 ^ (7 * l + 6) \<Longrightarrow> length (sleb i) \<le> Suc l"
proof (induction l arbitrary: i)
  case 0
  then show ?case by (simp add: sleb.simps [of i])
next
  case (Suc l)
  from Suc.prems have "- (2 ^ (7 * l + 6)) \<le> i div 128" "i div 128 < 2 ^ (7 * l + 6)" by (simp_all add: power_add)
  with Suc.IH [of "i div 128"] show ?case by (simp add: sleb.simps [of i])
qed

lemma leb128_loop_sleb:
  assumes "stored m a (sleb i)" and "sh + 7 * length (sleb i) \<le> 28"
  shows "leb128_loop m sh u a
    = Ok (u + of_int (i mod 2 ^ (7 * length (sleb i)) * 2 ^ sh), sh + 7 * length (sleb i)) (a + of_nat (length (sleb i)))"
  using assms
proof (induction i arbitrary: sh u a rule: sleb.induct)
  case (1 i)
  let ?d = "nat (i mod 128)"
  have d: "?d < 128" "int ?d = i mod 128" by simp_all
  have sh: "sh \<le> 21" using "1.prems"(2) sleb_range [of i] by (cases "sleb i") auto
  have "?d * 2 ^ sh \<le> 127 * 2 ^ 21" using d(1) sh by (intro mult_mono power_increasing) simp_all
  then have small: "?d * 2 ^ sh < 2 ^ 31" by simp
  have "int (?d * 2 ^ sh) = i mod 128 * 2 ^ sh" by simp
  then have word: "of_nat (?d * 2 ^ sh) = (of_int (i mod 128 * 2 ^ sh) :: 64 word)" by (metis of_int_of_nat_eq)
  show ?case
  proof (cases "- 64 \<le> i \<and> i < 64")
    case True
    then have "m a = Some (of_nat ?d)" using "1.prems"(1) by (simp add: sleb.simps [of i])
    from loop_stop_digit [of m a ?d sh u, OF this d(1) small] sh
    have "leb128_loop m sh u a = Ok (u + of_nat (?d * 2 ^ sh), sh + 7) (a + 1)" by simp
    moreover have "sleb i = [of_nat ?d]" using True by (simp add: sleb.simps [of i])
    ultimately show ?thesis unfolding word by simp
  next
    case False
    have st: "m a = Some (of_nat (128 + ?d))" "stored m (a + 1) (sleb (i div 128))" "sh + 7 + 7 * length (sleb (i div 128)) \<le> 28"
      using "1.prems" False by (simp_all add: sleb.simps [of i])
    from loop_continue_digit [of m a ?d sh u, OF st(1) d(1) small] sh
    have step: "leb128_loop m sh u a = leb128_loop m (sh + 7) (u + of_nat (?d * 2 ^ sh)) (a + 1)" by simp
    have "i mod 2 ^ (7 * Suc l) = i mod 128 + 128 * (i div 128 mod 2 ^ (7 * l))" for l
      using zmod_zmult2_eq [of "2 ^ (7 * l)" i 128] by (simp add: power_add)
    then have "i mod 2 ^ (7 * Suc l) * 2 ^ sh = i mod 128 * 2 ^ sh + i div 128 mod 2 ^ (7 * l) * 2 ^ (sh + 7)" for l
      by (simp only: power_add) (simp add: algebra_simps)
    then have "u + of_int (i mod 2 ^ (7 * Suc l) * 2 ^ sh)
        = u + of_int (i mod 128 * 2 ^ sh) + of_int (i div 128 mod 2 ^ (7 * l) * 2 ^ (sh + 7))" for l
      by (simp only: of_int_add add.assoc)
    moreover have "length (sleb i) = Suc (length (sleb (i div 128)))" using False by (subst sleb.simps) auto
    ultimately show ?thesis unfolding step word "1.IH" [OF False st(2,3)] by (simp add: add.assoc)
  qed
qed

lemma word_small: "0 \<le> k \<Longrightarrow> k < 2 ^ 64 \<Longrightarrow> uint (of_int k :: 64 word) = k"
  by (simp add: uint_word_of_int)

lemma top_digit:
  assumes "0 \<le> k" and "k < 2 ^ Suc n" and "n < 63"
  shows "drop_bit n (of_int k :: 64 word) = 1 \<longleftrightarrow> 2 ^ n \<le> k"
proof -
  have "2 ^ Suc n \<le> (2 ^ 63 :: int)" using assms(3) by (intro power_increasing) simp_all
  then have u: "uint (of_int k :: 64 word) = k" using assms(1,2) by (intro word_small) simp_all
  have "uint (drop_bit n (of_int k :: 64 word)) = drop_bit n (uint (of_int k :: 64 word))"
    using unsigned_drop_bit_eq [of n "of_int k :: 64 word", where 'a = int] take_bit_int_eq_self [of k 64] assms(1) u
      uint_lt2p [of "of_int k :: 64 word"] by simp
  then have "uint (drop_bit n (of_int k :: 64 word)) = k div 2 ^ n" unfolding u by (simp only: drop_bit_eq_div)
  moreover have "k div 2 ^ n = 1 \<longleftrightarrow> 2 ^ n \<le> k"
  proof (cases "2 ^ n \<le> k")
    case True
    then have "k div 2 ^ n = 1" using assms(2) by (intro int_div_pos_eq [of _ _ _ "k - 2 ^ n"]) simp_all
    with True show ?thesis by simp
  next
    case False
    then show ?thesis using assms(1) by (simp add: div_pos_pos_trivial)
  qed
  ultimately show ?thesis by (simp add: word_eq_iff_unsigned [where 'a = int])
qed

lemma sign_extend:
  assumes "0 \<le> k" and "k < 2 ^ n" and "n < 64"
  shows "(of_int k :: 64 word) OR push_bit n (- 1) = of_int (k - 2 ^ n)"
proof -
  have "2 ^ n \<le> (2 ^ 63 :: int)" using assms(3) by (intro power_increasing) simp_all
  then have u: "uint (of_int k :: 64 word) = k" using assms(1,2) by (intro word_small) simp_all
  then have "take_bit n (of_int k :: 64 word) = of_int k"
    using assms by (simp add: word_eq_iff_unsigned [where 'a = int] unsigned_take_bit_eq take_bit_int_eq_self)
  then have "(of_int k :: 64 word) AND push_bit n (- 1) = 0"
    by (intro bit_word_eqI) (metis bit_and_iff bit_push_bit_iff bit_take_bit_iff bit_0_eq bot_apply bot_bool_def not_le)
  then have "(of_int k :: 64 word) OR push_bit n (- 1) = of_int k + push_bit n (- 1)"
    by (simp add: disjunctive_add_eq_or)
  then show ?thesis by (simp add: push_bit_eq_mult)
qed

lemma read_sleb:
  assumes "stored m a (sleb i)" and "- (2 ^ 27) \<le> i" and "i < 2 ^ 27"
  shows "read_sleb128 m a = Ok (of_int i) (a + of_nat (length (sleb i)))"
proof -
  let ?n = "7 * length (sleb i)" and ?k = "i mod 2 ^ (7 * length (sleb i))"
  have len: "length (sleb i) \<le> 4" using sleb_length [of 3 i] assms(2,3) by simp
  note range = sleb_range [of i]
  then obtain l where l: "?n = Suc l" by (cases "sleb i") auto
  have k: "0 \<le> ?k" "?k < 2 ^ Suc l" unfolding l by simp_all
  have l64: "l < 63" using l len by simp
  have loop: "leb128_loop m 0 0 a = Ok (of_int ?k, ?n) (a + of_nat (length (sleb i)))"
    using leb128_loop_sleb [OF assms(1), of 0 0] len by simp
  show ?thesis
  proof (cases "0 \<le> i")
    case True
    then have "?k = i" using range unfolding l by (intro mod_pos_pos_trivial) simp_all
    moreover from this have "drop_bit l (of_int i :: 64 word) \<noteq> 1"
      using top_digit [of i l] k range len l by simp
    ultimately show ?thesis using loop l64 unfolding l by (simp add: read_sleb128_def read_leb128_def bind_def ret_def)
  next
    case False
    then have ki: "?k = i + 2 ^ Suc l" using range unfolding l by (intro int_mod_pos_eq [of _ _ "- 1"]) auto
    then have "drop_bit l (of_int ?k :: 64 word) = 1" using top_digit [of ?k l] k range len l by simp
    then show ?thesis using loop l64 sign_extend [of ?k "Suc l"] k ki unfolding l
      by (simp add: read_sleb128_def read_leb128_def bind_def ret_def)
  qed
qed

section \<open>Fixed-size numbers\<close>

primrec le_bytes :: "nat \<Rightarrow> nat \<Rightarrow> 8 word list" where
  "le_bytes 0 k = []"
| "le_bytes (Suc n) k = of_nat k # le_bytes n (k div 256)"

lemma length_le_bytes [simp]: "length (le_bytes n k) = n"
  by (induction n arbitrary: k) simp_all

lemma read_bytes_le:
  assumes "stored m a (le_bytes n k)"
  shows "read_bytes n m a = Ok (k mod 256 ^ n) (a + of_nat n)"
  using assms
proof (induction n arbitrary: k a)
  case (Suc n)
  have "k mod (256 * 256 ^ n) = k mod 256 + 256 * (k div 256 mod 256 ^ n)" by (simp add: mod_mult2_eq)
  moreover have "unat (of_nat k :: 8 word) = k mod 256" by (simp add: unat_of_nat take_bit_eq_mod)
  moreover have "read_bytes n m (a + 1) = Ok (k div 256 mod 256 ^ n) (a + 1 + of_nat n)" using Suc by simp
  ultimately show ?case using Suc.prems by (simp add: add.assoc)
qed simp

section \<open>Encodings as an interface\<close>

text \<open>
  What a client of \<open>read_value\<close> relies on: a number written the way \<open>enc\<close> says is read back, and
  the pointer moves past it.
\<close>

locale value_codec =
  fixes enc :: "8 word" and put :: "nat \<Rightarrow> 8 word list" and fits :: "nat \<Rightarrow> bool"
  assumes read_put: "stored m a (put k) \<Longrightarrow> fits k \<Longrightarrow> read_value enc m a = Ok (of_nat k) (a + of_nat (length (put k)))"
    and fits_small: "fits k \<Longrightarrow> k < 2 ^ 32"

interpretation uleb128: value_codec "0x01" uleb "\<lambda>k. k < 2 ^ 31"
proof unfold_locales
  show "read_value 1 m a = Ok (of_nat k) (a + of_nat (length (uleb k)))" if "stored m a (uleb k)" and "k < 2 ^ 31" for m a k
    using read_uleb [OF that] by (simp add: read_value_def get_encoding_def DW_EH_PE_signed_def)
qed simp

lemma get_encoding_udata4: "get_encoding 3 = DW_EH_PE_udata4"
  by (simp add: get_encoding_def DW_EH_PE_signed_def)

interpretation udata4: value_codec "0x03" "le_bytes 4" "\<lambda>k. k < 2 ^ 32"
proof unfold_locales
  show "read_value 3 m a = Ok (of_nat k) (a + of_nat (length (le_bytes 4 k)))" if "stored m a (le_bytes 4 k)" and "k < 2 ^ 32" for m a k
  proof -
    have "k mod 256 ^ 4 = k" "ucast (of_nat k :: 32 word) = (of_nat k :: 64 word)"
      using that(2) by (simp_all add: unsigned_of_nat take_bit_nat_eq_self)
    then show ?thesis using read_bytes_le [OF that(1)] by (simp add: read_value_def get_encoding_udata4 bind_def ret_def)
  qed
qed simp

interpretation udata2: value_codec "0x02" "le_bytes 2" "\<lambda>k. k < 2 ^ 16"
proof unfold_locales
  show "read_value 2 m a = Ok (of_nat k) (a + of_nat (length (le_bytes 2 k)))" if "stored m a (le_bytes 2 k)" and "k < 2 ^ 16" for m a k
  proof -
    have "k mod 256 ^ 2 = k" "ucast (of_nat k :: 16 word) = (of_nat k :: 64 word)"
      using that(2) by (simp_all add: unsigned_of_nat take_bit_nat_eq_self)
    then show ?thesis using read_bytes_le [OF that(1)]
      by (simp add: read_value_def get_encoding_def DW_EH_PE_signed_def bind_def ret_def)
  qed
qed simp

section \<open>The call-site table\<close>

record callsite =
  cs_start :: nat
  cs_size :: nat
  cs_pad :: nat
  cs_action :: nat

definition covers :: "nat \<Rightarrow> callsite \<Rightarrow> bool" where
  "covers ip e \<longleftrightarrow> cs_start e < ip \<and> ip \<le> cs_start e + cs_size e"

definition put_callsite :: "(nat \<Rightarrow> 8 word list) \<Rightarrow> callsite \<Rightarrow> 8 word list" where
  "put_callsite put e = put (cs_start e) @ put (cs_size e) @ put (cs_pad e) @ uleb (cs_action e)"

definition put_table :: "(nat \<Rightarrow> 8 word list) \<Rightarrow> callsite list \<Rightarrow> 8 word list" where
  "put_table put es = concat (map (put_callsite put) es)"

definition action_of :: "dwarf_eh_lsda \<Rightarrow> callsite \<Rightarrow> dwarf_eh_action" where
  "action_of lsda e = \<lparr>landing_pad = (if cs_pad e = 0 then 0 else landing_pads lsda + of_nat (cs_pad e)),
     action_record = (if cs_action e = 0 then 0 else action_table lsda + of_nat (cs_action e) - 1)\<rparr>"

definition callsite_fits :: "(nat \<Rightarrow> bool) \<Rightarrow> callsite \<Rightarrow> bool" where
  "callsite_fits fits e \<longleftrightarrow> fits (cs_start e) \<and> fits (cs_size e) \<and> fits (cs_pad e) \<and> cs_action e < 2 ^ 31"

text \<open>What the loop does with the entries of the table.\<close>

datatype lookup_result = Found callsite | Stopped | Past

fun lookup :: "nat \<Rightarrow> callsite list \<Rightarrow> lookup_result" where
  "lookup ip [] = Past"
| "lookup ip (e # es) = (if ip < cs_start e then Stopped else if covers ip e then Found e else lookup ip es)"

lemma lookup_sorted:
  assumes "sorted (map cs_start es)"
  shows "lookup ip es = Found e \<longleftrightarrow> find (covers ip) es = Some e"
  using assms
proof (induction es)
  case (Cons x es)
  have "find (covers ip) es = None" if "ip < cs_start x"
    using Cons.prems that by (auto simp: find_None_iff covers_def)
  moreover have "\<not> covers ip x" if "ip < cs_start x" using that by (simp add: covers_def)
  ultimately show ?case using Cons by auto
qed simp

lemma lookup_gap:
  assumes "sorted (map cs_start es)" and "\<forall>e\<in>set es. \<not> covers ip e"
  shows "lookup ip es = (if \<exists>e\<in>set es. ip < cs_start e then Stopped else Past)"
  using assms by (induction es) auto

text \<open>Every entry has at least the byte of its action, so addresses before the end stay in order.\<close>

lemma uleb_nonempty [simp]: "uleb k \<noteq> []"
  by (simp add: uleb.simps [of k])

lemma not_past_end:
  assumes "unat a + l < 2 ^ 64"
  shows "\<not> a + of_nat l < (a :: ptr)"
proof -
  have "unat (of_nat l :: ptr) = l" using assms by (simp add: unat_of_nat take_bit_nat_eq_self)
  then have "a \<le> a + of_nat l" using assms by (intro no_plus_overflow_unat_size [THEN iffD2]) (simp add: word_size)
  then show ?thesis by simp
qed

lemma nonzero:
  assumes "k < 2 ^ 32"
  shows "(of_nat k :: 64 word) = 0 \<longleftrightarrow> k = 0"
proof -
  have "unat (of_nat k :: 64 word) = k" using assms by (simp add: unat_of_nat take_bit_nat_eq_self)
  then show ?thesis by (simp only: unat_eq_zero [symmetric])
qed

context value_codec
begin

lemma compare:
  assumes "fits k" and "ip < 2 ^ 63"
  shows "(of_nat ip :: 64 word) < of_nat k \<longleftrightarrow> ip < k" and "(of_nat k :: 64 word) < of_nat ip \<longleftrightarrow> k < ip"
    and "fits j \<Longrightarrow> (of_nat ip :: 64 word) \<le> of_nat k + of_nat j \<longleftrightarrow> ip \<le> k + j"
proof -
  note small = fits_small [OF assms(1)]
  have "unat (of_nat k :: 64 word) = k" "unat (of_nat ip :: 64 word) = ip"
    using small assms(2) by (simp_all add: unat_of_nat take_bit_nat_eq_self)
  then show "(of_nat ip :: 64 word) < of_nat k \<longleftrightarrow> ip < k" "(of_nat k :: 64 word) < of_nat ip \<longleftrightarrow> k < ip"
    by (simp_all only: word_less_nat_alt)
  assume "fits j"
  note small' = fits_small [OF this]
  have "unat (of_nat (k + j) :: 64 word) = k + j" "unat (of_nat ip :: 64 word) = ip"
    using small small' assms(2) by (simp_all only: unat_of_nat) (simp_all add: take_bit_nat_eq_self)
  then show "(of_nat ip :: 64 word) \<le> of_nat k + of_nat j \<longleftrightarrow> ip \<le> k + j"
    by (simp only: word_le_nat_alt of_nat_add)
qed

lemma callsite_entry:
  assumes "stored m a (put_callsite put e)" and "callsite_fits fits e" and "ip < 2 ^ 63"
    and "callsite_encoding lsda = enc" and "\<not> action_table lsda < a"
  shows "find_callsite_loop (Suc n) m lsda (of_nat ip) a =
    (if ip < cs_start e then Ok None (a + of_nat (length (put (cs_start e) @ put (cs_size e))))
     else let b = a + of_nat (length (put_callsite put e)) in
       if covers ip e then Ok (Some (action_of lsda e)) b
       else find_callsite_loop n m lsda (of_nat ip) b)"
proof -
  have fits: "fits (cs_start e)" "fits (cs_size e)" "fits (cs_pad e)" "cs_action e < 2 ^ 31"
    using assms(2) by (simp_all add: callsite_fits_def)
  let ?b = "a + of_nat (length (put (cs_start e)))"
  let ?c = "?b + of_nat (length (put (cs_size e)))"
  let ?d = "?c + of_nat (length (put (cs_pad e)))"
  have st: "stored m a (put (cs_start e))" "stored m ?b (put (cs_size e))" "stored m ?c (put (cs_pad e))"
      "stored m ?d (uleb (cs_action e))"
    using assms(1) by (simp_all add: put_callsite_def stored_append)
  note reads = read_put [OF st(1) fits(1)] read_put [OF st(2) fits(2)] read_put [OF st(3) fits(3)] read_uleb [OF st(4) fits(4)]
  have nz: "(of_nat (cs_action e) :: 64 word) = 0 \<longleftrightarrow> cs_action e = 0" "(of_nat (cs_pad e) :: 64 word) = 0 \<longleftrightarrow> cs_pad e = 0"
    using nonzero [of "cs_action e"] nonzero [of "cs_pad e"] fits(4) fits_small [OF fits(3)] by simp_all
  note cmp = compare(1,2) [OF fits(1) assms(3)] compare(3) [OF fits(1) assms(3) fits(2)]
  have len: "a + of_nat (length (put_callsite put e)) = ?d + of_nat (length (uleb (cs_action e)))"
    by (simp add: put_callsite_def algebra_simps)
  show ?thesis using assms(4,5) reads cmp nz unfolding len
    by (simp add: bind_def ret_def covers_def action_of_def Let_def add.assoc)
qed

lemma loop_table:
  assumes "stored m a (put_table put es)" and "\<forall>e\<in>set es. callsite_fits fits e" and "ip < 2 ^ 63"
    and "callsite_encoding lsda = enc" and "action_table lsda = a + of_nat (length (put_table put es))"
    and "unat a + length (put_table put es) < 2 ^ 64"
  shows "case lookup ip es of
      Found e \<Rightarrow> \<exists>b. find_callsite_loop (length es + n) m lsda (of_nat ip) a = Ok (Some (action_of lsda e)) b
    | Stopped \<Rightarrow> \<exists>b. find_callsite_loop (length es + n) m lsda (of_nat ip) a = Ok None b
    | Past \<Rightarrow> find_callsite_loop (length es + n) m lsda (of_nat ip) a = find_callsite_loop n m lsda (of_nat ip) (action_table lsda)"
  using assms
proof (induction es arbitrary: a)
  case Nil
  then show ?case by (simp add: put_table_def)
next
  case (Cons e es)
  let ?l = "length (put_callsite put e)"
  let ?b = "a + of_nat ?l"
  have st: "stored m a (put_callsite put e)" "stored m ?b (put_table put es)"
    using Cons.prems(1) by (simp_all add: put_table_def stored_append)
  have tab: "action_table lsda = ?b + of_nat (length (put_table put es))"
    using Cons.prems(5) by (simp add: put_table_def algebra_simps)
  have ok: "callsite_fits fits e" "\<not> action_table lsda < a" "unat ?b + length (put_table put es) < 2 ^ 64"
    using Cons.prems(2,5,6) not_past_end [of a "length (put_table put (e # es))"]
    by (auto simp: put_table_def unat_word_ariths unat_of_nat take_bit_nat_eq_self)
  note step = callsite_entry [OF st(1) ok(1) Cons.prems(3,4) ok(2), of "length es + n"]
  and ih = Cons.IH [OF st(2) _ Cons.prems(3,4) tab ok(3)]
  show ?case using step ih Cons.prems(2) by (auto simp: Let_def split: lookup_result.splits)
qed

end

section \<open>The loop ends\<close>

definition advances :: "ptr \<Rightarrow> ptr \<Rightarrow> bool" where
  "advances a b \<longleftrightarrow> (\<exists>k. 1 \<le> k \<and> k \<le> 10 \<and> b = a + of_nat k)"

lemma leb128_loop_length: "leb128_loop m sh u a = Ok r b \<Longrightarrow> \<exists>k. 1 \<le> k \<and> 7 * k \<le> 70 - sh \<and> b = a + of_nat k"
proof (induction m sh u a rule: leb128_loop.induct)
  case (1 m sh u a)
  obtain byte where byte: "sh < 64" "m a = Some byte"
    using "1.prems" by (cases "m a") (auto simp: leb128_loop.simps [of m sh u a] split: if_splits)
  obtain x where x: "shift_digit (byte AND 0x7f) sh = Some x"
    using "1.prems" byte by (cases "shift_digit (byte AND 0x7f) sh") (auto simp: leb128_loop.simps [of m sh u a] Let_def)
  show ?case
  proof (cases "byte = byte AND 0x7f")
    case True
    then have "b = a + of_nat 1" using "1.prems" byte x by (simp add: leb128_loop.simps [of m sh u a] Let_def)
    with byte show ?thesis by (intro exI [of _ 1]) simp
  next
    case False
    then have "leb128_loop m (sh + 7) (u + x) (a + 1) = Ok r b"
      using "1.prems" byte x by (simp add: leb128_loop.simps [of m sh u a] Let_def)
    from "1.IH" [OF _ byte(2) refl x False this] byte
    obtain k where "1 \<le> k" "7 * k \<le> 70 - (sh + 7)" "b = a + 1 + of_nat k" by auto
    then show ?thesis by (intro exI [of _ "Suc k"]) (simp add: add.assoc)
  qed
qed

lemma leb128_loop_no_fuel: "leb128_loop m sh u a \<noteq> Fault Out_Of_Fuel"
  by (induction m sh u a rule: leb128_loop.induct)
     (subst leb128_loop.simps, auto simp: Let_def split: option.splits)

lemma read_leb128_cases:
  "(\<exists>r b. leb128_loop m 0 0 a = Ok r b \<and> advances a b) \<or> (\<exists>e. leb128_loop m 0 0 a = Fault e \<and> e \<noteq> Out_Of_Fuel)"
proof (cases "leb128_loop m 0 0 a")
  case (Ok r b)
  from leb128_loop_length [OF this] show ?thesis unfolding Ok advances_def by (force intro: exI)
next
  case (Fault e)
  then show ?thesis using leb128_loop_no_fuel [of m 0 0 a] by auto
qed

lemma read_bytes_cases: "(\<exists>v. read_bytes n m a = Ok v (a + of_nat n)) \<or> read_bytes n m a = Fault Out_Of_Bounds"
proof (induction n arbitrary: a)
  case (Suc n)
  show ?case
  proof (cases "m a")
    case (Some b)
    then show ?thesis using Suc [of "a + 1"] by (auto simp: add.assoc)
  qed simp
qed simp

text \<open>A reader that ends: it moves the pointer by one to ten bytes, or it is a fault of the program.\<close>

definition ends :: "('a, ptr) M \<Rightarrow> bool" where
  "ends f \<longleftrightarrow> (\<forall>a. (\<exists>r b. f a = Ok r b \<and> advances a b) \<or> (\<exists>e. f a = Fault e \<and> e \<noteq> Out_Of_Fuel))"

lemma ends_uleb: "ends (read_uleb128 m)"
  unfolding ends_def
proof
  fix a
  show "(\<exists>r b. read_uleb128 m a = Ok r b \<and> advances a b) \<or> (\<exists>e. read_uleb128 m a = Fault e \<and> e \<noteq> Out_Of_Fuel)"
    using read_leb128_cases [of m a] by (auto simp: read_uleb128_def read_leb128_def bind_def ret_def)
qed

lemma ends_sleb: "ends (read_sleb128 m)"
  unfolding ends_def
proof
  fix a
  show "(\<exists>r b. read_sleb128 m a = Ok r b \<and> advances a b) \<or> (\<exists>e. read_sleb128 m a = Fault e \<and> e \<noteq> Out_Of_Fuel)"
    using read_leb128_cases [of m a] by (auto simp: read_sleb128_def read_leb128_def bind_def ret_def crash_def)
qed

lemma ends_bytes: "1 \<le> n \<Longrightarrow> n \<le> 10 \<Longrightarrow> ends (bind (read_bytes n m) (\<lambda>t. ret (f t)))"
  unfolding ends_def
proof
  fix a
  assume "1 \<le> n" "n \<le> 10"
  then have "advances a (a + of_nat n)" unfolding advances_def by blast
  then show "(\<exists>r b. bind (read_bytes n m) (\<lambda>t. ret (f t)) a = Ok r b \<and> advances a b)
      \<or> (\<exists>e. bind (read_bytes n m) (\<lambda>t. ret (f t)) a = Fault e \<and> e \<noteq> Out_Of_Fuel)"
    using read_bytes_cases [of n m a] by (auto simp: bind_def ret_def)
qed

lemma ends_value: "ends (read_value enc m)"
proof (cases "get_encoding enc")
  case Other_encoding
  then show ?thesis by (simp add: read_value_def ends_def crash_def)
qed (simp_all add: read_value_def ends_bytes ends_uleb ends_sleb del: read_bytes.simps)

lemma ends_bind:
  assumes "ends f" and "\<And>r b. advances a b \<Longrightarrow> g r b \<noteq> Fault Out_Of_Fuel"
  shows "bind f g a \<noteq> Fault Out_Of_Fuel"
  using assms(1) assms(2) unfolding ends_def bind_def by (metis res.distinct(1) res.inject(2) res.simps(5,6) res.exhaust)

lemma advances_unat:
  assumes "advances a b" and "unat a + 10 < 2 ^ 64"
  shows "unat a < unat b" and "unat b \<le> unat a + 10"
proof -
  obtain k where k: "1 \<le> k" "k \<le> 10" "b = a + of_nat k" using assms(1) unfolding advances_def by blast
  then have "unat (of_nat k :: ptr) = k" by (simp add: unat_of_nat take_bit_nat_eq_self)
  with k assms(2) have "unat b = unat a + k" by (simp add: unat_word_ariths)
  with k show "unat a < unat b" "unat b \<le> unat a + 10" by simp_all
qed

lemma if_applied: "(p \<Longrightarrow> f a \<noteq> x) \<Longrightarrow> (\<not> p \<Longrightarrow> g a \<noteq> x) \<Longrightarrow> (if p then f else g) a \<noteq> x"
  by simp

lemma find_callsite_loop_ends:
  assumes "unat (action_table lsda) + 64 < 2 ^ 64" and "unat (action_table lsda) + 1 - unat a < n"
  shows "find_callsite_loop n m lsda ip a \<noteq> Fault Out_Of_Fuel"
  using assms(2)
proof (induction n arbitrary: a)
  case (Suc n)
  show ?case
  proof (cases "action_table lsda < a")
    case False
    then have le: "unat a \<le> unat (action_table lsda)" by (simp add: word_less_nat_alt)
    have again: "find_callsite_loop n m lsda ip e \<noteq> Fault Out_Of_Fuel"
      if "advances a b" "advances b c" "advances c d" "advances d e" for b c d e
    proof -
      note b = advances_unat [OF that(1)] and c = advances_unat [OF that(2)] and d = advances_unat [OF that(3)] and e = advances_unat [OF that(4)]
      from assms(1) le b c d e have "unat a < unat e" by linarith
      with Suc.prems le show ?thesis by (intro Suc.IH) linarith
    qed
    then show ?thesis unfolding find_callsite_loop.simps if_not_P [OF False]
      by (intro ends_bind ends_value ends_uleb if_applied) ((rule again; assumption) | simp add: ret_def)+
  qed simp
qed simp

section \<open>The data area\<close>

text \<open>
  A data area the way compilers write it: the landing pads relative to the function, a type table
  at a distance \<open>tt\<close>, and a call-site table of \<open>uleb128\<close> numbers.
\<close>

definition put_lsda :: "8 word \<Rightarrow> nat \<Rightarrow> callsite list \<Rightarrow> 8 word list" where
  "put_lsda tt_enc tt es = [DW_EH_PE_omit, tt_enc] @ uleb tt @ [0x01] @ uleb (length (put_table uleb es)) @ put_table uleb es"

definition lsda_at :: "unwind_context \<Rightarrow> 8 word \<Rightarrow> nat \<Rightarrow> callsite list \<Rightarrow> ptr \<Rightarrow> dwarf_eh_lsda" where
  "lsda_at c tt_enc tt es a =
     (let types = a + 2 + of_nat (length (uleb tt));
          calls = types + 1 + of_nat (length (uleb (length (put_table uleb es)))) in
      \<lparr>region_start = GetRegionStart c, landing_pads = GetRegionStart c, type_table = types + of_nat tt,
       type_table_encoding = tt_enc, call_site_table = calls,
       action_table = calls + of_nat (length (put_table uleb es)), callsite_encoding = 0x01\<rparr>)"

lemma parse_put_lsda:
  assumes "stored m a (put_lsda tt_enc tt es)" and "tt_enc \<noteq> DW_EH_PE_omit" and "tt < 2 ^ 31"
    and "length (put_table uleb es) < 2 ^ 31"
  shows "parse_lsda m c a = Ok (lsda_at c tt_enc tt es a) (call_site_table (lsda_at c tt_enc tt es a))"
    and "stored m (call_site_table (lsda_at c tt_enc tt es a)) (put_table uleb es)"
proof -
  let ?b = "a + 2 + of_nat (length (uleb tt))"
  have st: "m a = Some DW_EH_PE_omit" "m (a + 1) = Some tt_enc" "stored m (a + 2) (uleb tt)" "m ?b = Some 1"
      "stored m (?b + 1) (uleb (length (put_table uleb es)))"
      "stored m (?b + 1 + of_nat (length (uleb (length (put_table uleb es))))) (put_table uleb es)"
    using assms(1) by (simp_all add: put_lsda_def stored_append add.assoc)
  then show "stored m (call_site_table (lsda_at c tt_enc tt es a)) (put_table uleb es)" by (simp add: lsda_at_def Let_def)
  show "parse_lsda m c a = Ok (lsda_at c tt_enc tt es a) (call_site_table (lsda_at c tt_enc tt es a))"
    using st assms(2) read_uleb [OF st(3) assms(3)] read_uleb [OF st(5) assms(4)]
    by (simp add: parse_lsda_def read_value_with_encoding_def read_byte_def bind_def ret_def lsda_at_def Let_def add.assoc)
qed

lemma lsda_at_simps [simp]:
  "landing_pads (lsda_at c e tt es a) = GetRegionStart c" "callsite_encoding (lsda_at c e tt es a) = 1"
  "action_table (lsda_at c e tt es a) = call_site_table (lsda_at c e tt es a) + of_nat (length (put_table uleb es))"
  by (simp_all add: lsda_at_def Let_def)

text \<open>The search in such an area, for each result of the lookup in the list of entries.\<close>

lemma lsda_search:
  assumes "stored m a (put_lsda tt_enc tt es)" and "tt_enc \<noteq> DW_EH_PE_omit" and "tt < 2 ^ 31"
    and "length (put_table uleb es) < 2 ^ 31" and "unat a + length (put_lsda tt_enc tt es) < 2 ^ 64"
    and "\<forall>e\<in>set es. callsite_fits (\<lambda>k. k < 2 ^ 31) e" and "GetIP c - GetRegionStart c = of_nat ip" and "ip < 2 ^ 63"
  defines "lsda \<equiv> lsda_at c tt_enc tt es a"
  shows "case lookup ip es of
      Found e \<Rightarrow> dwarf_eh_find_callsite (length es + n) m c lsda = Inr (True, action_of lsda e)
    | Stopped \<Rightarrow> dwarf_eh_find_callsite (length es + n) m c lsda = Inr (False, no_action)
    | Past \<Rightarrow> dwarf_eh_find_callsite (length es + n) m c lsda
        = dwarf_eh_find_callsite n m c (lsda\<lparr>call_site_table := action_table lsda\<rparr>)"
proof -
  let ?k = "2 + length (uleb tt) + 1 + length (uleb (length (put_table uleb es)))"
  have start: "call_site_table lsda = a + of_nat ?k" by (simp add: lsda_def lsda_at_def Let_def algebra_simps)
  have "unat (a + of_nat ?k) \<le> unat a + ?k" by (simp only: unat_word_ariths unat_of_nat take_bit_eq_mod) (metis mod_add_right_eq mod_less_eq_dividend)
  then have fit: "unat (call_site_table lsda) + length (put_table uleb es) < 2 ^ 64"
    using assms(5) unfolding start by (simp add: put_lsda_def)
  have same: "find_callsite_loop n m (lsda\<lparr>call_site_table := x\<rparr>) i = find_callsite_loop n m lsda i" for n x i
    by (induction n) (simp_all cong: if_cong)
  note st = parse_put_lsda(2) [OF assms(1-4), of c, folded lsda_def]
  have "callsite_encoding lsda = 1" "action_table lsda = call_site_table lsda + of_nat (length (put_table uleb es))"
    by (simp_all add: lsda_def)
  from uleb128.loop_table [OF st assms(6,8) this fit, of n] show ?thesis
    by (auto simp: dwarf_eh_find_callsite_def same assms(7) split: lookup_result.splits)
qed

section \<open>Properties\<close>

definition memory_of :: "ptr \<Rightarrow> 8 word list \<Rightarrow> memory" where
  "memory_of a bs p = (let i = unat (p - a) in if i < length bs then Some (bs ! i) else None)"

lemma memory_of_append:
  assumes "length (cs @ bs) < 2 ^ 64"
  shows "stored (memory_of a (cs @ bs)) (a + of_nat (length cs)) bs"
  using assms
proof (induction bs arbitrary: cs)
  case (Cons b bs)
  have "unat (of_nat (length cs) :: ptr) = length cs" using Cons.prems by (simp add: unat_of_nat take_bit_nat_eq_self)
  then have "memory_of a (cs @ b # bs) (a + of_nat (length cs)) = Some b" by (simp add: memory_of_def nth_append)
  then show ?case using Cons.IH [of "cs @ [b]"] Cons.prems by (simp add: algebra_simps)
qed simp

lemma memory_of_stored: "length bs < 2 ^ 64 \<Longrightarrow> stored (memory_of a bs) a bs"
  using memory_of_append [of "[]" bs a] by simp

text \<open>
  C31. \<open>read_uleb128\<close> on the encoding of any number: below \<open>2^31\<close> the number is read back and the
  pointer moves past it; up to \<open>2^32\<close> the fifth digit lands in the sign bit of \<open>int\<close> and the result is
  \<open>2^32\<close> too small; from \<open>2^32\<close> on the shift is undefined, although the result is a 64-bit number.
\<close>

theorem uleb128_reads:
  assumes "stored m a (uleb n)"
  shows "read_uleb128 m a =
    (if n < 2 ^ 31 then Ok (of_nat n) (a + of_nat (length (uleb n)))
     else if n < 2 ^ 32 then Ok (of_nat n - 2 ^ 32) (a + 5)
     else Fault Bad_Shift)"
  using read_uleb [OF assms] read_uleb_wide [OF assms] read_uleb_overflow [OF assms] by simp

theorem uleb128_reads_witness:
  "read_uleb128 (memory_of 0 (uleb 624485)) 0 = Ok 624485 3
   \<and> read_uleb128 (memory_of 0 (uleb (2 ^ 31))) 0 = Ok (- (2 ^ 31)) 5
   \<and> read_uleb128 (memory_of 0 (uleb (2 ^ 32))) 0 = Fault Bad_Shift"
  using uleb128_reads [OF memory_of_stored, of "624485" 0] uleb128_reads [OF memory_of_stored, of "2 ^ 31" 0]
    uleb128_reads [OF memory_of_stored, of "2 ^ 32" 0]
  by (simp add: uleb.simps)

text \<open>
  C29. Every signed number between \<open>-2^27\<close> and \<open>2^27\<close> is read back by \<open>read_sleb128\<close>, sign
  included, and the pointer moves past it.
\<close>

theorem sleb128_roundtrip:
  assumes "stored m a (sleb i)" and "- (2 ^ 27) \<le> i" and "i < 2 ^ 27"
  shows "read_sleb128 m a = Ok (of_int i) (a + of_nat (length (sleb i)))"
  by (rule read_sleb [OF assms])

theorem sleb128_roundtrip_witness: "read_sleb128 (memory_of 0 (sleb (- 129))) 0 = Ok (- 129) 2"
  using sleb128_roundtrip [OF memory_of_stored, of "- 129" 0] by (simp add: sleb.simps)

text \<open>
  C17. In a data area written the way compilers write it, with the call sites in order, the entry
  whose range holds the instruction pointer is the one \<open>dwarf_eh_find_callsite\<close> returns: its landing
  pad counts from the start of the function and its action from the action table, and zero means none.
\<close>

theorem find_callsite_covering:
  assumes "stored m a (put_lsda tt_enc tt es)" and "tt_enc \<noteq> DW_EH_PE_omit" and "tt < 2 ^ 31"
    and "length (put_table uleb es) < 2 ^ 31" and "unat a + length (put_lsda tt_enc tt es) < 2 ^ 64"
    and "\<forall>e\<in>set es. callsite_fits (\<lambda>k. k < 2 ^ 31) e" and "sorted (map cs_start es)"
    and "GetIP c - GetRegionStart c = of_nat ip" and "ip < 2 ^ 63" and "find (covers ip) es = Some e"
  shows "\<exists>lsda b. parse_lsda m c a = Ok lsda b
    \<and> dwarf_eh_find_callsite (length es) m c lsda = Inr (True,
        \<lparr>landing_pad = (if cs_pad e = 0 then 0 else GetRegionStart c + of_nat (cs_pad e)),
         action_record = (if cs_action e = 0 then 0 else action_table lsda + of_nat (cs_action e) - 1)\<rparr>)"
  using lsda_search [OF assms(1-6,8,9), of 0] parse_put_lsda(1) [OF assms(1-4), of c] lookup_sorted [OF assms(7), of ip e] assms(10)
  by (intro exI [of _ "lsda_at c tt_enc tt es a"]) (simp add: action_of_def)

definition sample_sites :: "callsite list" where
  "sample_sites = [\<lparr>cs_start = 0, cs_size = 16, cs_pad = 64, cs_action = 1\<rparr>, \<lparr>cs_start = 32, cs_size = 200, cs_pad = 0, cs_action = 0\<rparr>]"

definition sample_context :: "nat \<Rightarrow> unwind_context" where
  "sample_context ip = \<lparr>GetTextRelBase = 0, GetDataRelBase = 0, GetRegionStart = 4096, GetIP = 4096 + of_nat ip, GetLanguageSpecificData = 256\<rparr>"

lemmas sample_simps = sample_sites_def sample_context_def put_lsda_def put_table_def put_callsite_def uleb.simps callsite_fits_def
  covers_def DW_EH_PE_omit_def

theorem find_callsite_covering_witness:
  "\<exists>lsda b. parse_lsda (memory_of 256 (put_lsda 0 0 sample_sites)) (sample_context 5) 256 = Ok lsda b
    \<and> dwarf_eh_find_callsite (length sample_sites) (memory_of 256 (put_lsda 0 0 sample_sites)) (sample_context 5) lsda
      = Inr (True, \<lparr>landing_pad = 4096 + 64, action_record = action_table lsda\<rparr>)"
  using find_callsite_covering [OF memory_of_stored, of 0 0 sample_sites 256 "sample_context 5" 5 "hd sample_sites"]
  by (simp add: sample_simps)

text \<open>
  When no range holds the instruction pointer and a later entry starts after it, the search
  ends there: there is no entry, and both fields of the result are null.
\<close>

theorem find_callsite_gap:
  assumes "stored m a (put_lsda tt_enc tt es)" and "tt_enc \<noteq> DW_EH_PE_omit" and "tt < 2 ^ 31"
    and "length (put_table uleb es) < 2 ^ 31" and "unat a + length (put_lsda tt_enc tt es) < 2 ^ 64"
    and "\<forall>e\<in>set es. callsite_fits (\<lambda>k. k < 2 ^ 31) e" and "sorted (map cs_start es)"
    and "GetIP c - GetRegionStart c = of_nat ip" and "ip < 2 ^ 63"
    and "\<forall>e\<in>set es. \<not> covers ip e" and "\<exists>e\<in>set es. ip < cs_start e"
  shows "\<exists>lsda b. parse_lsda m c a = Ok lsda b
    \<and> dwarf_eh_find_callsite (length es) m c lsda = Inr (False, \<lparr>landing_pad = 0, action_record = 0\<rparr>)"
  using lsda_search [OF assms(1-6,8,9), of 0] parse_put_lsda(1) [OF assms(1-4), of c] lookup_gap [OF assms(7,10)] assms(11)
  by (intro exI [of _ "lsda_at c tt_enc tt es a"]) (simp add: no_action_def)

theorem find_callsite_gap_witness:
  "\<exists>lsda b. parse_lsda (memory_of 256 (put_lsda 0 0 sample_sites)) (sample_context 20) 256 = Ok lsda b
    \<and> dwarf_eh_find_callsite (length sample_sites) (memory_of 256 (put_lsda 0 0 sample_sites)) (sample_context 20) lsda
      = Inr (False, \<lparr>landing_pad = 0, action_record = 0\<rparr>)"
  using find_callsite_gap [OF memory_of_stored, of 0 0 sample_sites 256 "sample_context 20" 20]
  by (simp add: sample_simps)

text \<open>
  The search ends on every memory and every data area that does not lie at the very end of the
  address space: the loop runs at most once per byte between the call-site table and the action table.
\<close>

theorem find_callsite_ends:
  assumes "unat (action_table lsda) + 64 < 2 ^ 64"
  shows "dwarf_eh_find_callsite (Suc (unat (action_table lsda) + 1 - unat (call_site_table lsda))) m c lsda \<noteq> Inl Out_Of_Fuel"
  using find_callsite_loop_ends [OF assms lessI, of "call_site_table lsda" m "GetIP c - GetRegionStart c"]
  by (auto simp: dwarf_eh_find_callsite_def split: res.splits option.splits)

theorem find_callsite_ends_witness:
  "dwarf_eh_find_callsite 11 (\<lambda>p. Some 0) (sample_context 5) (lsda_at (sample_context 5) 0 0 sample_sites 256) \<noteq> Inl Out_Of_Fuel"
  using find_callsite_ends [of "lsda_at (sample_context 5) 0 0 sample_sites 256" "\<lambda>p. Some 0" "sample_context 5"]
  by (simp add: sample_simps lsda_at_def)

text \<open>
  C32. The bound of the loop is one entry too far: an instruction pointer after every entry makes it
  read the action table as one more entry. When nothing follows the table this is an unmapped read,
  and when the actions happen to read as an entry that covers the instruction pointer, the search
  returns that entry although the table has none.
\<close>

theorem find_callsite_overread:
  assumes "stored m a (put_lsda tt_enc tt es)" and "tt_enc \<noteq> DW_EH_PE_omit" and "tt < 2 ^ 31"
    and "length (put_table uleb es) < 2 ^ 31" and "unat a + length (put_lsda tt_enc tt es) < 2 ^ 64"
    and "\<forall>e\<in>set es. callsite_fits (\<lambda>k. k < 2 ^ 31) e"
    and "GetIP c - GetRegionStart c = of_nat ip" and "ip < 2 ^ 63"
    and "\<forall>e\<in>set es. cs_start e + cs_size e < ip"
  shows "\<exists>lsda b. parse_lsda m c a = Ok lsda b
    \<and> (m (action_table lsda) = None \<longrightarrow> dwarf_eh_find_callsite (length es + 1) m c lsda = Inl Out_Of_Bounds)
    \<and> (\<forall>e. stored m (action_table lsda) (put_callsite uleb e) \<longrightarrow> callsite_fits (\<lambda>k. k < 2 ^ 31) e \<longrightarrow> covers ip e \<longrightarrow>
          dwarf_eh_find_callsite (length es + 1) m c lsda = Inr (True, action_of lsda e))"
proof -
  let ?l = "lsda_at c tt_enc tt es a"
  let ?t = "?l\<lparr>call_site_table := action_table ?l\<rparr>"
  have "lookup ip es = Past" using assms(9) by (induction es) (auto simp: covers_def)
  with lsda_search [OF assms(1-8), of 1]
  have past: "dwarf_eh_find_callsite (length es + 1) m c ?l = dwarf_eh_find_callsite 1 m c ?t" by simp
  have empty: "dwarf_eh_find_callsite 1 m c ?t = Inl Out_Of_Bounds" if "m (action_table ?l) = None"
  proof -
    have "read_uleb128 m (action_table ?l) = Fault Out_Of_Bounds"
      using that by (simp add: read_uleb128_def read_leb128_def bind_def leb128_loop.simps)
    then show ?thesis by (simp add: dwarf_eh_find_callsite_def bind_def read_value_def get_encoding_def)
  qed
  have phantom: "dwarf_eh_find_callsite 1 m c ?t = Inr (True, action_of ?l e)"
    if "stored m (action_table ?l) (put_callsite uleb e)" "callsite_fits (\<lambda>k. k < 2 ^ 31) e" "covers ip e" for e
    using uleb128.callsite_entry [OF that(1,2) assms(8), of ?t 0] that(3)
    by (simp add: dwarf_eh_find_callsite_def assms(7) covers_def Let_def action_of_def)
  from parse_put_lsda(1) [OF assms(1-4), of c] past empty phantom show ?thesis
    by (intro exI [of _ ?l] exI [of _ "call_site_table ?l"]) simp
qed

theorem find_callsite_overread_witness:
  "\<exists>lsda b. parse_lsda (memory_of 256 (put_lsda 0 0 sample_sites)) (sample_context 300) 256 = Ok lsda b
    \<and> dwarf_eh_find_callsite 3 (memory_of 256 (put_lsda 0 0 sample_sites)) (sample_context 300) lsda = Inl Out_Of_Bounds"
proof -
  let ?m = "memory_of 256 (put_lsda 0 0 sample_sites)" and ?c = "sample_context 300"
  have "\<exists>lsda b. parse_lsda ?m ?c 256 = Ok lsda b
    \<and> (?m (action_table lsda) = None \<longrightarrow> dwarf_eh_find_callsite (length sample_sites + 1) ?m ?c lsda = Inl Out_Of_Bounds)
    \<and> (\<forall>e. stored ?m (action_table lsda) (put_callsite uleb e) \<longrightarrow> callsite_fits (\<lambda>k. k < 2 ^ 31) e \<longrightarrow> covers 300 e \<longrightarrow>
          dwarf_eh_find_callsite (length sample_sites + 1) ?m ?c lsda = Inr (True, action_of lsda e))"
    by (rule find_callsite_overread [OF memory_of_stored]) (simp_all add: sample_simps)
  moreover have "parse_lsda ?m ?c 256 = Ok lsda b \<Longrightarrow> ?m (action_table lsda) = None" for lsda b
    using parse_put_lsda(1) [OF memory_of_stored, of 0 0 sample_sites 256 ?c]
    by (auto simp: sample_simps memory_of_def lsda_at_def)
  moreover have "length sample_sites + 1 = 3" by (simp add: sample_sites_def)
  ultimately show ?thesis by metis
qed

end
