(* ===== verification/Typeinfo.thy ===== *)
theory Typeinfo
  imports Dwarf_Codec
begin

text \<open>
  Run-time type information (\<open>typeinfo.h\<close>, \<open>typeinfo.cc\<close>) and the casts over it
  (\<open>dynamic_cast.cc\<close>). A \<open>type_info\<close> object is identified by its address: the store maps it to its
  name pointer and to the data of its dynamic class. Objects and vtables lie in byte-addressed
  memory. A call that returns \<open>true\<close> and adjusts \<open>*thrown_object\<close> returns \<open>Some\<close> of the new pointer,
  one that returns \<open>false\<close> leaves it and returns \<open>None\<close>. The recursion over base classes and
  pointees has fuel; \<open>ranked\<close> type graphs, which compilers emit, need no more than their rank.
\<close>

unbundle bit_operations_syntax

section \<open>Type information\<close>

record base_class_type_info =
  base_type :: ptr
  offset_flags :: "64 word"

definition virtual_mask :: "64 word" where "virtual_mask = 0x1"
definition public_mask :: "64 word" where "public_mask = 0x2"

definition offset :: "base_class_type_info \<Rightarrow> 64 word" where
  "offset b = signed_drop_bit 8 (offset_flags b)"

definition flags :: "base_class_type_info \<Rightarrow> 64 word" where
  "flags b = offset_flags b AND (push_bit 8 1 - 1)"

definition isPublic :: "base_class_type_info \<Rightarrow> bool" where
  "isPublic b \<longleftrightarrow> flags b AND public_mask \<noteq> 0"

definition isVirtual :: "base_class_type_info \<Rightarrow> bool" where
  "isVirtual b \<longleftrightarrow> flags b AND virtual_mask \<noteq> 0"

definition const_mask :: "32 word" where "const_mask = 0x1"

text \<open>The dynamic classes of a \<open>std::type_info\<close>, with their fields.\<close>

datatype ti_class =
    fundamental_type_info
  | array_type_info
  | function_type_info
  | enum_type_info
  | class_type_info
  | si_class_type_info ptr
  | vmi_class_type_info "32 word" "base_class_type_info list"
  | pointer_type_info "32 word" ptr
  | pointer_to_member_type_info "32 word" ptr ptr

record type_info =
  type_name :: ptr
  ti_class :: ti_class

type_synonym types = "ptr \<Rightarrow> type_info option"

definition type_eq :: "type_info \<Rightarrow> type_info \<Rightarrow> bool" where
  "type_eq a b \<longleftrightarrow> type_name a = type_name b"

definition type_ne :: "type_info \<Rightarrow> type_info \<Rightarrow> bool" where
  "type_ne a b \<longleftrightarrow> type_name a \<noteq> type_name b"

definition type_before :: "type_info \<Rightarrow> type_info \<Rightarrow> bool" where
  "type_before a b \<longleftrightarrow> type_name a < type_name b"

definition is_pointer_p :: "type_info \<Rightarrow> bool" where
  "is_pointer_p t = (case ti_class t of pointer_type_info f p \<Rightarrow> True | _ \<Rightarrow> False)"

definition is_function_p :: "type_info \<Rightarrow> bool" where
  "is_function_p t = (case ti_class t of function_type_info \<Rightarrow> True | _ \<Rightarrow> False)"

text \<open>\<open>dynamic_cast<const __class_type_info *>(type)\<close>\<close>

definition is_class :: "type_info \<Rightarrow> bool" where
  "is_class t = (case ti_class t of class_type_info \<Rightarrow> True | si_class_type_info b \<Rightarrow> True
     | vmi_class_type_info f bs \<Rightarrow> True | _ \<Rightarrow> False)"

section \<open>Upcasts\<close>

definition load :: "memory \<Rightarrow> ptr \<Rightarrow> fault + 64 word" where
  "load m p = (case read_bytes 8 m p of Ok v _ \<Rightarrow> Inr (of_nat v) | Fault e \<Rightarrow> Inl e)"

definition base_address :: "memory \<Rightarrow> ptr \<Rightarrow> base_class_type_info \<Rightarrow> fault + ptr" where
  "base_address m obj info =
     (if isVirtual info then
        (case load m obj of Inl e \<Rightarrow> Inl e
         | Inr vtable \<Rightarrow> (case load m (vtable + offset info) of Inl e \<Rightarrow> Inl e | Inr off \<Rightarrow> Inr (obj + off)))
      else Inr (obj + offset info))"

primrec upcast_bases :: "(ptr \<Rightarrow> ptr \<Rightarrow> fault + ptr option) \<Rightarrow> memory \<Rightarrow> ptr \<Rightarrow> ptr \<Rightarrow> base_class_type_info list \<Rightarrow> fault + ptr option" where
  "upcast_bases up m target obj [] = Inr None"
| "upcast_bases up m target obj (info # bs) =
     (case base_address m obj info of Inl e \<Rightarrow> Inl e
      | Inr c \<Rightarrow>
          if base_type info = target then Inr (Some c)
          else (case up (base_type info) c of Inl e \<Rightarrow> Inl e
            | Inr (Some r) \<Rightarrow> Inr (Some r)
            | Inr None \<Rightarrow> upcast_bases up m target obj bs))"

primrec do_upcast :: "nat \<Rightarrow> memory \<Rightarrow> types \<Rightarrow> ptr \<Rightarrow> ptr \<Rightarrow> ptr \<Rightarrow> fault + ptr option" where
  "do_upcast 0 m ts target this obj = Inl Out_Of_Fuel"
| "do_upcast (Suc n) m ts target this obj = (case ts this of None \<Rightarrow> Inl Out_Of_Bounds
     | Some t \<Rightarrow> (case ti_class t of
         class_type_info \<Rightarrow> Inr (if this = target then Some obj else None)
       | si_class_type_info b \<Rightarrow> if this = target then Inr (Some obj) else do_upcast n m ts target b obj
       | vmi_class_type_info f bs \<Rightarrow>
           if this = target then Inr (Some obj) else upcast_bases (do_upcast n m ts target) m target obj bs
       | _ \<Rightarrow> Inr None))"

primrec cast_to :: "nat \<Rightarrow> memory \<Rightarrow> types \<Rightarrow> ptr \<Rightarrow> ptr \<Rightarrow> ptr \<Rightarrow> fault + ptr" where
  "cast_to 0 m ts other this obj = Inl Out_Of_Fuel"
| "cast_to (Suc n) m ts other this obj = (case ts this of None \<Rightarrow> Inl Out_Of_Bounds
     | Some t \<Rightarrow> (case ti_class t of
         class_type_info \<Rightarrow> Inr (if this = other then obj else 0)
       | si_class_type_info b \<Rightarrow> if this = other then Inr obj else cast_to n m ts other b obj
       | vmi_class_type_info f bs \<Rightarrow>
           (case do_upcast (Suc n) m ts other this obj of Inl e \<Rightarrow> Inl e
            | Inr (Some r) \<Rightarrow> Inr r | Inr None \<Rightarrow> Inr 0)
       | _ \<Rightarrow> Inl Out_Of_Bounds))"

record vtable_header =
  leaf_offset :: "64 word"
  header_type :: ptr

definition read_header :: "memory \<Rightarrow> ptr \<Rightarrow> fault + vtable_header" where
  "read_header m vtable = (case load m (vtable - 16) of Inl e \<Rightarrow> Inl e
     | Inr off \<Rightarrow> (case load m (vtable - 8) of Inl e \<Rightarrow> Inl e
        | Inr t \<Rightarrow> Inr \<lparr>leaf_offset = off, header_type = t\<rparr>))"

definition dynamic_cast :: "nat \<Rightarrow> memory \<Rightarrow> types \<Rightarrow> ptr \<Rightarrow> ptr \<Rightarrow> ptr \<Rightarrow> 64 word \<Rightarrow> fault + ptr" where
  "dynamic_cast n m ts sub src dst src2dst_offset = (case load m sub of Inl e \<Rightarrow> Inl e
     | Inr vtable_location \<Rightarrow> (case read_header m vtable_location of Inl e \<Rightarrow> Inl e
        | Inr header \<Rightarrow> cast_to n m ts dst (header_type header) (sub + leaf_offset header)))"

section \<open>Catching\<close>

text \<open>
  \<open>__do_catch\<close>: the method of \<open>__pbase_type_info\<close> for pointers and pointers to members, the one of
  \<open>std::type_info\<close> for the others. \<open>void_name\<close> is the name of \<open>typeid(void)\<close>.
\<close>

primrec do_catch :: "nat \<Rightarrow> memory \<Rightarrow> types \<Rightarrow> ptr \<Rightarrow> ptr \<Rightarrow> ptr \<Rightarrow> ptr \<Rightarrow> 32 word \<Rightarrow> fault + ptr option" where
  "do_catch 0 m ts void_name this ex_type obj outer = Inl Out_Of_Fuel"
| "do_catch (Suc n) m ts void_name this ex_type obj outer =
     (let pbase = (\<lambda>fl pointee.
        if ex_type = this then Inr (Some obj)
        else case ts ex_type of None \<Rightarrow> Inl Out_Of_Bounds | Some ex \<Rightarrow>
          (case ti_class ex of
             pointer_type_info ex_fl ex_pointee \<Rightarrow>
               if outer AND 1 = 0 then Inr None
               else let outer = (if fl AND const_mask = 0 then outer AND NOT 1 else outer) in
               if ex_fl AND NOT fl \<noteq> 0 then Inr None
               else (case ts pointee of None \<Rightarrow> Inl Out_Of_Bounds | Some p \<Rightarrow>
                 if type_name p = void_name then Inr (Some obj)
                 else do_catch n m ts void_name pointee ex_pointee obj outer)
           | _ \<Rightarrow> Inr None)) in
      case ts this of None \<Rightarrow> Inl Out_Of_Bounds
      | Some t \<Rightarrow> (case ti_class t of
          pointer_type_info fl pointee \<Rightarrow> pbase fl pointee
        | pointer_to_member_type_info fl pointee ctx \<Rightarrow> pbase fl pointee
        | _ \<Rightarrow>
            if this = ex_type then Inr (Some obj)
            else if is_class t then do_upcast (Suc n) m ts this ex_type obj
            else Inr None))"

declare do_upcast.simps [simp del] cast_to.simps [simp del] do_catch.simps [simp del]

section \<open>Subobjects\<close>

text \<open>
  The specification: \<open>subobject m ts t p u q\<close> when an object of class \<open>t\<close> at \<open>p\<close> has a subobject of
  class \<open>u\<close> at \<open>q\<close>.
\<close>

inductive has_base :: "memory \<Rightarrow> types \<Rightarrow> ptr \<Rightarrow> ptr \<Rightarrow> ptr \<Rightarrow> ptr \<Rightarrow> bool" for m ts where
  single: "ts t = Some ti \<Longrightarrow> ti_class ti = si_class_type_info b \<Longrightarrow> has_base m ts t p b p"
| multiple: "ts t = Some ti \<Longrightarrow> ti_class ti = vmi_class_type_info f bs \<Longrightarrow> b \<in> set bs \<Longrightarrow> base_address m p b = Inr q
    \<Longrightarrow> has_base m ts t p (base_type b) q"

inductive subobject :: "memory \<Rightarrow> types \<Rightarrow> ptr \<Rightarrow> ptr \<Rightarrow> ptr \<Rightarrow> ptr \<Rightarrow> bool" for m ts where
  self: "subobject m ts t p t p"
| base: "has_base m ts t p b q \<Longrightarrow> subobject m ts b q u r \<Longrightarrow> subobject m ts t p u r"

inductive_cases base_ofE: "has_base m ts t p b q"
inductive_cases subobjectE: "subobject m ts t p u r"

text \<open>What the compiler emits: every base class is a class of the store, and the bases have a smaller rank.\<close>

definition class_at :: "types \<Rightarrow> ptr \<Rightarrow> bool" where
  "class_at ts t \<longleftrightarrow> (\<exists>ti. ts t = Some ti \<and> is_class ti)"

definition bases :: "types \<Rightarrow> ptr \<Rightarrow> ptr list" where
  "bases ts t = (case ts t of None \<Rightarrow> [] | Some ti \<Rightarrow> (case ti_class ti of
     si_class_type_info b \<Rightarrow> [b] | vmi_class_type_info f bs \<Rightarrow> map base_type bs | _ \<Rightarrow> []))"

definition ranked :: "types \<Rightarrow> (ptr \<Rightarrow> nat) \<Rightarrow> bool" where
  "ranked ts rank \<longleftrightarrow> (\<forall>t b. b \<in> set (bases ts t) \<longrightarrow> class_at ts b \<and> rank b < rank t)"

lemma upcast_bases_sound:
  assumes "upcast_bases up m u p bs = Inr (Some r)"
  shows "\<exists>b\<in>set bs. \<exists>q. base_address m p b = Inr q \<and> (base_type b = u \<and> r = q \<or> up (base_type b) q = Inr (Some r))"
  using assms by (induction bs) (auto split: sum.splits if_splits option.splits)

lemma upcast_bases_complete:
  assumes "upcast_bases up m u p bs = Inr None" and "b \<in> set bs"
  shows "base_type b \<noteq> u \<and> (\<exists>q. base_address m p b = Inr q \<and> up (base_type b) q = Inr None)"
  using assms by (induction bs) (auto split: sum.splits if_splits option.splits)

lemma do_upcast_sound: "do_upcast n m ts u t p = Inr (Some r) \<Longrightarrow> subobject m ts t p u r"
proof (induction n arbitrary: t p r)
  case (Suc n)
  show ?case
  proof (cases "ts t")
    case (Some ti)
    show ?thesis
    proof (cases "t = u")
      case True
      then show ?thesis using Suc.prems Some by (auto simp: do_upcast.simps intro: self split: ti_class.splits)
    next
      case False
      show ?thesis
      proof (cases "ti_class ti")
        case (si_class_type_info b)
        then show ?thesis using Suc Some False by (auto simp: do_upcast.simps intro: base single)
      next
        case (vmi_class_type_info f bs)
        then have "upcast_bases (do_upcast n m ts u) m u p bs = Inr (Some r)" using Suc.prems Some False by (simp add: do_upcast.simps)
        from upcast_bases_sound [OF this] obtain b q where b: "b \<in> set bs" "base_address m p b = Inr q"
            "base_type b = u \<and> r = q \<or> do_upcast n m ts u (base_type b) q = Inr (Some r)" by blast
        then have "has_base m ts t p (base_type b) q" using Some vmi_class_type_info by (auto intro: multiple)
        then show ?thesis using b(3) Suc.IH by (auto intro: base self)
      qed (use Suc.prems Some False in \<open>simp_all add: do_upcast.simps\<close>)
    qed
  qed (use Suc.prems in \<open>simp add: do_upcast.simps\<close>)
qed (simp add: do_upcast.simps)

lemma base_of_bases: "has_base m ts t p b q \<Longrightarrow> b \<in> set (bases ts t)"
  by (auto elim!: base_ofE simp: bases_def)

lemma do_upcast_complete:
  assumes "do_upcast n m ts u t p = Inr None" and "class_at ts t" and "ranked ts rank"
  shows "\<not> subobject m ts t p u r"
  using assms(1,2)
proof (induction n arbitrary: t p)
  case (Suc n)
  then obtain ti where ti: "ts t = Some ti" "is_class ti" unfolding class_at_def by blast
  have ne: "t \<noteq> u" using Suc.prems(1) ti by (auto simp: do_upcast.simps is_class_def split: ti_class.splits)
  have step: "\<not> subobject m ts b q u r" if "has_base m ts t p b q" for b q
  proof -
    have cls: "class_at ts b" using base_of_bases [OF that] assms(3) unfolding ranked_def by blast
    have "do_upcast n m ts u b q = Inr None"
      using that
    proof (cases rule: has_base.cases)
      case (single ti')
      then show ?thesis using Suc.prems(1) ne by (simp add: do_upcast.simps)
    next
      case (multiple ti' f bs b')
      then have "upcast_bases (do_upcast n m ts u) m u p bs = Inr None" using Suc.prems(1) ne by (simp add: do_upcast.simps)
      from upcast_bases_complete [OF this multiple(4)] multiple show ?thesis by simp
    qed
    from Suc.IH [OF this cls] show ?thesis .
  qed
  show ?case
  proof
    assume "subobject m ts t p u r"
    then show False using ne step by (cases rule: subobject.cases) auto
  qed
qed (simp add: do_upcast.simps)

lemma base_address_fault: "base_address m p b = Inl e \<Longrightarrow> e = Out_Of_Bounds"
  using read_bytes_cases [of 8 m] unfolding base_address_def load_def
  by (auto simp del: read_bytes.simps split: if_splits sum.splits res.splits) (metis res.distinct(1) res.inject(2))+

text \<open>A fault is the unreadable vtable of some subobject.\<close>

definition broken :: "memory \<Rightarrow> types \<Rightarrow> ptr \<Rightarrow> ptr \<Rightarrow> bool" where
  "broken m ts t p \<longleftrightarrow> (\<exists>v q ti f bs b. subobject m ts t p v q \<and> ts v = Some ti \<and> ti_class ti = vmi_class_type_info f bs
     \<and> b \<in> set bs \<and> base_address m q b = Inl Out_Of_Bounds)"

lemma broken_base: "has_base m ts t p b q \<Longrightarrow> broken m ts b q \<Longrightarrow> broken m ts t p"
  unfolding broken_def by (blast intro: base)

lemma upcast_bases_fault:
  assumes "upcast_bases up m u p bs = Inl e"
  shows "\<exists>b\<in>set bs. base_address m p b = Inl e \<or> (\<exists>q. base_address m p b = Inr q \<and> up (base_type b) q = Inl e)"
  using assms by (induction bs) (auto split: sum.splits if_splits option.splits)

lemma do_upcast_fault:
  assumes "do_upcast n m ts u t p = Inl e" and "class_at ts t" and "ranked ts rank" and "rank t < n"
  shows "e = Out_Of_Bounds \<and> broken m ts t p"
  using assms(1,2,4)
proof (induction n arbitrary: t p)
  case (Suc n)
  then obtain ti where ti: "ts t = Some ti" "is_class ti" unfolding class_at_def by blast
  have down: "e = Out_Of_Bounds \<and> broken m ts t p" if "has_base m ts t p b q" "do_upcast n m ts u b q = Inl e" for b q
  proof -
    have "class_at ts b" "rank b < n" using base_of_bases [OF that(1)] assms(3) Suc.prems(3) unfolding ranked_def by fastforce+
    from Suc.IH [OF that(2) this] broken_base [OF that(1)] show ?thesis by blast
  qed
  show ?case
  proof (cases "ti_class ti")
    case (si_class_type_info b)
    then have "do_upcast n m ts u b p = Inl e" using Suc.prems(1) ti by (auto simp: do_upcast.simps split: if_splits)
    moreover have "has_base m ts t p b p" using ti si_class_type_info by (auto intro: single)
    ultimately show ?thesis using down by blast
  next
    case (vmi_class_type_info f bs)
    then have "upcast_bases (do_upcast n m ts u) m u p bs = Inl e" using Suc.prems(1) ti by (auto simp: do_upcast.simps split: if_splits)
    from upcast_bases_fault [OF this] obtain b where b: "b \<in> set bs"
        "base_address m p b = Inl e \<or> (\<exists>q. base_address m p b = Inr q \<and> do_upcast n m ts u (base_type b) q = Inl e)" by blast
    show ?thesis
    proof (cases "base_address m p b")
      case (Inl e')
      then have "base_address m p b = Inl Out_Of_Bounds" "e = Out_Of_Bounds" using b(2) base_address_fault [of m p b] by auto
      then show ?thesis using b(1) ti(1) vmi_class_type_info unfolding broken_def by (blast intro: self)
    next
      case (Inr q)
      then have "has_base m ts t p (base_type b) q" using b ti vmi_class_type_info by (blast intro: multiple)
      then show ?thesis using down b(2) Inr by auto
    qed
  qed (use Suc.prems(1) ti in \<open>simp_all add: do_upcast.simps is_class_def\<close>)
qed simp

lemma do_upcast_spec:
  assumes "ranked ts rank" and "class_at ts t" and "rank t < n"
  shows "case do_upcast n m ts u t p of
      Inr (Some r) \<Rightarrow> subobject m ts t p u r
    | Inr None \<Rightarrow> \<forall>r. \<not> subobject m ts t p u r
    | Inl e \<Rightarrow> e = Out_Of_Bounds \<and> broken m ts t p"
  using do_upcast_sound [of n m ts u t p] do_upcast_complete [OF _ assms(2,1), of n m u p] do_upcast_fault [OF _ assms(2,1,3), of m u p]
  by (auto split: sum.splits option.splits)

section \<open>Equal and different casts\<close>

lemma cast_to_upcast:
  assumes "class_at ts t" and "ranked ts rank"
  shows "cast_to n m ts u t p = (case do_upcast n m ts u t p of Inl e \<Rightarrow> Inl e | Inr (Some r) \<Rightarrow> Inr r | Inr None \<Rightarrow> Inr 0)"
  using assms(1)
proof (induction n arbitrary: t p)
  case (Suc n)
  then obtain ti where ti: "ts t = Some ti" "is_class ti" unfolding class_at_def by blast
  show ?case
  proof (cases "ti_class ti")
    case (si_class_type_info b)
    then have "b \<in> set (bases ts t)" using ti by (simp add: bases_def)
    then have "class_at ts b" using assms(2) unfolding ranked_def by blast
    with Suc.IH ti si_class_type_info show ?thesis by (simp add: cast_to.simps do_upcast.simps)
  qed (use ti in \<open>auto simp: cast_to.simps do_upcast.simps is_class_def\<close>)
qed (simp add: cast_to.simps do_upcast.simps)

text \<open>The public bit of a base is never read.\<close>

definition make_private :: "base_class_type_info \<Rightarrow> base_class_type_info" where
  "make_private b = b\<lparr>offset_flags := offset_flags b AND NOT public_mask\<rparr>"

definition privatise :: "type_info \<Rightarrow> type_info" where
  "privatise t = t\<lparr>ti_class := (case ti_class t of
     vmi_class_type_info f bs \<Rightarrow> vmi_class_type_info f (map make_private bs) | c \<Rightarrow> c)\<rparr>"

lemma make_private_simps [simp]: "base_type (make_private b) = base_type b" "offset (make_private b) = offset b"
    "isVirtual (make_private b) = isVirtual b" "\<not> isPublic (make_private b)"
proof -
  show "base_type (make_private b) = base_type b" by (simp add: make_private_def)
  show "offset (make_private b) = offset b" unfolding make_private_def offset_def public_mask_def
    by (intro bit_word_eqI) (auto simp: bit_simps)
  show "isVirtual (make_private b) = isVirtual b" unfolding make_private_def isVirtual_def flags_def virtual_mask_def public_mask_def
    by (simp add: and.assoc)
  show "\<not> isPublic (make_private b)" unfolding make_private_def isPublic_def flags_def public_mask_def
    by (simp add: and.assoc)
qed

lemma upcast_bases_private:
  "upcast_bases up m u p (map make_private bs) = upcast_bases up m u p bs"
proof -
  have "base_address m p (make_private b) = base_address m p b" for b by (simp only: base_address_def make_private_simps)
  then show ?thesis by (induction bs) (simp_all cong: sum.case_cong if_cong option.case_cong)
qed

lemma ti_class_privatise: "ti_class (privatise t) = (case ti_class t of
     vmi_class_type_info f bs \<Rightarrow> vmi_class_type_info f (map make_private bs) | c \<Rightarrow> c)"
  by (simp add: privatise_def)

lemma do_upcast_private: "do_upcast n m (\<lambda>t. map_option privatise (ts t)) u t p = do_upcast n m ts u t p"
proof (induction n arbitrary: t p)
  case (Suc n)
  then have ih: "do_upcast n m (\<lambda>t. map_option privatise (ts t)) u = do_upcast n m ts u" by (intro ext)
  show ?case
  proof (cases "ts t")
    case (Some ti)
    then show ?thesis
      by (cases "ti_class ti") (simp_all add: do_upcast.simps(2) ti_class_privatise ih upcast_bases_private)
  qed (simp add: do_upcast.simps)
qed (simp add: do_upcast.simps)

section \<open>Handlers\<close>

abbreviation class_of :: "types \<Rightarrow> ptr \<Rightarrow> ti_class option" where
  "class_of ts t \<equiv> map_option ti_class (ts t)"

abbreviation points_to :: "types \<Rightarrow> ptr \<Rightarrow> 32 word \<Rightarrow> ptr \<Rightarrow> bool" where
  "points_to ts t fl u \<equiv> class_of ts t = Some (pointer_type_info fl u)"

lemma do_catch_class:
  assumes "class_at ts c" and "c \<noteq> d"
  shows "do_catch (Suc n) m ts v c d obj outer = do_upcast (Suc n) m ts c d obj"
proof -
  obtain ti where "ts c = Some ti" "is_class ti" using assms(1) unfolding class_at_def by blast
  then show ?thesis using assms(2) by (cases "ti_class ti") (simp_all add: do_catch.simps is_class_def)
qed

lemma do_catch_pointer:
  assumes "points_to ts h fl c" and "points_to ts e efl d" and "h \<noteq> e" and "ts c = Some ci" and "type_name ci \<noteq> v"
  shows "do_catch (Suc n) m ts v h e obj outer =
    (if outer AND 1 = 0 \<or> efl AND NOT fl \<noteq> 0 then Inr None
     else do_catch n m ts v c d obj (if fl AND const_mask = 0 then outer AND NOT 1 else outer))"
  using assms by (auto simp: do_catch.simps Let_def)

lemma do_catch_pointer_class:
  assumes "points_to ts h fl c" and "points_to ts e efl d" and "h \<noteq> e" and "ts c = Some ci" and "type_name ci \<noteq> v"
    and "class_at ts c" and "c \<noteq> d"
  shows "do_catch (Suc (Suc n)) m ts v h e obj 1 = (if efl AND NOT fl \<noteq> 0 then Inr None else do_upcast (Suc n) m ts c d obj)"
  using do_catch_pointer [OF assms(1-5)] do_catch_class [OF assms(6,7)] by simp

section \<open>Properties\<close>


text \<open>Three classes: \<open>B\<close> at 0x100, \<open>A\<close> at 0x200, and \<open>D : A, B\<close> at 0x300, with \<open>B\<close> at offset 8.\<close>

definition sample_types :: types where
  "sample_types = Map.empty(
     0x100 \<mapsto> \<lparr>type_name = 1, ti_class = class_type_info\<rparr>,
     0x200 \<mapsto> \<lparr>type_name = 2, ti_class = class_type_info\<rparr>,
     0x300 \<mapsto> \<lparr>type_name = 3, ti_class = vmi_class_type_info 0
        [\<lparr>base_type = 0x200, offset_flags = 0x002\<rparr>, \<lparr>base_type = 0x100, offset_flags = 0x802\<rparr>]\<rparr>,
     0x400 \<mapsto> \<lparr>type_name = 4, ti_class = pointer_type_info 0 0x100\<rparr>,
     0x500 \<mapsto> \<lparr>type_name = 5, ti_class = pointer_type_info 0 0x300\<rparr>,
     0x600 \<mapsto> \<lparr>type_name = 6, ti_class = pointer_type_info 1 0x400\<rparr>,
     0x700 \<mapsto> \<lparr>type_name = 7, ti_class = pointer_type_info 0 0x500\<rparr>)"

definition sample_rank :: "ptr \<Rightarrow> nat" where
  "sample_rank t = (if t = 0x300 then 1 else 0)"

lemma sample_types_simps [simp]:
  "sample_types 0x100 = Some \<lparr>type_name = 1, ti_class = class_type_info\<rparr>"
  "sample_types 0x200 = Some \<lparr>type_name = 2, ti_class = class_type_info\<rparr>"
  "sample_types 0x300 = Some \<lparr>type_name = 3, ti_class = vmi_class_type_info 0
        [\<lparr>base_type = 0x200, offset_flags = 0x002\<rparr>, \<lparr>base_type = 0x100, offset_flags = 0x802\<rparr>]\<rparr>"
  "sample_types 0x400 = Some \<lparr>type_name = 4, ti_class = pointer_type_info 0 0x100\<rparr>"
  "sample_types 0x500 = Some \<lparr>type_name = 5, ti_class = pointer_type_info 0 0x300\<rparr>"
  "sample_types 0x600 = Some \<lparr>type_name = 6, ti_class = pointer_type_info 1 0x400\<rparr>"
  "sample_types 0x700 = Some \<lparr>type_name = 7, ti_class = pointer_type_info 0 0x500\<rparr>"
  by (simp_all add: sample_types_def)

lemma sample_ranked: "ranked sample_types sample_rank"
proof -
  have "b \<in> {0x100, 0x200} \<and> t = 0x300" if "b \<in> set (bases sample_types t)" for t b
    using that by (auto simp: sample_types_def bases_def split: if_splits)
  then have "class_at sample_types b \<and> sample_rank b < sample_rank t" if "b \<in> set (bases sample_types t)" for t b
    using that by (fastforce simp: sample_rank_def class_at_def is_class_def)
  then show ?thesis unfolding ranked_def by blast
qed

lemma sample_class: "class_at sample_types 0x300"
  by (simp add: class_at_def is_class_def)

lemma sample_upcast: "do_upcast (Suc (Suc n)) m sample_types 0x100 0x300 p = Inr (Some (p + 8))"
proof -
  have "offset \<lparr>base_type = 0x100, offset_flags = 0x802\<rparr> = 8" by (simp add: offset_def)
  then show ?thesis by (simp add: do_upcast.simps base_address_def isVirtual_def flags_def virtual_mask_def)
qed



lemma load_stored: "stored m a (le_bytes 8 k) \<Longrightarrow> k < 2 ^ 64 \<Longrightarrow> load m a = Inr (of_nat k)"
  using read_bytes_le [of m a 8 k] by (simp add: load_def)

text \<open>An object of class \<open>D\<close> at 0x10 seen through its \<open>B\<close> part at 0x18, whose vtable has its header at 0x30.\<close>

definition sample_object :: memory where
  "sample_object = memory_of 0x18 (le_bytes 8 0x40 @ replicate 16 0 @ le_bytes 8 (2 ^ 64 - 8) @ le_bytes 8 0x300)"

lemma sample_object_loads: "load sample_object 0x18 = Inr 0x40" "load sample_object 0x30 = Inr (- 8)" "load sample_object 0x38 = Inr 0x300"
proof -
  have "stored sample_object 0x18 (le_bytes 8 0x40 @ replicate 16 0 @ le_bytes 8 (2 ^ 64 - 8) @ le_bytes 8 0x300)"
    unfolding sample_object_def by (rule memory_of_stored) simp
  then have st: "stored sample_object 0x18 (le_bytes 8 0x40)" "stored sample_object 0x30 (le_bytes 8 (2 ^ 64 - 8))"
      "stored sample_object 0x38 (le_bytes 8 0x300)"
    unfolding stored_append by simp_all
  show "load sample_object 0x18 = Inr 0x40" using load_stored [OF st(1)] by simp
  show "load sample_object 0x30 = Inr (- 8)" using load_stored [OF st(2)] by simp
  show "load sample_object 0x38 = Inr 0x300" using load_stored [OF st(3)] by simp
qed


text \<open>
  Access is not checked: making every base of every class private changes no upcast, so a
  handler for a private base catches the exception and a cast to it succeeds.
\<close>

theorem upcast_ignores_access:
  "do_upcast n m (\<lambda>t. map_option privatise (ts t)) u t p = do_upcast n m ts u t p
   \<and> (\<forall>ti f bs b. ts t = Some ti \<longrightarrow> ti_class (privatise ti) = vmi_class_type_info f bs \<longrightarrow> b \<in> set bs \<longrightarrow> \<not> isPublic b)"
  by (auto simp: do_upcast_private ti_class_privatise split: ti_class.splits)

theorem upcast_ignores_access_witness:
  "do_upcast 2 (\<lambda>p. None) (\<lambda>t. map_option privatise (sample_types t)) 0x100 0x300 0x9000 = Inr (Some 0x9008)"
  using upcast_ignores_access [of 2 "\<lambda>p. None" sample_types "0x100" "0x300" "0x9000"] sample_upcast [of 0 "\<lambda>p. None" "0x9000"]
  by (simp add: numeral_2_eq_2)

text \<open>
  A handler for a pointer to a class catches a pointer to another class exactly when it has all the
  qualifiers of the thrown pointer and the handler's class is a base; the caught pointer is the
  subobject. (The one for the same class, and the one for \<open>void\<close>, need no upcast.)
\<close>

theorem pointer_catch_correct:
  assumes "points_to ts h fl c" and "points_to ts e efl d" and "h \<noteq> e" and "ts c = Some ci" and "type_name ci \<noteq> void_name"
    and "is_class ci" and "c \<noteq> d" and "ranked ts rank" and "class_at ts d" and "rank d \<le> n"
  shows "case do_catch (Suc (Suc n)) m ts void_name h e obj 1 of
      Inr (Some r) \<Rightarrow> efl AND NOT fl = 0 \<and> subobject m ts d obj c r
    | Inr None \<Rightarrow> efl AND NOT fl = 0 \<longrightarrow> (\<forall>r. \<not> subobject m ts d obj c r)
    | Inl f \<Rightarrow> f = Out_Of_Bounds \<and> broken m ts d obj"
proof -
  have "class_at ts c" using assms(4,6) by (simp add: class_at_def)
  note eq = do_catch_pointer_class [OF assms(1-5) this assms(7), of n m obj]
  have "rank d < Suc n" using assms(10) by simp
  from do_upcast_spec [OF assms(8,9) this, of m obj c] show ?thesis unfolding eq by (auto split: sum.splits option.splits)
qed

theorem pointer_catch_correct_witness:
  "case do_catch (Suc (Suc 1)) (\<lambda>p. None) sample_types 0 0x400 0x500 0x9000 1 of
      Inr (Some r) \<Rightarrow> (0 :: 32 word) AND NOT 0 = 0 \<and> subobject (\<lambda>p. None) sample_types 0x300 0x9000 0x100 r
    | Inr None \<Rightarrow> (0 :: 32 word) AND NOT 0 = 0 \<longrightarrow> (\<forall>r. \<not> subobject (\<lambda>p. None) sample_types 0x300 0x9000 0x100 r)
    | Inl f \<Rightarrow> f = Out_Of_Bounds \<and> broken (\<lambda>p. None) sample_types 0x300 0x9000"
  by (rule pointer_catch_correct [of _ _ _ _ _ _ _ _ 0, OF _ _ _ sample_types_simps(1) _ _ _ sample_ranked sample_class])
     (simp_all add: is_class_def sample_rank_def)

text \<open>
  The upcast is also applied below two pointers: a \<open>D **\<close> is caught by a handler for \<open>B * const *\<close>,
  a conversion the language does not have, and the pointer to the pointer is moved by the offset of
  \<open>B\<close> in \<open>D\<close>.
\<close>

theorem catch_moves_pointer_to_pointer:
  assumes "points_to ts h hfl p" and "hfl AND const_mask \<noteq> 0" and "points_to ts p fl c" and "points_to ts e 0 q" and "points_to ts q 0 d"
    and "h \<noteq> e" and "p \<noteq> q" and "c \<noteq> d" and "ts p = Some pi" and "type_name pi \<noteq> void_name"
    and "ts c = Some ci" and "type_name ci \<noteq> void_name" and "is_class ci"
  shows "do_catch (Suc (Suc (Suc n))) m ts void_name h e obj 1 = do_upcast (Suc n) m ts c d obj"
proof -
  have "class_at ts c" using assms(11,13) by (simp add: class_at_def)
  from do_catch_pointer [OF assms(1,4,6,9,10)] do_catch_pointer_class [OF assms(3,5,7,11,12) this assms(8)] assms(2)
  show ?thesis by simp
qed

theorem catch_moves_pointer_to_pointer_witness:
  "do_catch (Suc (Suc (Suc 1))) (\<lambda>p. None) sample_types 0 0x600 0x700 0x9000 1 = Inr (Some 0x9008)"
  using catch_moves_pointer_to_pointer [of sample_types "0x600" 1 "0x400" 0 "0x100" "0x700" "0x500" "0x300" _ 0 _ 1 "\<lambda>p. None" "0x9000"]
    sample_upcast [of 0 "\<lambda>p. None" "0x9000"]
  by (simp add: is_class_def const_mask_def)

text \<open>
  A null pointer to a derived class, caught as a pointer to a base at a non-zero offset, is not null
  any more; with a virtual base the vtable is read through the null pointer.
\<close>

theorem catch_null_pointer: "do_catch 3 (\<lambda>p. None) sample_types 0 0x400 0x500 0 1 = Inr (Some 8)"
  using do_catch_pointer_class [of sample_types "0x400" 0 "0x100" "0x500" 0 "0x300" _ 0 1 "\<lambda>p. None" 0]
    sample_upcast [of 0 "\<lambda>p. None" 0]
  by (simp add: class_at_def is_class_def numeral_3_eq_3)

end
