(* ===== verification/Handlers.thy ===== *)
theory Handlers
  imports Dwarf_Eh
begin

text \<open>
  The terminate and unexpected handlers (end of \<open>exception.cc\<close>): two global handlers, two per
  thread, and the extension of thread-local handlers. A handler is the address of a function, zero
  for none. \<open>static __cxa_thread_info *info = thread_info()\<close> in four functions is a variable that is set by the
  first call and then kept: it is \<open>None\<close> before it.
\<close>

type_synonym tid = nat

record thread_handlers =
  terminateHandler_of :: ptr
  unexpectedHandler_of :: ptr

record handlers =
  thread_infos :: "tid \<Rightarrow> thread_handlers"
  terminateHandler :: ptr
  unexpectedHandler :: ptr
  thread_local_handlers :: bool
  set_unexpected_info :: "tid option"
  set_terminate_info :: "tid option"
  terminate_info :: "tid option"
  unexpected_info :: "tid option"

definition no_handlers :: thread_handlers where
  "no_handlers = \<lparr>terminateHandler_of = 0, unexpectedHandler_of = 0\<rparr>"

definition initial_handlers :: "ptr \<Rightarrow> ptr \<Rightarrow> handlers" where
  "initial_handlers default_terminate std_terminate =
     \<lparr>thread_infos = (\<lambda>t. no_handlers), terminateHandler = default_terminate, unexpectedHandler = std_terminate,
      thread_local_handlers = False, set_unexpected_info = None, set_terminate_info = None, terminate_info = None,
      unexpected_info = None\<rparr>"

text \<open>The value of a function-local static pointer, initialised on the first call.\<close>

definition static_info :: "tid option \<Rightarrow> tid \<Rightarrow> tid" where
  "static_info st t = (case st of None \<Rightarrow> t | Some u \<Rightarrow> u)"

definition set_use_thread_local_handlers :: "bool \<Rightarrow> handlers \<Rightarrow> handlers" where
  "set_use_thread_local_handlers flag h = h\<lparr>thread_local_handlers := flag\<rparr>"

definition pathscale_set_unexpected :: "tid \<Rightarrow> ptr \<Rightarrow> handlers \<Rightarrow> ptr \<times> handlers" where
  "pathscale_set_unexpected t f h =
     (let u = static_info (set_unexpected_info h) t; info = thread_infos h u in
      (unexpectedHandler_of info,
       h\<lparr>set_unexpected_info := Some u, thread_infos := (thread_infos h)(u := info\<lparr>unexpectedHandler_of := f\<rparr>)\<rparr>))"

definition pathscale_set_terminate :: "tid \<Rightarrow> ptr \<Rightarrow> handlers \<Rightarrow> ptr \<times> handlers" where
  "pathscale_set_terminate t f h =
     (let u = static_info (set_terminate_info h) t; info = thread_infos h u in
      (terminateHandler_of info,
       h\<lparr>set_terminate_info := Some u, thread_infos := (thread_infos h)(u := info\<lparr>terminateHandler_of := f\<rparr>)\<rparr>))"

definition set_unexpected :: "tid \<Rightarrow> ptr \<Rightarrow> handlers \<Rightarrow> ptr \<times> handlers" where
  "set_unexpected t f h =
     (if thread_local_handlers h then pathscale_set_unexpected t f h
      else (unexpectedHandler h, h\<lparr>unexpectedHandler := f\<rparr>))"

definition set_terminate :: "tid \<Rightarrow> ptr \<Rightarrow> handlers \<Rightarrow> ptr \<times> handlers" where
  "set_terminate t f h =
     (if thread_local_handlers h then pathscale_set_terminate t f h
      else (terminateHandler h, h\<lparr>terminateHandler := f\<rparr>))"

definition get_unexpected :: "tid \<Rightarrow> handlers \<Rightarrow> ptr" where
  "get_unexpected t h =
     (let info = thread_infos h t in if unexpectedHandler_of info \<noteq> 0 then unexpectedHandler_of info else unexpectedHandler h)"

definition get_terminate :: "tid \<Rightarrow> handlers \<Rightarrow> ptr" where
  "get_terminate t h =
     (let info = thread_infos h t in if terminateHandler_of info \<noteq> 0 then terminateHandler_of info else terminateHandler h)"

text \<open>\<open>terminate\<close> and \<open>unexpected\<close> call the handler they return here, then \<open>abort()\<close>.\<close>

definition terminate :: "tid \<Rightarrow> handlers \<Rightarrow> ptr \<times> handlers" where
  "terminate t h =
     (let u = static_info (terminate_info h) t; info = thread_infos h u in
      (if terminateHandler_of info \<noteq> 0 then terminateHandler_of info else terminateHandler h, h\<lparr>terminate_info := Some u\<rparr>))"

definition unexpected :: "tid \<Rightarrow> handlers \<Rightarrow> ptr \<times> handlers" where
  "unexpected t h =
     (let u = static_info (unexpected_info h) t; info = thread_infos h u in
      (if unexpectedHandler_of info \<noteq> 0 then unexpectedHandler_of info else unexpectedHandler h, h\<lparr>unexpected_info := Some u\<rparr>))"

section \<open>Setting and getting\<close>

text \<open>The interface of a handler: what is set is returned by the next get and is what a failure calls.\<close>

locale handler_register =
  fixes put :: "tid \<Rightarrow> ptr \<Rightarrow> handlers \<Rightarrow> ptr \<times> handlers"
    and get :: "tid \<Rightarrow> handlers \<Rightarrow> ptr"
    and ok :: "tid \<Rightarrow> handlers \<Rightarrow> bool"
  assumes get_put: "ok t h \<Longrightarrow> f \<noteq> 0 \<Longrightarrow> get t (snd (put t f h)) = f"
    and put_old: "ok t h \<Longrightarrow> fst (put t f h) = get t h"
    and ok_put: "ok t h \<Longrightarrow> ok t (snd (put t f h))"
begin

text \<open>Setting, then setting back what was returned, restores the handler.\<close>

lemma restore:
  assumes "ok t h" and "get t h \<noteq> 0"
  shows "get t (snd (put t (fst (put t f h)) (snd (put t f h)))) = get t h"
  using get_put [OF ok_put [OF assms(1)]] put_old [OF assms(1)] assms(2) by simp

end

text \<open>The default: global handlers, and no thread has one of its own.\<close>

definition global_mode :: "tid \<Rightarrow> handlers \<Rightarrow> bool" where
  "global_mode t h \<longleftrightarrow> \<not> thread_local_handlers h \<and> thread_infos h = (\<lambda>u. no_handlers)"

interpretation global_terminate: handler_register set_terminate get_terminate global_mode
  by unfold_locales (auto simp: set_terminate_def get_terminate_def global_mode_def no_handlers_def Let_def)

interpretation global_unexpected: handler_register set_unexpected get_unexpected global_mode
  by unfold_locales (auto simp: set_unexpected_def get_unexpected_def global_mode_def no_handlers_def Let_def)

text \<open>With thread-local handlers, in the thread that set one first.\<close>

definition first_setter :: "(handlers \<Rightarrow> tid option) \<Rightarrow> tid \<Rightarrow> handlers \<Rightarrow> bool" where
  "first_setter info t h \<longleftrightarrow> thread_local_handlers h \<and> static_info (info h) t = t"

interpretation local_terminate: handler_register set_terminate "\<lambda>t h. terminateHandler_of (thread_infos h t)"
    "first_setter set_terminate_info"
  by unfold_locales (auto simp: set_terminate_def pathscale_set_terminate_def first_setter_def static_info_def Let_def)

interpretation local_unexpected: handler_register set_unexpected "\<lambda>t h. unexpectedHandler_of (thread_infos h t)"
    "first_setter set_unexpected_info"
  by unfold_locales (auto simp: set_unexpected_def pathscale_set_unexpected_def first_setter_def static_info_def Let_def)

text \<open>
  With the default global handlers \<open>set_terminate\<close> returns the handler that was in force, every thread
  then gets the new one and \<open>terminate\<close> calls it, and setting the old one again restores it.
\<close>

theorem terminate_handler_global:
  assumes "global_mode t h" and "f \<noteq> 0" and "get_terminate t h \<noteq> 0"
  shows "fst (set_terminate t f h) = get_terminate t h
    \<and> get_terminate u (snd (set_terminate t f h)) = f
    \<and> fst (terminate u (snd (set_terminate t f h))) = f
    \<and> get_terminate t (snd (set_terminate t (get_terminate t h) (snd (set_terminate t f h)))) = get_terminate t h"
proof (intro conjI)
  show old: "fst (set_terminate t f h) = get_terminate t h" by (rule global_terminate.put_old [OF assms(1)])
  show "get_terminate u (snd (set_terminate t f h)) = f" "fst (terminate u (snd (set_terminate t f h))) = f"
    using assms(1,2) by (auto simp: global_mode_def set_terminate_def get_terminate_def terminate_def no_handlers_def Let_def)
  show "get_terminate t (snd (set_terminate t (get_terminate t h) (snd (set_terminate t f h)))) = get_terminate t h"
    using global_terminate.restore [OF assms(1,3), of f] old by simp
qed

theorem terminate_handler_global_witness:
  "fst (set_terminate 1 8 (initial_handlers 4 5)) = get_terminate 1 (initial_handlers 4 5)
    \<and> get_terminate 2 (snd (set_terminate 1 8 (initial_handlers 4 5))) = 8
    \<and> fst (terminate 2 (snd (set_terminate 1 8 (initial_handlers 4 5)))) = 8
    \<and> get_terminate 1 (snd (set_terminate 1 (get_terminate 1 (initial_handlers 4 5)) (snd (set_terminate 1 8 (initial_handlers 4 5)))))
      = get_terminate 1 (initial_handlers 4 5)"
  by (rule terminate_handler_global) (simp_all add: initial_handlers_def global_mode_def get_terminate_def no_handlers_def)

text \<open>
  Thread-local handlers are not per thread: once a thread has set one, \<open>set_terminate\<close> in another
  thread changes the handler of the first, and the caller's own handler stays what it was.
\<close>

theorem terminate_handler_shared:
  assumes "thread_local_handlers h" and "set_terminate_info h = Some u" and "t \<noteq> u"
  shows "terminateHandler_of (thread_infos (snd (set_terminate t f h)) u) = f
    \<and> thread_infos (snd (set_terminate t f h)) t = thread_infos h t
    \<and> fst (set_terminate t f h) = terminateHandler_of (thread_infos h u)"
  using assms by (simp add: set_terminate_def pathscale_set_terminate_def static_info_def Let_def)

theorem terminate_handler_shared_witness:
  "terminateHandler_of (thread_infos (snd (set_terminate 2 9
     (snd (set_terminate 1 8 (set_use_thread_local_handlers True (initial_handlers 4 5)))))) 1) = 9"
  using terminate_handler_shared [of "snd (set_terminate 1 8 (set_use_thread_local_handlers True (initial_handlers 4 5)))" 1 2 9]
  by (simp add: set_terminate_def pathscale_set_terminate_def set_use_thread_local_handlers_def initial_handlers_def static_info_def Let_def)

end
