(* ===== verification/Thread_Info.thy ===== *)
theory Thread_Info
  imports Handlers
begin

text \<open>
  The per-thread structure of the runtime (\<open>exception.cc\<close>): \<open>init_key\<close>, \<open>thread_info\<close> and \<open>thread_info_fast\<close> over the thread-specific data
  of the pthread library, with the fallback to one static structure when the library is missing or does not work.

  The platform is a parameter: which of the weak symbols are there, whether \<open>pthread_once\<close> succeeds, whether a value that was set
  is read back, and the result of each \<open>calloc\<close>. A structure is its address.
\<close>

section \<open>State\<close>

record platform =
  has_once :: bool
  has_key_create :: bool
  has_setspecific :: bool
  has_getspecific :: bool
  once_works :: bool
  keys_work :: bool
  info_calloc :: "nat \<Rightarrow> ptr"         \<comment> \<open>the result of the \<open>i\<close>-th call, 0 for none\<close>
  singleThreadInfo :: ptr

record tls =
  once_done :: bool
  fakeTLS :: bool
  specific :: "tid \<Rightarrow> ptr"
  info_callocs :: nat

definition tls_start :: tls where
  "tls_start = \<lparr>once_done = False, fakeTLS = False, specific = (\<lambda>t. 0), info_callocs = 0\<rparr>"

definition pthread_setspecific :: "tid \<Rightarrow> ptr \<Rightarrow> tls \<Rightarrow> tls" where
  "pthread_setspecific t v s = s\<lparr>specific := (specific s)(t := v)\<rparr>"

definition pthread_getspecific :: "platform \<Rightarrow> tid \<Rightarrow> tls \<Rightarrow> ptr" where
  "pthread_getspecific P t s = (if keys_work P then specific s t else 0)"

definition init_key :: "platform \<Rightarrow> tid \<Rightarrow> tls \<Rightarrow> tls" where
  "init_key P t s =
     (if \<not> has_key_create P \<or> \<not> has_setspecific P \<or> \<not> has_getspecific P then s\<lparr>fakeTLS := True\<rparr>
      else let s = pthread_setspecific t 0x42 s;
               s = s\<lparr>fakeTLS := (pthread_getspecific P t s \<noteq> 0x42)\<rparr>
           in pthread_setspecific t 0 s)"

definition pthread_once :: "platform \<Rightarrow> tid \<Rightarrow> tls \<Rightarrow> bool \<times> tls" where
  "pthread_once P t s = (if \<not> once_works P then (False, s) else (True, if once_done s then s else (init_key P t s)\<lparr>once_done := True\<rparr>))"

definition thread_info_of :: "platform \<Rightarrow> tid \<Rightarrow> tls \<Rightarrow> ptr \<times> tls" where
  "thread_info_of P t s =
     (let s = (if \<not> has_once P then s\<lparr>fakeTLS := True\<rparr>
               else case pthread_once P t s of (ok, s) \<Rightarrow> if ok then s else s\<lparr>fakeTLS := True\<rparr>) in
      if fakeTLS s then (singleThreadInfo P, s)
      else let info = pthread_getspecific P t s in
        if info = 0 then
          (let info = info_calloc P (info_callocs s) in (info, pthread_setspecific t info (s\<lparr>info_callocs := info_callocs s + 1\<rparr>)))
        else (info, s))"

definition thread_info_fast_of :: "platform \<Rightarrow> tid \<Rightarrow> tls \<Rightarrow> ptr" where
  "thread_info_fast_of P t s = (if fakeTLS s then singleThreadInfo P else pthread_getspecific P t s)"

text \<open>
  The threads: each asks for its structure or ends, when the library sets its value to null and calls \<open>thread_cleanup\<close> on the old one.
\<close>

datatype tls_event = Ask tid | Leave tid

fun tls_exec :: "platform \<Rightarrow> tls_event \<Rightarrow> tls \<Rightarrow> tls" where
  "tls_exec P (Ask t) s = snd (thread_info_of P t s)"
| "tls_exec P (Leave t) s = pthread_setspecific t 0 s"

section \<open>Invariant\<close>

text \<open>\<open>usable P\<close>: the pthread library is there and works.\<close>

definition usable :: "platform \<Rightarrow> bool" where
  "usable P \<longleftrightarrow> has_once P \<and> has_key_create P \<and> has_setspecific P \<and> has_getspecific P \<and> once_works P \<and> keys_work P"

text \<open>Blocks of \<open>calloc\<close> are new ones.\<close>

definition fresh_blocks :: "platform \<Rightarrow> bool" where
  "fresh_blocks P \<longleftrightarrow> (\<forall>i j. i \<noteq> j \<longrightarrow> info_calloc P i \<noteq> 0 \<longrightarrow> info_calloc P i \<noteq> info_calloc P j)"

definition tls_inv :: "platform \<Rightarrow> tls \<Rightarrow> bool" where
  "tls_inv P s \<longleftrightarrow> (once_done s \<longrightarrow> (fakeTLS s \<longleftrightarrow> \<not> usable P))
     \<and> (usable P \<longrightarrow> \<not> fakeTLS s)
     \<and> (\<not> once_done s \<longrightarrow> specific s = (\<lambda>t. 0))
     \<and> (\<forall>t. specific s t \<noteq> 0 \<longrightarrow> (\<exists>i < info_callocs s. specific s t = info_calloc P i))
     \<and> (\<forall>t u. specific s t = specific s u \<longrightarrow> specific s t \<noteq> 0 \<longrightarrow> t = u)"

lemma tls_inv_start: "tls_inv P tls_start"
  by (simp add: tls_inv_def tls_start_def)

lemma tls_inv_clear: "tls_inv P s \<Longrightarrow> tls_inv P (pthread_setspecific t 0 s)"
  by (auto simp: tls_inv_def pthread_setspecific_def fun_eq_iff)

lemma tls_inv_fresh:
  assumes "tls_inv P s" and "once_done s" and "fresh_blocks P"
  shows "tls_inv P (pthread_setspecific t (info_calloc P (info_callocs s)) (s\<lparr>info_callocs := info_callocs s + 1\<rparr>))"
proof -
  let ?p = "info_calloc P (info_callocs s)"
  have new: "specific s u \<noteq> ?p" if "?p \<noteq> 0" for u
    using assms(1,3) that unfolding tls_inv_def fresh_blocks_def by (metis less_irrefl)
  have old: "\<exists>i < Suc (info_callocs s). specific s u = info_calloc P i" if "specific s u \<noteq> 0" for u
    using assms(1) that unfolding tls_inv_def by (meson less_SucI)
  show ?thesis using assms(1,2) new old unfolding tls_inv_def pthread_setspecific_def
    by (auto simp: fun_upd_def split: if_splits) metis+
qed

text \<open>After the initialisation, on a platform with pthreads.\<close>

lemma init_usable: "usable P \<Longrightarrow> init_key P t s = pthread_setspecific t 0 (s\<lparr>fakeTLS := False\<rparr>)"
  by (simp add: init_key_def usable_def pthread_setspecific_def pthread_getspecific_def)

lemma thread_info_usable:
  assumes "tls_inv P s" and "fresh_blocks P" and "usable P" and "thread_info_of P t s = (p, s')"
  shows "tls_inv P s'" and "once_done s'" and "specific s' t = p" and "\<forall>u. u \<noteq> t \<longrightarrow> specific s' u = specific s u"
    and "specific s t \<noteq> 0 \<longrightarrow> p = specific s t"
proof -
  define s0 where "s0 = (if once_done s then s else pthread_setspecific t 0 (s\<lparr>once_done := True\<rparr>))"
  have nf: "\<not> fakeTLS s" using assms(1,3) by (simp add: tls_inv_def)
  have once: "pthread_once P t s = (True, s0)"
    using assms(3) nf by (cases s) (auto simp: pthread_once_def s0_def init_usable usable_def pthread_setspecific_def)
  have s0: "tls_inv P s0" "once_done s0" "\<not> fakeTLS s0" "specific s0 = specific s"
    using assms(1,3) nf by (auto simp: s0_def tls_inv_def pthread_setspecific_def fun_eq_iff)
  have eq: "thread_info_of P t s = (if specific s0 t = 0
      then (info_calloc P (info_callocs s0), pthread_setspecific t (info_calloc P (info_callocs s0)) (s0\<lparr>info_callocs := info_callocs s0 + 1\<rparr>))
      else (specific s0 t, s0))"
    using assms(3) once s0(3) by (simp add: thread_info_of_def usable_def pthread_getspecific_def Let_def)
  show "tls_inv P s'" using assms(4) tls_inv_fresh [OF s0(1,2) assms(2)] s0(1) by (auto simp: eq split: if_splits)
  show "once_done s'" "specific s' t = p" "\<forall>u. u \<noteq> t \<longrightarrow> specific s' u = specific s u" "specific s t \<noteq> 0 \<longrightarrow> p = specific s t"
    using assms(4) s0(2,4) by (auto simp: eq pthread_setspecific_def split: if_splits)
qed

lemma thread_info_fake:
  assumes "tls_inv P s" and "\<not> usable P" and "thread_info_of P t s = (p, s')"
  shows "tls_inv P s'" and "fakeTLS s'" and "p = singleThreadInfo P"
proof -
  obtain ok s1 where once: "pthread_once P t s = (ok, s1)" by force
  have fake: "tls_inv P (s\<lparr>fakeTLS := True\<rparr>)" using assms(1,2) by (auto simp: tls_inv_def)
  have "tls_inv P s' \<and> fakeTLS s' \<and> p = singleThreadInfo P"
  proof (cases "has_once P \<and> once_works P")
    case True
    then have "ok" "tls_inv P s1" "fakeTLS s1"
      using assms(1,2) once by (auto simp: pthread_once_def tls_inv_def init_key_def usable_def pthread_setspecific_def pthread_getspecific_def Let_def
          split: if_splits)
    then show ?thesis using assms(3) once True by (auto simp: thread_info_of_def Let_def)
  next
    case False
    then have "thread_info_of P t s = (singleThreadInfo P, s\<lparr>fakeTLS := True\<rparr>)" by (auto simp: thread_info_of_def pthread_once_def Let_def)
    then show ?thesis using assms(3) fake by auto
  qed
  then show "tls_inv P s'" "fakeTLS s'" "p = singleThreadInfo P" by simp_all
qed

lemma thread_info_inv:
  assumes "tls_inv P s" and "fresh_blocks P"
  shows "tls_inv P (snd (thread_info_of P t s))"
  using thread_info_usable(1) [OF assms, of t "fst (thread_info_of P t s)" "snd (thread_info_of P t s)"]
    thread_info_fake(1) [OF assms(1), of t "fst (thread_info_of P t s)" "snd (thread_info_of P t s)"]
  by (cases "usable P") simp_all

lemma tls_exec_inv: "tls_inv P s \<Longrightarrow> fresh_blocks P \<Longrightarrow> tls_inv P (tls_exec P ev s)"
  by (cases ev) (simp_all add: thread_info_inv tls_inv_clear)

lemma tls_run_inv: "tls_inv P s \<Longrightarrow> fresh_blocks P \<Longrightarrow> tls_inv P (fold (tls_exec P) evs s)"
  by (induction evs arbitrary: s) (simp_all add: tls_exec_inv)

lemma tls_run_keeps:
  assumes "tls_inv P s" and "fresh_blocks P" and "usable P" and "specific s t \<noteq> 0" and "Leave t \<notin> set evs"
  shows "specific (fold (tls_exec P) evs s) t = specific s t"
  using assms(1,4,5)
proof (induction evs arbitrary: s)
  case (Cons ev evs)
  have "specific (tls_exec P ev s) t = specific s t"
  proof (cases ev)
    case (Ask u)
    obtain p s' where "thread_info_of P u s = (p, s')" by force
    from thread_info_usable(3-5) [OF Cons.prems(1) assms(2,3) this] show ?thesis using Cons.prems(2) Ask \<open>thread_info_of P u s = (p, s')\<close>
      by (cases "u = t") auto
  qed (use Cons.prems in \<open>auto simp: pthread_setspecific_def\<close>)
  then show ?case using Cons tls_exec_inv [OF Cons.prems(1) assms(2)] by simp
qed simp

lemma tls_run_fake: "tls_inv P s \<Longrightarrow> \<not> usable P \<Longrightarrow> fakeTLS s \<Longrightarrow> fakeTLS (fold (tls_exec P) evs s)"
proof (induction evs arbitrary: s)
  case (Cons ev evs)
  show ?case
  proof (cases ev)
    case (Ask t)
    then show ?thesis using thread_info_fake(1,2) [OF Cons.prems(1,2), of t "fst (thread_info_of P t s)" "snd (thread_info_of P t s)"]
        Cons.IH [OF _ Cons.prems(2)] by simp
  next
    case (Leave t)
    then show ?thesis using Cons tls_inv_clear [OF Cons.prems(1)] by (simp add: pthread_setspecific_def)
  qed
qed simp

section \<open>Properties\<close>


definition sample_platform :: platform where
  "sample_platform = \<lparr>has_once = True, has_key_create = True, has_setspecific = True, has_getspecific = True, once_works = True, keys_work = True,
     info_calloc = (\<lambda>i. if i < 100 then 4096 + 64 * of_nat i else 0), singleThreadInfo = 64\<rparr>"

lemma sample_blocks: "fresh_blocks sample_platform"
proof -
  have block: "unat (of_nat (64 * k) :: 64 word) = 64 * k" if "k < 100" for k using that by (simp only: unat_of_nat) (simp add: take_bit_nat_eq_self)
  have "i = j" if "i < 100" "j < 100" "(4096 :: 64 word) + 64 * of_nat i = 4096 + 64 * of_nat j" for i j :: nat
  proof -
    have "(of_nat (64 * i) :: 64 word) = of_nat (64 * j)" using that(3) by simp
    then show ?thesis using block [OF that(1)] block [OF that(2)] by simp
  qed
  then show ?thesis unfolding fresh_blocks_def sample_platform_def by (auto split: if_splits)
qed


end
