(* ===== verification/Emergency.thy ===== *)
theory Emergency
  imports Handlers
begin

text \<open>
  The emergency allocator of \<open>exception.cc\<close>: sixteen buffers of one kilobyte, used when \<open>calloc\<close>
  fails while an exception is allocated. What lies between locking and unlocking the mutex (or
  waiting on the condition variable, which unlocks it) is one step. \<open>calloc\<close> is a parameter: its
  result, null or an address, is an argument of the step.
\<close>

section \<open>The buffers\<close>

text \<open>The loop that looks for a buffer that is not allocated, from index \<open>i\<close> on.\<close>

primrec find_buffer :: "bool list \<Rightarrow> nat \<Rightarrow> nat option" where
  "find_buffer [] i = None"
| "find_buffer (b # bs) i = (if \<not> b then Some i else find_buffer bs (Suc i))"

datatype em_result = Null | Heap ptr | Buffer nat | Sleep

text \<open>One turn of the loop of \<open>emergency_malloc\<close>, from the lock or from waking up.\<close>

definition emergency_turn :: "ptr option \<Rightarrow> bool list \<Rightarrow> em_result \<times> bool list" where
  "emergency_turn m buffer_allocated = (case m of
     Some p \<Rightarrow> (Heap p, buffer_allocated)
   | None \<Rightarrow> (case find_buffer buffer_allocated 0 of
       Some i \<Rightarrow> (Buffer i, buffer_allocated[i := True])
     | None \<Rightarrow> (Sleep, buffer_allocated)))"

section \<open>Threads\<close>

datatype em_pc = Idle | Sleeping | Woken

text \<open>\<open>held\<close> is \<open>emergencyBuffersHeld\<close> of each thread; \<open>given\<close> lists the buffers that were returned and not freed.\<close>

record em =
  buffer_allocated :: "bool list"
  held :: "tid \<Rightarrow> nat"
  pc :: "tid \<Rightarrow> em_pc"
  given :: "nat list"

definition em_start :: em where
  "em_start = \<lparr>buffer_allocated = replicate 16 False, held = (\<lambda>t. 0), pc = (\<lambda>t. Idle), given = []\<rparr>"

definition em_turn :: "tid \<Rightarrow> ptr option \<Rightarrow> em \<Rightarrow> em_result \<times> em" where
  "em_turn t m s = (case emergency_turn m (buffer_allocated s) of
     (Buffer i, ba) \<Rightarrow> (Buffer i, s\<lparr>buffer_allocated := ba, held := (held s)(t := held s t + 1), pc := (pc s)(t := Idle), given := i # given s\<rparr>)
   | (Sleep, ba) \<Rightarrow> (Sleep, s\<lparr>pc := (pc s)(t := Sleeping)\<rparr>)
   | (r, ba) \<Rightarrow> (r, s\<lparr>pc := (pc s)(t := Idle)\<rparr>))"

definition emergency_malloc :: "tid \<Rightarrow> nat \<Rightarrow> ptr option \<Rightarrow> em \<Rightarrow> em_result \<times> em" where
  "emergency_malloc t sz m s =
     (if sz > 1024 then (Null, s) else if held s t > 3 then (Null, s) else em_turn t m s)"

text \<open>
  \<open>emergency_malloc_free\<close> of buffer \<open>i\<close>; \<open>u\<close> is the thread that \<open>pthread_cond_signal\<close> wakes, if one sleeps.
\<close>

definition emergency_malloc_free :: "nat \<Rightarrow> tid \<Rightarrow> em \<Rightarrow> em" where
  "emergency_malloc_free i u s =
     s\<lparr>buffer_allocated := (buffer_allocated s)[i := False],
       given := remove1 i (given s),
       pc := (if pc s u = Sleeping then (pc s)(u := Woken) else pc s)\<rparr>"

inductive em_step :: "em \<Rightarrow> em \<Rightarrow> bool" where
  enter: "pc s t = Idle \<Longrightarrow> em_step s (snd (emergency_malloc t sz m s))"
| again: "pc s t = Woken \<Longrightarrow> em_step s (snd (em_turn t m s))"
| spurious: "pc s t = Sleeping \<Longrightarrow> em_step s (s\<lparr>pc := (pc s)(t := Woken)\<rparr>)"
| release: "i \<in> set (given s) \<Longrightarrow> pc s u = Sleeping \<or> (\<forall>v. pc s v \<noteq> Sleeping) \<Longrightarrow> em_step s (emergency_malloc_free i u s)"

inductive_cases em_stepE: "em_step s s'"

section \<open>Invariant\<close>

definition em_inv :: "em \<Rightarrow> bool" where
  "em_inv s \<longleftrightarrow> length (buffer_allocated s) = 16 \<and> distinct (given s)
     \<and> set (given s) = {i. i < 16 \<and> buffer_allocated s ! i} \<and> (\<forall>t. held s t \<le> 4) \<and> (\<forall>t. pc s t \<noteq> Idle \<longrightarrow> held s t \<le> 3)"

lemma find_buffer_Some: "find_buffer bs k = Some i \<Longrightarrow> k \<le> i \<and> i < k + length bs \<and> \<not> bs ! (i - k)"
proof (induction bs arbitrary: k)
  case (Cons b bs)
  show ?case
  proof (cases b)
    case True
    then have "find_buffer bs (Suc k) = Some i" using Cons.prems by simp
    note ih = Cons.IH [OF this]
    then have "i - k = Suc (i - Suc k)" by linarith
    with ih show ?thesis by simp
  qed (use Cons.prems in simp)
qed simp

lemma find_buffer_None: "find_buffer bs k = None \<longleftrightarrow> (\<forall>b\<in>set bs. b)"
  by (induction bs arbitrary: k) auto

lemma em_turn_inv:
  assumes "em_inv s" and "held s t \<le> 3"
  shows "em_inv (snd (em_turn t m s))"
proof (cases "fst (emergency_turn m (buffer_allocated s))")
  case (Buffer i)
  then have found: "find_buffer (buffer_allocated s) 0 = Some i" "m = None"
    by (auto simp: emergency_turn_def split: option.splits)
  then have i: "i < 16" "\<not> buffer_allocated s ! i"
    using find_buffer_Some [OF found(1)] assms(1) by (auto simp: em_inv_def)
  have "snd (em_turn t m s) = s\<lparr>buffer_allocated := (buffer_allocated s)[i := True], held := (held s)(t := held s t + 1),
      pc := (pc s)(t := Idle), given := i # given s\<rparr>"
    using found by (simp add: em_turn_def emergency_turn_def)
  moreover have "i \<notin> set (given s)" using i assms(1) by (simp add: em_inv_def)
  moreover have "insert i {j. j < 16 \<and> buffer_allocated s ! j} = {j. j < 16 \<and> (buffer_allocated s)[i := True] ! j}"
    using i assms(1) by (auto simp: em_inv_def nth_list_update)
  ultimately show ?thesis using assms unfolding em_inv_def by (auto simp: nth_list_update)
qed (use assms in \<open>auto simp: em_turn_def em_inv_def emergency_turn_def split: option.splits\<close>)

lemma free_inv:
  assumes "em_inv s" and "i \<in> set (given s)"
  shows "em_inv (emergency_malloc_free i u s)"
proof -
  have "i < 16" "length (buffer_allocated s) = 16" using assms by (auto simp: em_inv_def)
  then have "{j. j < 16 \<and> buffer_allocated s ! j} - {i} = {j. j < 16 \<and> (buffer_allocated s)[i := False] ! j}"
    by (auto simp: nth_list_update)
  then show ?thesis using assms unfolding em_inv_def emergency_malloc_free_def by (auto simp: nth_list_update)
qed

lemma em_step_inv: "em_step s s' \<Longrightarrow> em_inv s \<Longrightarrow> em_inv s'"
proof (induction rule: em_step.induct)
  case (enter s t sz m)
  then show ?case using em_turn_inv [of s t m] by (simp add: emergency_malloc_def)
next
  case (again s t m)
  then have "held s t \<le> 3" by (auto simp: em_inv_def)
  with again show ?case using em_turn_inv by blast
next
  case (spurious s t)
  then show ?case by (auto simp: em_inv_def)
next
  case (release i s u)
  then show ?case using free_inv by blast
qed

lemma em_start_inv: "em_inv em_start"
  by (auto simp: em_inv_def em_start_def)

lemma em_reachable_inv: "em_step\<^sup>*\<^sup>* em_start s \<Longrightarrow> em_inv s"
  by (induction rule: rtranclp_induct) (auto intro: em_start_inv em_step_inv)

section \<open>Properties\<close>


lemma held_mono_step: "em_step s s' \<Longrightarrow> held s t \<le> held s' t"
  by (induction rule: em_step.induct)
     (auto simp: emergency_malloc_def em_turn_def emergency_turn_def emergency_malloc_free_def split: option.splits)

lemma held_mono: "em_step\<^sup>*\<^sup>* s s' \<Longrightarrow> held s t \<le> held s' t"
  by (induction rule: rtranclp_induct) (use held_mono_step le_trans in blast)+

text \<open>
  C35. The count of held buffers only grows: once a thread has been given four buffers, every later
  emergency allocation of that thread fails, whatever it has freed in between.
\<close>

theorem emergency_held_forever:
  assumes "em_step\<^sup>*\<^sup>* em_start s" and "held s t = 4" and "em_step\<^sup>*\<^sup>* s s'"
  shows "held s' t = 4 \<and> emergency_malloc t sz m s' = (Null, s')"
proof -
  have "em_step\<^sup>*\<^sup>* em_start s'" using assms(1,3) by (rule rtranclp_trans)
  then have "held s' t \<le> 4" using em_reachable_inv by (simp add: em_inv_def)
  moreover have "4 \<le> held s' t" using held_mono [OF assms(3), of t] assms(2) by simp
  ultimately show ?thesis by (simp add: emergency_malloc_def)
qed

section \<open>Runs\<close>

text \<open>Steps as data, to exhibit reachable states.\<close>

datatype em_event = Alloc tid "ptr option" | Retry tid "ptr option" | Release nat tid

definition em_exec :: "em_event \<Rightarrow> em \<Rightarrow> em option" where
  "em_exec e s = (case e of
     Alloc t m \<Rightarrow> (if pc s t = Idle then Some (snd (emergency_malloc t 1 m s)) else None)
   | Retry t m \<Rightarrow> (if pc s t = Woken then Some (snd (em_turn t m s)) else None)
   | Release i u \<Rightarrow> (if i \<in> set (given s) \<and> pc s u = Sleeping then Some (emergency_malloc_free i u s) else None))"

primrec em_run :: "em_event list \<Rightarrow> em \<Rightarrow> em option" where
  "em_run [] s = Some s"
| "em_run (e # es) s = (case em_exec e s of None \<Rightarrow> None | Some s' \<Rightarrow> em_run es s')"

lemma em_exec_step: "em_exec e s = Some s' \<Longrightarrow> em_step s s'"
  by (auto simp: em_exec_def intro: em_step.intros split: em_event.splits if_splits)

lemma em_run_steps: "em_run es s = Some s' \<Longrightarrow> em_step\<^sup>*\<^sup>* s s'"
  by (induction es arbitrary: s)
     (auto split: option.splits dest!: em_exec_step intro: converse_rtranclp_into_rtranclp)

lemma em_run_append: "em_run (es @ fs) s = (case em_run es s of None \<Rightarrow> None | Some s' \<Rightarrow> em_run fs s')"
  by (induction es arbitrary: s) (auto split: option.splits)

definition level :: "nat \<Rightarrow> (tid \<Rightarrow> nat) \<Rightarrow> em" where
  "level k h = \<lparr>buffer_allocated = replicate k True @ replicate (16 - k) False, held = h, pc = (\<lambda>t. Idle), given = rev [0..<k]\<rparr>"

lemma find_level: "k < n \<Longrightarrow> find_buffer (replicate k True @ replicate (n - k) False) j = Some (j + k)"
proof (induction k arbitrary: j n)
  case 0
  then show ?case by (cases n) simp_all
next
  case (Suc k)
  from Suc.prems obtain n' where "n = Suc n'" "k < n'" by (cases n) simp_all
  with Suc.IH [of n' "Suc j"] show ?case by simp
qed

lemma level_step:
  assumes "k < 16" and "h t \<le> 3"
  shows "em_exec (Alloc t None) (level k h) = Some (level (Suc k) (h(t := h t + 1)))"
proof -
  have "(replicate k True @ replicate (16 - k) False)[k := True] = replicate (Suc k) True @ replicate (16 - Suc k) False"
    using assms(1) by (intro nth_equalityI) (auto simp: nth_append nth_list_update nth_Cons')
  then show ?thesis using assms find_level [of k 16 0]
    by (simp add: em_exec_def emergency_malloc_def em_turn_def emergency_turn_def level_def fun_upd_idem)
qed

lemma level_fill: "k + n \<le> 16 \<Longrightarrow> h t + n \<le> 4 \<Longrightarrow> em_run (replicate n (Alloc t None)) (level k h) = Some (level (k + n) (h(t := h t + n)))"
proof (induction n arbitrary: k h)
  case (Suc n)
  then have "em_run (replicate (Suc n) (Alloc t None)) (level k h) = em_run (replicate n (Alloc t None)) (level (Suc k) (h(t := h t + 1)))"
    using level_step [of k h t] by simp
  also have "\<dots> = Some (level (Suc k + n) ((h(t := h t + 1))(t := h t + 1 + n)))"
    by (rule Suc.IH [of "Suc k" "h(t := h t + 1)", unfolded fun_upd_same]) (use Suc.prems in simp_all)
  finally show ?case by (simp add: fun_upd_def cong: if_cong)
qed simp

definition quarter :: "tid \<Rightarrow> em_event list" where
  "quarter t = replicate 4 (Alloc t None)"

definition all_buffers :: "em_event list" where
  "all_buffers = quarter 0 @ quarter 1 @ quarter 2 @ quarter 3"

lemma all_taken:
  "em_run all_buffers em_start = Some (level 16 ((\<lambda>t. 0)(0 := 4, 1 := 4, 2 := 4, 3 := 4)))"
proof -
  have start: "em_start = level 0 (\<lambda>t. 0)" by (simp add: em_start_def level_def)
  have q: "em_run (quarter t) (level k h) = Some (level (k + 4) (h(t := 4)))" if "k \<le> 12" "h t = 0" for t k h
    using level_fill [of k 4 h t] that by (simp add: quarter_def)
  show ?thesis unfolding start all_buffers_def by (simp add: em_run_append q)
qed

text \<open>
  A wake-up can be lost: a thread that was woken and then gets memory from \<open>calloc\<close> leaves the
  buffer it was woken for, and tells nobody. There is a reachable state in which a thread sleeps, a buffer is
  free, and no thread has been woken.
\<close>

theorem emergency_lost_wakeup:
  "\<exists>s. em_step\<^sup>*\<^sup>* em_start s \<and> pc s 5 = Sleeping \<and> \<not> buffer_allocated s ! 0 \<and> pc s 4 = Idle
     \<and> em_run (all_buffers @ [Alloc 4 None, Alloc 5 None, Release 0 4, Retry 4 (Some 64)]) em_start = Some s
     \<and> filter (\<lambda>t. pc s t = Woken) [0..<6] = []"
proof -
  have none: "find_buffer (replicate 16 True) 0 = None" by (simp add: find_buffer_None)
  have "em_run (all_buffers @ [Alloc 4 None, Alloc 5 None, Release 0 4, Retry 4 (Some 64)]) em_start
      = em_run [Alloc 4 None, Alloc 5 None, Release 0 4, Retry 4 (Some 64)] (level 16 ((\<lambda>t. 0)(0 := 4, 1 := 4, 2 := 4, 3 := 4)))"
    by (simp only: em_run_append all_taken option.case)
  also have "\<dots> = Some ((level 16 ((\<lambda>t. 0)(0 := 4, 1 := 4, 2 := 4, 3 := 4)))
      \<lparr>buffer_allocated := (replicate 16 True)[0 := False], pc := (\<lambda>t. Idle)(5 := Sleeping), given := remove1 0 (rev [0..<16])\<rparr>)"
    using none by (simp add: em_exec_def emergency_malloc_def em_turn_def emergency_turn_def emergency_malloc_free_def level_def fun_eq_iff)
  finally obtain s where run: "em_run (all_buffers @ [Alloc 4 None, Alloc 5 None, Release 0 4, Retry 4 (Some 64)]) em_start = Some s"
      and s: "pc s = (\<lambda>t. Idle)(5 := Sleeping)" "buffer_allocated s = (replicate 16 True)[0 := False]" by force
  have "filter (\<lambda>t. pc s t = Woken) [0..<6] = []" unfolding s by (simp add: filter_empty_conv)
  with em_run_steps [OF run] run s show ?thesis by (intro exI [of _ s]) simp
qed


theorem emergency_held_forever_witness:
  "held (level 4 ((\<lambda>t. 0)(0 := 4))) 0 = 4
   \<and> emergency_malloc 0 1 None (level 4 ((\<lambda>t. 0)(0 := 4))) = (Null, level 4 ((\<lambda>t. 0)(0 := 4)))"
proof (rule emergency_held_forever)
  have "em_start = level 0 (\<lambda>t. 0)" by (simp add: em_start_def level_def)
  then have "em_run (quarter 0) em_start = Some (level 4 ((\<lambda>t. 0)(0 := 4)))" using level_fill [of 0 4 "\<lambda>t. 0" 0] by (simp add: quarter_def)
  then show "em_step\<^sup>*\<^sup>* em_start (level 4 ((\<lambda>t. 0)(0 := 4)))" by (rule em_run_steps)
qed (simp_all add: level_def)

end
