(* ===== verification/Exceptions.thy ===== *)
theory Exceptions
  imports Emergency
begin

text \<open>
  Exception objects and the handler protocol (\<open>exception.cc\<close>), for one thread of a 64-bit program.
  An exception is a header of 128 bytes followed by the thrown object; the unwind header is at
  offset 96 of it. The world maps the address of a live header to its fields; using a header that is not
  live is a fault. The reference count of a dependent exception is the pointer to its primary
  one: the source asserts that the two fields share their place.

  What is not in the source is the argument \<open>E\<close>: \<open>calloc\<close> (its result at each call), the address of the static
  buffer, whether a destructor returns, and the handlers in force. \<open>_Unwind_RaiseException\<close> is
  an argument of the functions that throw: \<open>None\<close> when it leaves for a landing pad, else the code it
  returns. A failed \<open>calloc\<close> of the thread's own structure is dereferenced, which is a fault.
\<close>

unbundle bit_operations_syntax

section \<open>State\<close>

record cxa_exception =
  referenceCount :: "64 word"
  exceptionType :: ptr
  exceptionDestructor :: ptr
  ex_unexpectedHandler :: ptr
  ex_terminateHandler :: ptr
  nextException :: ptr
  handlerCount :: int
  handlerSwitchValue :: int
  actionRecord :: ptr
  languageSpecificData :: ptr
  catchTemp :: ptr
  adjustedPtr :: ptr
  exception_class_of :: "64 word"
  exception_cleanup_of :: ptr

definition zero_exception :: cxa_exception where
  "zero_exception = \<lparr>referenceCount = 0, exceptionType = 0, exceptionDestructor = 0, ex_unexpectedHandler = 0,
     ex_terminateHandler = 0, nextException = 0, handlerCount = 0, handlerSwitchValue = 0, actionRecord = 0,
     languageSpecificData = 0, catchTemp = 0, adjustedPtr = 0, exception_class_of = 0, exception_cleanup_of = 0\<rparr>"

datatype foreign_state = Not_foreign | Foreign_caught | Foreign_rethrown

text \<open>Calls out of the library that the program can see.\<close>

datatype event = Destroyed ptr ptr | Cleaned ptr ptr

record world =
  exns :: "ptr \<Rightarrow> cxa_exception option"
  foreign :: "ptr \<Rightarrow> (64 word \<times> ptr) option"
  has_info :: bool
  caughtExceptions :: ptr
  uncaughtExceptions :: "32 word"
  foreign_exception_state :: foreign_state
  emergencyBuffersHeld :: nat
  buffers :: "bool list"
  callocs :: nat
  events :: "event list"

record outside =
  calloc :: "nat \<Rightarrow> 64 word \<Rightarrow> ptr option"
  emergency_buffer :: ptr
  destructor_returns :: "ptr \<Rightarrow> ptr \<Rightarrow> bool"
  exception_cleanup :: ptr
  dependent_exception_cleanup :: ptr
  thread_id :: tid
  in_force :: handlers

type_synonym 'a X = "('a, world) M"

definition with_exn :: "ptr \<Rightarrow> (cxa_exception \<Rightarrow> 'a X) \<Rightarrow> 'a X" where
  "with_exn ex k = (\<lambda>w. case exns w ex of None \<Rightarrow> Fault Use_After_Free | Some x \<Rightarrow> k x w)"

definition set_exn :: "ptr \<Rightarrow> cxa_exception \<Rightarrow> 'a X \<Rightarrow> 'a X" where
  "set_exn ex x k = (\<lambda>w. k (w\<lparr>exns := (exns w)(ex \<mapsto> x)\<rparr>))"

section \<open>Exception classes and pointers\<close>

definition exception_class :: "64 word" where
  "exception_class = EXCEPTION_CLASS 0x47 0x4e 0x55 0x43 0x43 0x2b 0x2b 0"

definition dependent_exception_class :: "64 word" where
  "dependent_exception_class = EXCEPTION_CLASS 0x47 0x4e 0x55 0x43 0x43 0x2b 0x2b 1"

definition isCXXException :: "64 word \<Rightarrow> bool" where
  "isCXXException cls \<longleftrightarrow> cls = exception_class \<or> cls = dependent_exception_class"

definition isDependentException :: "64 word \<Rightarrow> bool" where
  "isDependentException cls \<longleftrightarrow> cls = dependent_exception_class"

abbreviation sizeof_exception :: ptr where "sizeof_exception \<equiv> 128"
abbreviation offsetof_unwindHeader :: ptr where "offsetof_unwindHeader \<equiv> 96"

definition exceptionFromPointer :: "ptr \<Rightarrow> ptr" where
  "exceptionFromPointer p = p - offsetof_unwindHeader"

definition realExceptionFromException :: "ptr \<Rightarrow> ptr X" where
  "realExceptionFromException ex = with_exn ex (\<lambda>x.
     if \<not> isDependentException (exception_class_of x) then ret ex
     else ret (referenceCount x - sizeof_exception))"

section \<open>Memory\<close>

definition do_calloc :: "outside \<Rightarrow> 64 word \<Rightarrow> ptr option X" where
  "do_calloc E sz = (\<lambda>w. Ok (calloc E (callocs w) sz) (w\<lparr>callocs := callocs w + 1\<rparr>))"

definition thread_info :: "outside \<Rightarrow> 'a X \<Rightarrow> 'a X" where
  "thread_info E k = (\<lambda>w. if has_info w then k w
     else bind (do_calloc E 56) (\<lambda>p. case p of None \<Rightarrow> crash Out_Of_Bounds | Some _ \<Rightarrow> upd (has_info_update (\<lambda>_. True)) k) w)"

definition emergency_alloc :: "outside \<Rightarrow> 64 word \<Rightarrow> ptr X" where
  "emergency_alloc E sz =
     (if sz > 1024 then ret 0 else thread_info E
       (gets emergencyBuffersHeld (\<lambda>h. if h > 3 then ret 0 else
          bind (do_calloc E sz) (\<lambda>m. gets buffers (\<lambda>ba. case emergency_turn m ba of
              (Heap p, _) \<Rightarrow> ret p
            | (Buffer i, ba') \<Rightarrow> upd (\<lambda>w. w\<lparr>buffers := ba', emergencyBuffersHeld := h + 1\<rparr>)
                                  (ret (emergency_buffer E + of_nat (1024 * i)))
            | _ \<Rightarrow> crash Deadlock)))))"

definition emergency_free :: "outside \<Rightarrow> ptr \<Rightarrow> unit X" where
  "emergency_free E p = (case find (\<lambda>i. p = emergency_buffer E + of_nat (1024 * i)) [0..<16] of
     None \<Rightarrow> crash Assert_Failed
   | Some i \<Rightarrow> upd (\<lambda>w. w\<lparr>buffers := (buffers w)[i := False], exns := (exns w)(p := None)\<rparr>) (ret ()))"

definition alloc_or_die :: "outside \<Rightarrow> 64 word \<Rightarrow> ptr X" where
  "alloc_or_die E sz =
     bind (do_calloc E sz) (\<lambda>buffer.
     bind (case buffer of Some p \<Rightarrow> ret p
           | None \<Rightarrow> bind (emergency_alloc E sz) (\<lambda>p. if p = 0 then crash Terminated else ret p)) (\<lambda>p.
     upd (\<lambda>w. w\<lparr>exns := (exns w)(p \<mapsto> zero_exception)\<rparr>) (ret p)))"

definition free_exception :: "outside \<Rightarrow> ptr \<Rightarrow> unit X" where
  "free_exception E e =
     (if e \<ge> emergency_buffer E \<and> e < emergency_buffer E + 16384 then emergency_free E e
      else (\<lambda>w. if exns w e = None then Fault Double_Free else Ok () (w\<lparr>exns := (exns w)(e := None)\<rparr>)))"

definition cxa_allocate_exception :: "outside \<Rightarrow> 64 word \<Rightarrow> ptr X" where
  "cxa_allocate_exception E thrown_size =
     bind (alloc_or_die E (thrown_size + sizeof_exception)) (\<lambda>buffer. ret (buffer + sizeof_exception))"

definition cxa_allocate_dependent_exception :: "outside \<Rightarrow> ptr X" where
  "cxa_allocate_dependent_exception E =
     bind (alloc_or_die E sizeof_exception) (\<lambda>buffer. ret (buffer + sizeof_exception))"

definition cxa_free_exception :: "outside \<Rightarrow> ptr \<Rightarrow> unit X" where
  "cxa_free_exception E thrown_exception =
     (let ex = thrown_exception - sizeof_exception in
      with_exn ex (\<lambda>x.
        if exceptionDestructor x \<noteq> 0 then
          (if destructor_returns E (exceptionDestructor x) thrown_exception
           then upd (\<lambda>w. w\<lparr>events := events w @ [Destroyed (exceptionDestructor x) thrown_exception]\<rparr>) (free_exception E ex)
           else crash Terminated)
        else free_exception E ex))"

definition cxa_free_dependent_exception :: "outside \<Rightarrow> (ptr \<Rightarrow> unit X) \<Rightarrow> ptr \<Rightarrow> unit X" where
  "cxa_free_dependent_exception E releaseException thrown_exception =
     (let ex = thrown_exception - sizeof_exception in
      with_exn ex (\<lambda>x. c_assert (isDependentException (exception_class_of x))
        (bind (if referenceCount x \<noteq> 0 then bind (realExceptionFromException ex) releaseException else ret ())
              (\<lambda>_. free_exception E ex))))"

primrec releaseException :: "nat \<Rightarrow> outside \<Rightarrow> ptr \<Rightarrow> unit X" where
  "releaseException 0 E ex = crash Out_Of_Fuel"
| "releaseException (Suc n) E ex = with_exn ex (\<lambda>x.
     if isDependentException (exception_class_of x)
     then cxa_free_dependent_exception E (releaseException n E) (ex + sizeof_exception)
     else set_exn ex (x\<lparr>referenceCount := referenceCount x - 1\<rparr>)
       (if referenceCount x - 1 = 0 then cxa_free_exception E (ex + sizeof_exception) else ret ()))"

section \<open>Catching\<close>

text \<open>The class in the unwind header at \<open>p\<close>, of a foreign exception or inside a C++ one.\<close>

definition with_class :: "ptr \<Rightarrow> (64 word \<Rightarrow> 'a X) \<Rightarrow> 'a X" where
  "with_class p k = (\<lambda>w. case foreign w p of Some (cls, _) \<Rightarrow> k cls w
     | None \<Rightarrow> with_exn (p - offsetof_unwindHeader) (\<lambda>x. k (exception_class_of x)) w)"

definition cxa_begin_catch :: "outside \<Rightarrow> ptr \<Rightarrow> ptr X" where
  "cxa_begin_catch E e = thread_info E (with_class e (\<lambda>cls.
     if isCXXException cls then
       upd (\<lambda>w. w\<lparr>uncaughtExceptions := uncaughtExceptions w - 1\<rparr>)
       (let ex = exceptionFromPointer e in with_exn ex (\<lambda>x.
          gets caughtExceptions (\<lambda>top.
          upd (\<lambda>w. if handlerCount x = 0 then w\<lparr>caughtExceptions := ex\<rparr> else w)
          (set_exn ex (x\<lparr>nextException := (if handlerCount x = 0 then top else nextException x),
                         handlerCount := (if handlerCount x < 0 then - handlerCount x + 1 else handlerCount x + 1)\<rparr>)
          (upd (\<lambda>w. w\<lparr>foreign_exception_state := Not_foreign\<rparr>)
          (ret (adjustedPtr x)))))))
     else gets caughtExceptions (\<lambda>top.
       if top \<noteq> 0 then crash Terminated
       else upd (\<lambda>w. w\<lparr>caughtExceptions := e, foreign_exception_state := Foreign_caught\<rparr>) (ret (e + 32)))))"

definition thread_info_fast :: "'a X \<Rightarrow> 'a X" where
  "thread_info_fast k = (\<lambda>w. if has_info w then k w else Fault Out_Of_Bounds)"

text \<open>A foreign exception destroys itself.\<close>

definition foreign_cleanup :: "ptr \<Rightarrow> 'a X \<Rightarrow> 'a X" where
  "foreign_cleanup e k = (\<lambda>w. case foreign w e of None \<Rightarrow> Fault Use_After_Free
     | Some (cls, f) \<Rightarrow> k (if f \<noteq> 0 then w\<lparr>events := events w @ [Cleaned f e]\<rparr> else w))"

definition release :: "outside \<Rightarrow> ptr \<Rightarrow> unit X" where
  "release E ex = releaseException 2 E ex"

definition cxa_end_catch :: "outside \<Rightarrow> unit X" where
  "cxa_end_catch E = thread_info_fast (gets caughtExceptions (\<lambda>ex. c_assert (ex \<noteq> 0)
     (gets foreign_exception_state (\<lambda>st.
        if st \<noteq> Not_foreign then
          (let leave = upd (\<lambda>w. w\<lparr>caughtExceptions := 0, foreign_exception_state := Not_foreign\<rparr>) (ret ()) in
           if st \<noteq> Foreign_rethrown then foreign_cleanup ex leave else leave)
        else with_exn ex (\<lambda>x.
          (let deleteException = (handlerCount x \<ge> 0);
               count = (if handlerCount x < 0 then handlerCount x + 1 else handlerCount x - 1) in
           set_exn ex (x\<lparr>handlerCount := count\<rparr>)
           (if count = 0 then
              upd (\<lambda>w. w\<lparr>caughtExceptions := nextException x\<rparr>)
              (if deleteException then release E ex else ret ())
            else ret ())))))))"

section \<open>Throwing\<close>

datatype Unwind_Reason_Code =
    URC_NO_REASON | URC_FOREIGN_EXCEPTION_CAUGHT | URC_FATAL_PHASE2_ERROR | URC_FATAL_PHASE1_ERROR
  | URC_NORMAL_STOP | URC_END_OF_STACK | URC_HANDLER_FOUND | URC_INSTALL_CONTEXT | URC_CONTINUE_UNWIND

definition report_failure :: "outside \<Rightarrow> Unwind_Reason_Code \<Rightarrow> ptr \<Rightarrow> unit X" where
  "report_failure E err thrown_exception =
     (if err = URC_END_OF_STACK
      then bind (cxa_begin_catch E (thrown_exception + offsetof_unwindHeader)) (\<lambda>_. crash Terminated)
      else crash Terminated)"

definition throw_exception :: "outside \<Rightarrow> (ptr \<Rightarrow> Unwind_Reason_Code option X) \<Rightarrow> ptr \<Rightarrow> unit X" where
  "throw_exception E raise ex = thread_info E (with_exn ex (\<lambda>x.
     let own = thread_infos (in_force E) (thread_id E);
         u = (if unexpectedHandler_of own = 0 then unexpectedHandler (in_force E) else unexpectedHandler_of own);
         t = (if terminateHandler_of own = 0 then terminateHandler (in_force E) else terminateHandler_of own) in
     set_exn ex (x\<lparr>ex_unexpectedHandler := u, ex_terminateHandler := t\<rparr>)
     (upd (\<lambda>w. w\<lparr>uncaughtExceptions := uncaughtExceptions w + 1\<rparr>)
     (bind (raise (ex + offsetof_unwindHeader)) (\<lambda>err. case err of None \<Rightarrow> ret () | Some c \<Rightarrow> report_failure E c ex)))))"

definition cxa_init_primary_exception :: "outside \<Rightarrow> ptr \<Rightarrow> ptr \<Rightarrow> ptr \<Rightarrow> ptr X" where
  "cxa_init_primary_exception E object tinfo dest =
     (let ex = object - sizeof_exception in
      with_exn ex (\<lambda>x. set_exn ex (x\<lparr>referenceCount := 0, exceptionType := tinfo, exceptionDestructor := dest,
        exception_class_of := exception_class, exception_cleanup_of := exception_cleanup E\<rparr>) (ret ex)))"

definition cxa_throw :: "outside \<Rightarrow> (ptr \<Rightarrow> Unwind_Reason_Code option X) \<Rightarrow> ptr \<Rightarrow> ptr \<Rightarrow> ptr \<Rightarrow> unit X" where
  "cxa_throw E raise thrown_exception tinfo dest =
     bind (cxa_init_primary_exception E thrown_exception tinfo dest) (\<lambda>ex.
     with_exn ex (\<lambda>x. set_exn ex (x\<lparr>referenceCount := 1\<rparr>) (throw_exception E raise ex)))"

definition cxa_increment_exception_refcount :: "ptr \<Rightarrow> unit X" where
  "cxa_increment_exception_refcount thrown_exception =
     (if thrown_exception = 0 then ret () else
      let ex = thrown_exception - sizeof_exception in
      with_exn ex (\<lambda>x. if isDependentException (exception_class_of x) then ret ()
        else set_exn ex (x\<lparr>referenceCount := referenceCount x + 1\<rparr>) (ret ())))"

definition cxa_decrement_exception_refcount :: "outside \<Rightarrow> ptr \<Rightarrow> unit X" where
  "cxa_decrement_exception_refcount E thrown_exception =
     (if thrown_exception = 0 then ret () else release E (thrown_exception - sizeof_exception))"

text \<open>
  \<open>original->exceptionType\<close> for any pointer \<open>original\<close>: the field is at offset 16, and 32 bytes further, at
  offset 48 of a header, is its \<open>nextException\<close>.
\<close>

definition exceptionType_at :: "ptr \<Rightarrow> (ptr \<Rightarrow> 'a X) \<Rightarrow> 'a X" where
  "exceptionType_at p k = (\<lambda>w. case exns w p of Some x \<Rightarrow> k (exceptionType x) w
     | None \<Rightarrow> (case exns w (p - 32) of Some x \<Rightarrow> k (nextException x) w | None \<Rightarrow> Fault Out_Of_Bounds))"

definition cxa_rethrow_primary_exception :: "outside \<Rightarrow> (ptr \<Rightarrow> Unwind_Reason_Code option X) \<Rightarrow> ptr \<Rightarrow> unit X" where
  "cxa_rethrow_primary_exception E raise thrown_exception =
     (if thrown_exception = 0 then ret () else
      let original = exceptionFromPointer thrown_exception in
      bind (cxa_allocate_dependent_exception E) (\<lambda>p. let ex = p - sizeof_exception in
      with_exn ex (\<lambda>x. set_exn ex (x\<lparr>referenceCount := thrown_exception\<rparr>)
      (bind (cxa_increment_exception_refcount thrown_exception) (\<lambda>_.
      exceptionType_at original (\<lambda>ti.
      with_exn ex (\<lambda>x. set_exn ex (x\<lparr>exceptionType := ti, exception_class_of := dependent_exception_class,
        exception_cleanup_of := dependent_exception_cleanup E\<rparr>)
      (throw_exception E raise ex))))))))"

definition cxa_current_primary_exception :: "outside \<Rightarrow> ptr X" where
  "cxa_current_primary_exception E = thread_info E (gets caughtExceptions (\<lambda>ex.
     if ex = 0 then ret 0
     else bind (realExceptionFromException ex) (\<lambda>ex.
       with_exn ex (\<lambda>x. set_exn ex (x\<lparr>referenceCount := referenceCount x + 1\<rparr>) (ret (ex + sizeof_exception))))))"

definition cxa_rethrow :: "outside \<Rightarrow> (ptr \<Rightarrow> Unwind_Reason_Code option X) \<Rightarrow> unit X" where
  "cxa_rethrow E resume = thread_info E (gets caughtExceptions (\<lambda>ex.
     if ex = 0 then crash Terminated
     else gets foreign_exception_state (\<lambda>st.
       if st \<noteq> Not_foreign then
         upd (\<lambda>w. w\<lparr>foreign_exception_state := Foreign_rethrown\<rparr>)
         (bind (resume ex) (\<lambda>err. case err of None \<Rightarrow> ret () | Some c \<Rightarrow> report_failure E c ex))
       else with_exn ex (\<lambda>x. c_assert (handlerCount x > 0)
         (upd (\<lambda>w. w\<lparr>uncaughtExceptions := uncaughtExceptions w + 1\<rparr>)
         (set_exn ex (x\<lparr>handlerCount := - handlerCount x\<rparr>)
         (bind (resume (ex + offsetof_unwindHeader)) (\<lambda>err. case err of None \<Rightarrow> ret () | Some c \<Rightarrow> report_failure E c ex))))))))"

text \<open>
  What a foreign runtime that caught a C++ exception calls, with the address of the unwind header: the object is destroyed whatever its
  reference count.
\<close>

definition run_exception_cleanup :: "outside \<Rightarrow> ptr \<Rightarrow> unit X" where
  "run_exception_cleanup E ex = cxa_free_exception E (ex + 32)"

definition run_dependent_exception_cleanup :: "outside \<Rightarrow> ptr \<Rightarrow> unit X" where
  "run_dependent_exception_cleanup E ex = cxa_free_dependent_exception E (release E) (ex + 32)"

section \<open>Queries\<close>

definition cxa_current_exception_type :: "outside \<Rightarrow> ptr X" where
  "cxa_current_exception_type E = thread_info E (gets caughtExceptions (\<lambda>ex.
     if ex \<noteq> 0 then with_exn ex (\<lambda>x. ret (exceptionType x)) else ret 0))"

definition cxa_get_exception_ptr :: "ptr \<Rightarrow> ptr X" where
  "cxa_get_exception_ptr e = with_exn (exceptionFromPointer e) (\<lambda>x. ret (adjustedPtr x))"

definition uncaught_exceptions :: "outside \<Rightarrow> 32 word X" where
  "uncaught_exceptions E = thread_info E (gets uncaughtExceptions ret)"

definition uncaught_exception :: "outside \<Rightarrow> bool X" where
  "uncaught_exception E = thread_info E (gets uncaughtExceptions (\<lambda>n. ret (n \<noteq> 0)))"

text \<open>
  \<open>handler_throws\<close> says whether a handler leaves by an exception, when the cleanup of \<open>unused\<close> ends the catch; a handler
  that returns is followed by \<open>abort()\<close>. The result is the handler that was called.
\<close>

definition call_or_abort :: "outside \<Rightarrow> (ptr \<Rightarrow> bool) \<Rightarrow> ptr \<Rightarrow> ptr X" where
  "call_or_abort E handler_throws h = (if handler_throws h then bind (cxa_end_catch E) (\<lambda>_. ret h) else crash Aborted)"

definition cxa_call_unexpected :: "outside \<Rightarrow> (ptr \<Rightarrow> bool) \<Rightarrow> ptr \<Rightarrow> ptr X" where
  "cxa_call_unexpected E handler_throws e = bind (cxa_begin_catch E e) (\<lambda>_. with_class e (\<lambda>cls.
     let std_unexpected = call_or_abort E handler_throws (fst (unexpected (thread_id E) (in_force E))) in
     if cls = exception_class then
       with_exn (exceptionFromPointer e) (\<lambda>x.
         if ex_unexpectedHandler x \<noteq> 0 then call_or_abort E handler_throws (ex_unexpectedHandler x) else std_unexpected)
     else std_unexpected))"

definition cxa_call_terminate :: "outside \<Rightarrow> ptr \<Rightarrow> unit X" where
  "cxa_call_terminate E e = crash Terminated"

definition cxa_get_globals :: "outside \<Rightarrow> (ptr \<times> 32 word) X" where
  "cxa_get_globals E = thread_info E (\<lambda>w. Ok (caughtExceptions w, uncaughtExceptions w) w)"

definition cxa_get_globals_fast :: "(ptr \<times> 32 word) X" where
  "cxa_get_globals_fast = thread_info_fast (\<lambda>w. Ok (caughtExceptions w, uncaughtExceptions w) w)"

section \<open>End of a thread\<close>

primrec free_exception_list :: "nat \<Rightarrow> outside \<Rightarrow> ptr \<Rightarrow> unit X" where
  "free_exception_list 0 E ex = crash Out_Of_Fuel"
| "free_exception_list (Suc n) E ex = with_exn ex (\<lambda>x.
     bind (if nextException x \<noteq> 0 then free_exception_list n E (nextException x) else ret ())
          (\<lambda>_. cxa_free_exception E (ex + sizeof_exception)))"

definition thread_cleanup :: "nat \<Rightarrow> outside \<Rightarrow> unit X" where
  "thread_cleanup n E = gets caughtExceptions (\<lambda>ex.
     bind (if ex \<noteq> 0 then
             gets foreign_exception_state (\<lambda>st.
               if st \<noteq> Not_foreign then foreign_cleanup ex (ret ()) else free_exception_list n E ex)
           else ret ())
     (\<lambda>_. upd (\<lambda>w. w\<lparr>has_info := False\<rparr>) (ret ())))"

lemmas exn_defs = with_exn_def set_exn_def with_class_def thread_info_def thread_info_fast_def
  cxa_begin_catch_def cxa_end_catch_def exceptionFromPointer_def realExceptionFromException_def foreign_cleanup_def

lemma not_dependent [simp]: "\<not> isDependentException exception_class" "isCXXException exception_class"
  by (simp_all add: isDependentException_def isCXXException_def exception_class_def dependent_exception_class_def EXCEPTION_CLASS_def)

end
