(* ===== verification/Exception_Protocol.thy ===== *)
theory Exception_Protocol
  imports Exceptions
begin

text \<open>
  The promise of the exception runtime as an abstract machine, and the proof that the functions of
  \<open>Exceptions\<close> implement it: a stack of the exceptions being handled, the exceptions in flight,
  and for each exception the number of \<open>exception_ptr\<close>s of the program. The object is destroyed when the last
  owner is gone, and only then.
\<close>

section \<open>The abstract machine\<close>

record spec =
  stack :: "(ptr \<times> nat \<times> bool) list"
  flight :: "ptr list"
  refs :: "ptr \<Rightarrow> nat"
  dtor :: "ptr \<Rightarrow> ptr"
  destroyed :: "event list"

definition handled :: "spec \<Rightarrow> ptr \<Rightarrow> bool" where
  "handled s e \<longleftrightarrow> e \<in> fst ` set (stack s) \<or> e \<in> set (flight s)"

text \<open>The runtime is one owner of the exceptions it handles.\<close>

definition owners :: "spec \<Rightarrow> ptr \<Rightarrow> nat" where
  "owners s e = refs s e + (if handled s e then 1 else 0)"

definition count_of :: "spec \<Rightarrow> ptr \<Rightarrow> int" where
  "count_of s e = (case map_of (stack s) e of None \<Rightarrow> 0 | Some (c, r) \<Rightarrow> if r then - int c else int c)"

definition destruction :: "ptr \<Rightarrow> ptr \<Rightarrow> event list" where
  "destruction d e = (if d = 0 then [] else [Destroyed d (e + sizeof_exception)])"

definition forget :: "ptr \<Rightarrow> spec \<Rightarrow> spec" where
  "forget e s = (if owners s e = 0 then s\<lparr>destroyed := destroyed s @ destruction (dtor s e) e\<rparr> else s)"

datatype action = Throw ptr ptr | Catch ptr | End_catch | Rethrow | Current | Add_ref ptr | Drop_ref ptr

text \<open>What the language allows, and what it promises.\<close>

inductive spec_step :: "spec \<Rightarrow> action \<Rightarrow> spec \<Rightarrow> bool" where
  throw: "owners s e = 0 \<Longrightarrow> spec_step s (Throw e d) (s\<lparr>flight := e # flight s, dtor := (dtor s)(e := d)\<rparr>)"
| catch_new: "e \<in> set (flight s) \<Longrightarrow> e \<notin> fst ` set (stack s) \<Longrightarrow>
    spec_step s (Catch e) (s\<lparr>flight := remove1 e (flight s), stack := (e, 1, False) # stack s\<rparr>)"
| catch_again: "stack s = (e, c, True) # st \<Longrightarrow>
    spec_step s (Catch e) (s\<lparr>flight := remove1 e (flight s), stack := (e, c + 1, False) # st\<rparr>)"
| end_inner: "stack s = (e, Suc (Suc c), r) # st \<Longrightarrow> spec_step s End_catch (s\<lparr>stack := (e, Suc c, r) # st\<rparr>)"
| end_outer: "stack s = (e, Suc 0, False) # st \<Longrightarrow> spec_step s End_catch (forget e (s\<lparr>stack := st\<rparr>))"
| end_rethrown: "stack s = (e, Suc 0, True) # st \<Longrightarrow> spec_step s End_catch (s\<lparr>stack := st\<rparr>)"
| rethrow: "stack s = (e, c, False) # st \<Longrightarrow> spec_step s Rethrow (s\<lparr>stack := (e, c, True) # st, flight := e # flight s\<rparr>)"
| current: "stack s = (e, c, r) # st \<Longrightarrow> owners s e + 1 < 2 ^ 64 \<Longrightarrow>
    spec_step s Current (s\<lparr>refs := (refs s)(e := refs s e + 1)\<rparr>)"
| add_ref: "0 < refs s e \<Longrightarrow> owners s e + 1 < 2 ^ 64 \<Longrightarrow> spec_step s (Add_ref e) (s\<lparr>refs := (refs s)(e := refs s e + 1)\<rparr>)"
| drop_ref: "0 < refs s e \<Longrightarrow> spec_step s (Drop_ref e) (forget e (s\<lparr>refs := (refs s)(e := refs s e - 1)\<rparr>))"

inductive_cases spec_stepE: "spec_step s a s'"

definition spec_start :: spec where
  "spec_start = \<lparr>stack = [], flight = [], refs = (\<lambda>e. 0), dtor = (\<lambda>e. 0), destroyed = []\<rparr>"

definition stack_inv :: "spec \<Rightarrow> bool" where
  "stack_inv s \<longleftrightarrow> distinct (map fst (stack s)) \<and> distinct (flight s)
     \<and> (\<forall>(e, c, r)\<in>set (stack s). 0 < c \<and> (r \<longleftrightarrow> e \<in> set (flight s)))"

definition bounded :: "spec \<Rightarrow> bool" where
  "bounded s \<longleftrightarrow> (\<forall>e. owners s e < 2 ^ 64)"

lemma owners_updates [simp]:
  "owners (s\<lparr>dtor := d\<rparr>) e = owners s e" "owners (s\<lparr>destroyed := l\<rparr>) e = owners s e"
  by (simp_all add: owners_def handled_def)

lemma forget_simps [simp]: "stack (forget e s) = stack s" "flight (forget e s) = flight s" "refs (forget e s) = refs s"
    "dtor (forget e s) = dtor s" "owners (forget e s) x = owners s x" "stack_inv (forget e s) = stack_inv s"
    "bounded (forget e s) = bounded s" "handled (forget e s) x = handled s x" "count_of (forget e s) x = count_of s x"
  by (simp_all add: forget_def owners_def handled_def stack_inv_def bounded_def count_of_def)

lemma stack_inv_step: "spec_step s a s' \<Longrightarrow> stack_inv s \<Longrightarrow> stack_inv s'"
proof (induction rule: spec_step.induct)
  case (throw s e d)
  then have "\<not> handled s e" by (simp add: owners_def split: if_splits)
  with throw show ?case unfolding stack_inv_def handled_def by (auto simp: image_iff)
next
  case (catch_new e s)
  then show ?case unfolding stack_inv_def by (auto simp: image_iff)
next
  case (catch_again s e c st)
  then show ?case unfolding stack_inv_def by (fastforce simp: image_iff)
next
  case (rethrow s e c st)
  then show ?case unfolding stack_inv_def by (fastforce simp: image_iff)
qed (auto simp: stack_inv_def)

text \<open>A step adds an owner to at most one exception, and there the count has room.\<close>

lemma handled_step: "spec_step s a s' \<Longrightarrow> handled s' x \<Longrightarrow> handled s x \<or> owners s x = 0"
  by (induction rule: spec_step.induct) (auto simp: handled_def dest: notin_set_remove1)

lemma refs_step: "spec_step s a s' \<Longrightarrow> refs s' x \<le> refs s x \<or> refs s' x = refs s x + 1 \<and> owners s x + 1 < 2 ^ 64"
  by (induction rule: spec_step.induct) auto

lemma bounded_step:
  assumes "spec_step s a s'" and "bounded s"
  shows "bounded s'"
  unfolding bounded_def
proof
  fix e
  have b: "owners s e < 2 ^ 64" using assms(2) by (simp add: bounded_def)
  show "owners s' e < 2 ^ 64"
  proof (cases "handled s e")
    case True
    then show ?thesis using refs_step [OF assms(1), of e] b by (auto simp: owners_def)
  next
    case False
    then show ?thesis using refs_step [OF assms(1), of e] handled_step [OF assms(1), of e] b by (auto simp: owners_def split: if_splits)
  qed
qed

section \<open>The representation\<close>

primrec chain :: "(ptr \<Rightarrow> cxa_exception option) \<Rightarrow> ptr \<Rightarrow> ptr list \<Rightarrow> bool" where
  "chain h p [] = (p = 0)"
| "chain h p (e # es) = (p = e \<and> (\<exists>x. h e = Some x \<and> chain h (nextException x) es))"

text \<open>An address that \<open>free_exception\<close> can release.\<close>

definition block :: "outside \<Rightarrow> ptr \<Rightarrow> bool" where
  "block E e \<longleftrightarrow> \<not> (e \<ge> emergency_buffer E \<and> e < emergency_buffer E + 16384)
     \<or> (\<exists>i<16. e = emergency_buffer E + of_nat (1024 * i))"

definition header_ok :: "outside \<Rightarrow> world \<Rightarrow> spec \<Rightarrow> ptr \<Rightarrow> bool" where
  "header_ok E w s e \<longleftrightarrow>
     (\<exists>x. exns w e = Some x \<and> exception_class_of x = exception_class \<and> exceptionDestructor x = dtor s e
        \<and> referenceCount x = of_nat (owners s e) \<and> handlerCount x = count_of s e)
     \<and> foreign w (e + offsetof_unwindHeader) = None \<and> block E e \<and> e \<noteq> 0 \<and> e + sizeof_exception \<noteq> 0"

text \<open>An exception with an owner is live and counts them; one without an owner was never thrown, or is gone.\<close>

definition headers :: "outside \<Rightarrow> world \<Rightarrow> spec \<Rightarrow> bool" where
  "headers E w s \<longleftrightarrow> (\<forall>e. if 0 < owners s e then header_ok E w s e else \<forall>x. exns w e = Some x \<longrightarrow> exception_class_of x = 0)"

definition rep :: "outside \<Rightarrow> world \<Rightarrow> spec \<Rightarrow> bool" where
  "rep E w s \<longleftrightarrow> has_info w \<and> foreign_exception_state w = Not_foreign \<and> events w = destroyed s
     \<and> uncaughtExceptions w = of_nat (length (flight s)) \<and> chain (exns w) (caughtExceptions w) (map fst (stack s))
     \<and> headers E w s"

text \<open>What the unwind library may do before it leaves for a landing pad: the fields of phase 1.\<close>

definition same_protocol :: "cxa_exception \<Rightarrow> cxa_exception \<Rightarrow> bool" where
  "same_protocol x y \<longleftrightarrow> referenceCount y = referenceCount x \<and> exceptionDestructor y = exceptionDestructor x
     \<and> nextException y = nextException x \<and> handlerCount y = handlerCount x \<and> exception_class_of y = exception_class_of x"

definition unwinds :: "(ptr \<Rightarrow> Unwind_Reason_Code option X) \<Rightarrow> bool" where
  "unwinds raise \<longleftrightarrow> (\<forall>w e x. exns w e = Some x \<longrightarrow>
     (\<exists>y. same_protocol x y \<and> raise (e + offsetof_unwindHeader) w = Ok None (w\<lparr>exns := (exns w)(e \<mapsto> y)\<rparr>)))"

definition perform :: "outside \<Rightarrow> (ptr \<Rightarrow> Unwind_Reason_Code option X) \<Rightarrow> action \<Rightarrow> unit X" where
  "perform E raise a = (case a of
     Throw e d \<Rightarrow> cxa_throw E raise (e + sizeof_exception) 0 d
   | Catch e \<Rightarrow> bind (cxa_begin_catch E (e + offsetof_unwindHeader)) (\<lambda>_. ret ())
   | End_catch \<Rightarrow> cxa_end_catch E
   | Rethrow \<Rightarrow> cxa_rethrow E raise
   | Current \<Rightarrow> bind (cxa_current_primary_exception E) (\<lambda>_. ret ())
   | Add_ref e \<Rightarrow> cxa_increment_exception_refcount (e + sizeof_exception)
   | Drop_ref e \<Rightarrow> cxa_decrement_exception_refcount E (e + sizeof_exception))"

definition allocated :: "outside \<Rightarrow> world \<Rightarrow> ptr \<Rightarrow> bool" where
  "allocated E w e \<longleftrightarrow> exns w e = Some zero_exception \<and> foreign w (e + offsetof_unwindHeader) = None \<and> block E e \<and> e \<noteq> 0 \<and> e + sizeof_exception \<noteq> 0"

section \<open>Lemmas about the representation\<close>

lemma chain_cong:
  "(\<And>e. e \<in> set es \<Longrightarrow> map_option nextException (g e) = map_option nextException (h e)) \<Longrightarrow> chain g p es = chain h p es"
proof (induction es arbitrary: p)
  case (Cons e es)
  have ih: "chain g q es = chain h q es" for q using Cons by simp
  from Cons.prems [of e] show ?case by (cases "g e"; cases "h e") (auto simp: ih)
qed simp

lemma chain_upd_notin: "e \<notin> set es \<Longrightarrow> chain (h(e := y)) p es = chain h p es"
  by (rule chain_cong) auto

lemma chain_upd_same: "h e = Some x \<Longrightarrow> nextException y = nextException x \<Longrightarrow> chain (h(e \<mapsto> y)) p es = chain h p es"
  by (rule chain_cong) auto

definition others_same :: "ptr \<Rightarrow> spec \<Rightarrow> spec \<Rightarrow> bool" where
  "others_same e s s' \<longleftrightarrow> (\<forall>e'. e' \<noteq> e \<longrightarrow> owners s' e' = owners s e' \<and> count_of s' e' = count_of s e' \<and> dtor s' e' = dtor s e')"

lemma headers_upd:
  assumes "headers E w s"
    and "others_same e s s'"
    and "exns w' = (exns w)(e := y)" and "foreign w' = foreign w"
    and "0 < owners s' e \<and> header_ok E w' s' e \<or> owners s' e = 0 \<and> (\<forall>x. y = Some x \<longrightarrow> exception_class_of x = 0)"
  shows "headers E w' s'"
  unfolding headers_def
proof
  fix e'
  show "if 0 < owners s' e' then header_ok E w' s' e' else \<forall>x. exns w' e' = Some x \<longrightarrow> exception_class_of x = 0"
  proof (cases "e' = e")
    case False
    then have "if 0 < owners s e' then header_ok E w s e' else \<forall>x. exns w e' = Some x \<longrightarrow> exception_class_of x = 0"
      using assms(1) unfolding headers_def by blast
    then show ?thesis using assms(2) assms(3,4) False unfolding header_ok_def others_same_def by auto
  qed (use assms(3,5) in auto)
qed

lemma headers_live:
  assumes "headers E w s" and "others_same e s s'"
    and "header_ok E w' s' e" and "0 < owners s' e" and "exns w' = (exns w)(e \<mapsto> y)" and "foreign w' = foreign w"
  shows "headers E w' s'"
  by (rule headers_upd [OF assms(1,2,5,6)]) (use assms(3,4) in auto)

lemma headers_destroyed [simp]: "headers E w (s\<lparr>destroyed := l\<rparr>) = headers E w s"
  by (simp add: headers_def header_ok_def count_of_def)

lemma headersD: "headers E w s \<Longrightarrow> 0 < owners s e \<Longrightarrow> header_ok E w s e"
  unfolding headers_def by presburger

lemma free_block_exn:
  assumes "block E e" and "exns w e = Some x"
  shows "\<exists>ba. free_exception E e w = Ok () (w\<lparr>exns := (exns w)(e := None), buffers := ba\<rparr>)"
proof (cases "e \<ge> emergency_buffer E \<and> e < emergency_buffer E + 16384")
  case True
  with assms(1) obtain i where "i < 16" "e = emergency_buffer E + of_nat (1024 * i)" unfolding block_def by blast
  then have "find (\<lambda>i. e = emergency_buffer E + of_nat (1024 * i)) [0..<16] \<noteq> None" by (auto simp: find_None_iff)
  then obtain j where "find (\<lambda>i. e = emergency_buffer E + of_nat (1024 * i)) [0..<16] = Some j" by auto
  then show ?thesis using True
    by (intro exI [of _ "(buffers w)[j := False]"]) (simp add: free_exception_def emergency_free_def upd_def ret_def)
next
  case False
  then show ?thesis using assms(2) by (intro exI [of _ "buffers w"]) (simp only: free_exception_def if_False, simp)
qed

definition returns :: "outside \<Rightarrow> bool" where
  "returns E \<longleftrightarrow> (\<forall>f p. destructor_returns E f p)"

lemma free_object:
  assumes "block E e" and "exns w e = Some x" and "returns E"
  shows "\<exists>ba. cxa_free_exception E (e + sizeof_exception) w = Ok () (w\<lparr>exns := (exns w)(e := None), buffers := ba,
    events := events w @ destruction (exceptionDestructor x) e\<rparr>)"
proof (cases "exceptionDestructor x = 0")
  case True
  from free_block_exn [OF assms(1,2)] show ?thesis using assms(2) True
    by (auto simp: cxa_free_exception_def with_exn_def destruction_def)
next
  case False
  let ?v = "w\<lparr>events := events w @ [Destroyed (exceptionDestructor x) (e + sizeof_exception)]\<rparr>"
  from free_block_exn [OF assms(1), of ?v x] assms(2) obtain ba
    where "free_exception E e ?v = Ok () (?v\<lparr>exns := (exns w)(e := None), buffers := ba\<rparr>)" by auto
  then show ?thesis using assms(2,3) False
    by (intro exI [of _ ba]) (cases w, simp add: cxa_free_exception_def with_exn_def upd_def returns_def destruction_def)
qed

lemma release_shared:
  assumes "exns w e = Some x" and "exception_class_of x = exception_class" and "referenceCount x = of_nat (Suc (Suc k))" and "Suc (Suc k) < 2 ^ 64"
  shows "release E e w = Ok () (w\<lparr>exns := (exns w)(e \<mapsto> x\<lparr>referenceCount := of_nat (Suc k)\<rparr>)\<rparr>)"
proof -
  have "unat (of_nat (Suc k) :: 64 word) = Suc k" using assms(4) by (simp only: unat_of_nat) (simp add: take_bit_nat_eq_self)
  then have "(of_nat (Suc k) :: 64 word) \<noteq> 0" by (metis unat_0 nat.distinct(2))
  moreover have "referenceCount x - 1 = of_nat (Suc k)" using assms(3) by simp
  ultimately show ?thesis using assms(1,2)
    by (simp add: release_def numeral_2_eq_2 with_exn_def set_exn_def ret_def del: of_nat_Suc)
qed

lemma release_last:
  assumes "exns w e = Some x" and "exception_class_of x = exception_class" and "referenceCount x = 1" and "block E e" and "returns E"
  shows "\<exists>ba. release E e w = Ok () (w\<lparr>exns := (exns w)(e := None), buffers := ba,
    events := events w @ destruction (exceptionDestructor x) e\<rparr>)"
  using free_object [OF assms(4), of "w\<lparr>exns := (exns w)(e \<mapsto> x\<lparr>referenceCount := 0\<rparr>)\<rparr>" "x\<lparr>referenceCount := 0\<rparr>"] assms
  by (auto simp: release_def numeral_2_eq_2 with_exn_def set_exn_def)

section \<open>Each operation\<close>

lemma repE:
  assumes "rep E w s" and "0 < owners s e"
  obtains x where "exns w e = Some x" and "exception_class_of x = exception_class" and "exceptionDestructor x = dtor s e"
    and "referenceCount x = of_nat (owners s e)" and "handlerCount x = count_of s e"
    and "foreign w (e + offsetof_unwindHeader) = None" and "block E e" and "e \<noteq> 0" and "e + sizeof_exception \<noteq> 0"
  using headersD [of E w s e] assms unfolding rep_def header_ok_def by blast

lemma rep_simps:
  assumes "rep E w s"
  shows "has_info w" "foreign_exception_state w = Not_foreign" "events w = destroyed s"
    "uncaughtExceptions w = of_nat (length (flight s))" "chain (exns w) (caughtExceptions w) (map fst (stack s))"
    "headers E w s"
  using assms unfolding rep_def by blast+

lemma count_of_Cons [simp]: "count_of (s\<lparr>stack := (e, c, r) # st\<rparr>) e = (if r then - int c else int c)"
  "e' \<noteq> e \<Longrightarrow> count_of (s\<lparr>stack := (e, c, r) # st\<rparr>) e' = count_of (s\<lparr>stack := st\<rparr>) e'"
  by (simp_all add: count_of_def)

lemma count_of_updates [simp]: "count_of (s\<lparr>flight := f\<rparr>) e = count_of s e" "count_of (s\<lparr>refs := r\<rparr>) e = count_of s e"
  "count_of (s\<lparr>dtor := d\<rparr>) e = count_of s e" "count_of (s\<lparr>stack := stack s\<rparr>) e = count_of s e"
  "count_of (s\<lparr>flight := f, stack := st\<rparr>) e = count_of (s\<lparr>stack := st\<rparr>) e"
  "count_of (s\<lparr>stack := st, flight := f\<rparr>) e = count_of (s\<lparr>stack := st\<rparr>) e"
  by (simp_all add: count_of_def)

lemma top_count:
  assumes "stack s = (e, c, r) # st"
  shows "count_of s e = (if r then - int c else int c)" and "e' \<noteq> e \<Longrightarrow> count_of (s\<lparr>stack := st\<rparr>) e' = count_of s e'"
    and "handled s e" and "0 < owners s e"
  using assms by (simp_all add: count_of_def handled_def owners_def)

lemma top_caught:
  assumes "rep E w s" and "stack s = (e, c, r) # st"
  obtains x where "caughtExceptions w = e" and "exns w e = Some x" and "chain (exns w) (nextException x) (map fst st)"
  using rep_simps(5) [OF assms(1)] assms(2) by auto

lemma off_stack_count: "e \<notin> fst ` set (stack s) \<Longrightarrow> count_of s e = 0"
  by (simp add: count_of_def map_of_eq_None_iff [THEN iffD2])

lemma landed: "e \<in> set es \<Longrightarrow> (of_nat (length es) - 1 :: 32 word) = of_nat (length (remove1 e es))"
proof -
  assume e: "e \<in> set es"
  then have "length es = Suc (length (remove1 e es))" using length_pos_if_in_set [OF e] by (simp add: length_remove1)
  then have "(of_nat (length es) :: 32 word) = of_nat (Suc (length (remove1 e es)))" by (rule arg_cong)
  then show ?thesis by simp
qed

lemmas op_defs = perform_def thread_info_def thread_info_fast_def with_class_def with_exn_def set_exn_def exceptionFromPointer_def
  bind_def ret_def upd_def gets_def c_assert_def Let_def

lemma sim_catch_new:
  assumes "rep E w s" and "e \<in> set (flight s)" and "e \<notin> fst ` set (stack s)"
  shows "\<exists>w'. perform E raise (Catch e) w = Ok () w'
    \<and> rep E w' (s\<lparr>flight := remove1 e (flight s), stack := (e, 1, False) # stack s\<rparr>)"
proof -
  let ?s' = "s\<lparr>flight := remove1 e (flight s), stack := (e, 1, False) # stack s\<rparr>"
  have own: "0 < owners s e" "owners ?s' e = owners s e" using assms(2) by (simp_all add: owners_def handled_def)
  obtain x where x: "exns w e = Some x" "exception_class_of x = exception_class" "exceptionDestructor x = dtor s e"
      "referenceCount x = of_nat (owners s e)" "handlerCount x = count_of s e"
      "foreign w (e + offsetof_unwindHeader) = None" "block E e" "e \<noteq> 0" "e + sizeof_exception \<noteq> 0"
    by (rule repE [OF assms(1) own(1)])
  have zero: "handlerCount x = 0" using x(5) off_stack_count [OF assms(3)] by simp
  let ?x = "x\<lparr>nextException := caughtExceptions w, handlerCount := 1\<rparr>"
  let ?w = "w\<lparr>uncaughtExceptions := uncaughtExceptions w - 1, caughtExceptions := e, exns := (exns w)(e \<mapsto> ?x)\<rparr>"
  have run: "perform E raise (Catch e) w = Ok () ?w"
    using x zero rep_simps(1,2) [OF assms(1)]
    by (cases w) (simp add: op_defs cxa_begin_catch_def)
  have others: "others_same e s ?s'" unfolding others_same_def by (simp add: owners_def handled_def)
  have "chain (exns w) (caughtExceptions w) (map fst (stack s))" by (rule rep_simps(5) [OF assms(1)])
  moreover have "e \<notin> set (map fst (stack s))" using assms(3) by simp
  ultimately have "chain (exns ?w) e (e # map fst (stack s))" using chain_upd_notin by simp
  moreover have "header_ok E ?w ?s' e" using x own(2) unfolding header_ok_def by simp
  moreover have "uncaughtExceptions w - 1 = of_nat (length (remove1 e (flight s)))"
    using landed [OF assms(2)] rep_simps(4) [OF assms(1)] by simp
  moreover from calculation(2) have "headers E ?w ?s'"
    by (rule headers_live [OF rep_simps(6) [OF assms(1)] others]) (use own in simp_all)
  ultimately have "rep E ?w ?s'" using rep_simps [OF assms(1)] unfolding rep_def by simp
  with run show ?thesis by blast
qed

lemma sim_catch_again:
  assumes "rep E w s" and "stack_inv s" and "stack s = (e, c, True) # st"
  shows "\<exists>w'. perform E raise (Catch e) w = Ok () w'
    \<and> rep E w' (s\<lparr>flight := remove1 e (flight s), stack := (e, c + 1, False) # st\<rparr>)"
proof -
  let ?s' = "s\<lparr>flight := remove1 e (flight s), stack := (e, c + 1, False) # st\<rparr>"
  note top = top_count [OF assms(3)]
  have fl: "e \<in> set (flight s)" "0 < c" using assms(2,3) by (auto simp: stack_inv_def)
  have own: "owners ?s' e = owners s e" using assms(3) by (simp add: owners_def handled_def)
  obtain x where x: "exns w e = Some x" "exception_class_of x = exception_class" "exceptionDestructor x = dtor s e"
      "referenceCount x = of_nat (owners s e)" "handlerCount x = count_of s e"
      "foreign w (e + offsetof_unwindHeader) = None" "block E e" "e \<noteq> 0" "e + sizeof_exception \<noteq> 0"
    by (rule repE [OF assms(1) top(4)])
  have neg: "handlerCount x = - int c" using x(5) top(1) by simp
  let ?x = "x\<lparr>handlerCount := int c + 1\<rparr>"
  let ?w = "w\<lparr>uncaughtExceptions := uncaughtExceptions w - 1, exns := (exns w)(e \<mapsto> ?x)\<rparr>"
  have run: "perform E raise (Catch e) w = Ok () ?w"
    using x(1,2,6) neg fl(2) rep_simps(1,2) [OF assms(1)] by (cases w) (simp add: op_defs cxa_begin_catch_def)
  have others: "others_same e s ?s'" unfolding others_same_def using assms(3) top(2) by (simp add: owners_def handled_def)
  have "chain (exns ?w) (caughtExceptions w) (map fst (stack s))"
    using rep_simps(5) [OF assms(1)] chain_upd_same [of "exns w" e x ?x] x(1) by simp
  moreover have "header_ok E ?w ?s' e" using x own unfolding header_ok_def by simp
  moreover have "uncaughtExceptions w - 1 = of_nat (length (remove1 e (flight s)))"
    using landed [OF fl(1)] rep_simps(4) [OF assms(1)] by simp
  moreover from calculation(2) have "headers E ?w ?s'"
    by (rule headers_live [OF rep_simps(6) [OF assms(1)] others]) (use own top(4) in simp_all)
  ultimately have "rep E ?w ?s'" using rep_simps [OF assms(1)] assms(3) unfolding rep_def by simp
  with run show ?thesis by blast
qed

text \<open>The three operations that change one count and nothing else share this lemma.\<close>

lemma rep_header_change:
  assumes "rep E w s" and "exns w e = Some x" and "same_protocol x (y\<lparr>referenceCount := referenceCount x, handlerCount := handlerCount x\<rparr>)"
    and "others_same e s s'"
    and "0 < owners s e" and "0 < owners s' e" and "referenceCount y = of_nat (owners s' e)" and "handlerCount y = count_of s' e"
    and "map fst (stack s') = map fst (stack s)" and "dtor s' e = dtor s e" and "destroyed s' = destroyed s"
    and "n = of_nat (length (flight s'))"
  shows "rep E (w\<lparr>uncaughtExceptions := n, exns := (exns w)(e \<mapsto> y)\<rparr>) s'"
proof -
  let ?w = "w\<lparr>uncaughtExceptions := n, exns := (exns w)(e \<mapsto> y)\<rparr>"
  have y: "nextException y = nextException x" "exception_class_of y = exception_class_of x" "exceptionDestructor y = exceptionDestructor x"
    using assms(3) by (simp_all add: same_protocol_def)
  have "header_ok E w s e" by (rule headersD [OF rep_simps(6) [OF assms(1)] assms(5)])
  then have "header_ok E ?w s' e" using assms(2,7,8,10) y unfolding header_ok_def by simp
  then have "headers E ?w s'" by (rule headers_live [OF rep_simps(6) [OF assms(1)] assms(4)]) (use assms(6) in simp_all)
  then show ?thesis using rep_simps [OF assms(1)] assms(9,11,12) chain_upd_same [of "exns w" e x y] assms(2) y(1)
    unfolding rep_def by simp
qed

lemma sim_end_inner:
  assumes "rep E w s" and "stack s = (e, Suc (Suc c), r) # st"
  shows "\<exists>w'. perform E raise End_catch w = Ok () w' \<and> rep E w' (s\<lparr>stack := (e, Suc c, r) # st\<rparr>)"
proof -
  let ?s' = "s\<lparr>stack := (e, Suc c, r) # st\<rparr>"
  note top = top_count [OF assms(2)]
  obtain x where x: "exns w e = Some x" "handlerCount x = count_of s e" "referenceCount x = of_nat (owners s e)" "e \<noteq> 0"
    by (rule repE [OF assms(1) top(4)])
  let ?x = "x\<lparr>handlerCount := if r then - int (Suc c) else int (Suc c)\<rparr>"
  have caught: "caughtExceptions w = e" by (rule top_caught [OF assms])
  have "perform E raise End_catch w = Ok () (w\<lparr>exns := (exns w)(e \<mapsto> ?x)\<rparr>)"
    using x top(1) caught rep_simps(1,2) [OF assms(1)] by (cases r) (simp_all add: op_defs cxa_end_catch_def)
  moreover have "rep E (w\<lparr>uncaughtExceptions := uncaughtExceptions w, exns := (exns w)(e \<mapsto> ?x)\<rparr>) ?s'"
  proof (rule rep_header_change [OF assms(1) x(1)])
    show "others_same e s ?s'" unfolding others_same_def using assms(2) top(2) by (simp add: owners_def handled_def)
    show "0 < owners ?s' e" by (simp add: owners_def handled_def)
    show "referenceCount ?x = of_nat (owners ?s' e)" using x(3) assms(2) by (simp add: owners_def handled_def)
  qed (use top(4) assms(2) rep_simps(4) [OF assms(1)] in \<open>simp_all add: same_protocol_def\<close>)
  ultimately show ?thesis by auto
qed

text \<open>Popping the stack; what remains of the exception is the owners it has left.\<close>

lemma rep_pop:
  assumes "rep E w s" and "stack_inv s" and "stack s = (e, c, r) # st" and "exns w e = Some x"
  shows "chain ((exns w)(e := y)) (nextException x) (map fst st)"
    and "others_same e s (s\<lparr>stack := st\<rparr>)"
    and "count_of (s\<lparr>stack := st\<rparr>) e = 0"
proof -
  have ne: "e \<notin> set (map fst st)" using assms(2,3) by (simp add: stack_inv_def)
  obtain x' where "exns w e = Some x'" "chain (exns w) (nextException x') (map fst st)" by (rule top_caught [OF assms(1,3)])
  then show "chain ((exns w)(e := y)) (nextException x) (map fst st)" using assms(4) ne chain_upd_notin [of e "map fst st"] by simp
  show "others_same e s (s\<lparr>stack := st\<rparr>)"
    unfolding others_same_def using assms(3) top_count(2) [OF assms(3)] by (simp add: owners_def handled_def)
  show "count_of (s\<lparr>stack := st\<rparr>) e = 0" using ne by (intro off_stack_count) simp
qed

lemma sim_end_rethrown:
  assumes "rep E w s" and "stack_inv s" and "stack s = (e, Suc 0, True) # st"
  shows "\<exists>w'. perform E raise End_catch w = Ok () w' \<and> rep E w' (s\<lparr>stack := st\<rparr>)"
proof -
  let ?s' = "s\<lparr>stack := st\<rparr>"
  note top = top_count [OF assms(3)]
  obtain x where x: "exns w e = Some x" "exception_class_of x = exception_class" "exceptionDestructor x = dtor s e"
      "referenceCount x = of_nat (owners s e)" "handlerCount x = count_of s e"
      "foreign w (e + offsetof_unwindHeader) = None" "block E e" "e \<noteq> 0" "e + sizeof_exception \<noteq> 0"
    by (rule repE [OF assms(1) top(4)])
  let ?x = "x\<lparr>handlerCount := 0\<rparr>"
  let ?w = "w\<lparr>exns := (exns w)(e \<mapsto> ?x), caughtExceptions := nextException x\<rparr>"
  have caught: "caughtExceptions w = e" by (rule top_caught [OF assms(1,3)])
  have run: "perform E raise End_catch w = Ok () ?w"
    using x(1,5,8) top(1) caught rep_simps(1,2) [OF assms(1)] by (simp add: op_defs cxa_end_catch_def)
  note pop = rep_pop [OF assms(1,2,3) x(1)]
  have "e \<in> set (flight s)" using assms(2,3) by (simp add: stack_inv_def)
  then have own: "owners ?s' e = owners s e" using assms(3) by (simp add: owners_def handled_def)
  then have "header_ok E ?w ?s' e" using x pop(3) unfolding header_ok_def by simp
  then have "headers E ?w ?s'" by (rule headers_live [OF rep_simps(6) [OF assms(1)] pop(2)]) (use own top(4) in simp_all)
  then have "rep E ?w ?s'" using rep_simps [OF assms(1)] pop(1) unfolding rep_def by simp
  with run show ?thesis by blast
qed

lemma owners_Suc: "handled s e \<Longrightarrow> owners s e = Suc (refs s e)"
  by (simp add: owners_def)

lemma sim_end_outer:
  assumes "rep E w s" and "stack_inv s" and "bounded s" and "returns E" and "stack s = (e, Suc 0, False) # st"
  shows "\<exists>w'. perform E raise End_catch w = Ok () w' \<and> rep E w' (forget e (s\<lparr>stack := st\<rparr>))"
proof -
  let ?s' = "s\<lparr>stack := st\<rparr>"
  note top = top_count [OF assms(5)]
  obtain x where x: "exns w e = Some x" "exception_class_of x = exception_class" "exceptionDestructor x = dtor s e"
      "referenceCount x = of_nat (owners s e)" "handlerCount x = count_of s e"
      "foreign w (e + offsetof_unwindHeader) = None" "block E e" "e \<noteq> 0" "e + sizeof_exception \<noteq> 0"
    by (rule repE [OF assms(1) top(4)])
  let ?x = "x\<lparr>handlerCount := 0\<rparr>"
  let ?v = "w\<lparr>exns := (exns w)(e \<mapsto> ?x), caughtExceptions := nextException x\<rparr>"
  have caught: "caughtExceptions w = e" by (rule top_caught [OF assms(1,5)])
  have run: "perform E raise End_catch w = release E e ?v"
    using x(1,5,8) top(1) caught rep_simps(1,2) [OF assms(1)] by (simp add: op_defs cxa_end_catch_def)
  note pop = rep_pop [OF assms(1,2,5) x(1)]
  have "\<not> handled ?s' e" using assms(2,5) by (auto simp: stack_inv_def handled_def)
  then have own: "owners ?s' e = refs s e" "owners s e = Suc (refs s e)" using top(3) by (simp_all add: owners_def)
  show ?thesis
  proof (cases "refs s e")
    case 0
    then have "referenceCount ?x = 1" using x(4) own(2) by simp
    from release_last [of ?v e ?x E] this x assms(4) obtain ba where rel: "release E e ?v = Ok () (?v\<lparr>exns := (exns ?v)(e := None),
        buffers := ba, events := events w @ destruction (dtor s e) e\<rparr>)" by auto
    let ?w = "?v\<lparr>exns := (exns ?v)(e := None), buffers := ba, events := events w @ destruction (dtor s e) e\<rparr>"
    have "headers E ?w ?s'"
      by (rule headers_upd [OF rep_simps(6) [OF assms(1)] pop(2), of _ None]) (use own(1) 0 in simp_all)
    then have "rep E ?w (?s'\<lparr>destroyed := destroyed s @ destruction (dtor s e) e\<rparr>)"
      using rep_simps [OF assms(1)] pop(1) [of None] unfolding rep_def by simp
    with run rel show ?thesis using own(1) 0 by (simp add: forget_def)
  next
    case (Suc k)
    have "Suc (Suc k) < 2 ^ 64" using assms(3) own(2) Suc by (metis bounded_def)
    with release_shared [of ?v e ?x k E] x own(2) Suc have rel: "release E e ?v = Ok () (?v\<lparr>exns := (exns ?v)(e \<mapsto> ?x\<lparr>referenceCount := of_nat (Suc k)\<rparr>)\<rparr>)"
      by simp
    let ?y = "?x\<lparr>referenceCount := of_nat (Suc k)\<rparr>"
    let ?w = "?v\<lparr>exns := (exns ?v)(e \<mapsto> ?y)\<rparr>"
    have "header_ok E ?w ?s' e" using x pop(3) own(1) Suc unfolding header_ok_def by simp
    then have "headers E ?w ?s'" by (rule headers_live [OF rep_simps(6) [OF assms(1)] pop(2), of _ ?y]) (use own(1) Suc in simp_all)
    then have "rep E ?w ?s'" using rep_simps [OF assms(1)] pop(1) [of "Some ?y"] unfolding rep_def by simp
    with run rel show ?thesis using own(1) Suc by (simp add: forget_def)
  qed
qed

lemma unwindsD:
  assumes "unwinds raise" and "exns w e = Some x"
  obtains y where "same_protocol x y" and "raise (e + offsetof_unwindHeader) w = Ok None (w\<lparr>exns := (exns w)(e \<mapsto> y)\<rparr>)"
  using assms unfolding unwinds_def by blast

lemma sim_rethrow:
  assumes "rep E w s" and "stack_inv s" and "unwinds raise" and "stack s = (e, c, False) # st"
  shows "\<exists>w'. perform E raise Rethrow w = Ok () w' \<and> rep E w' (s\<lparr>stack := (e, c, True) # st, flight := e # flight s\<rparr>)"
proof -
  let ?s' = "s\<lparr>stack := (e, c, True) # st, flight := e # flight s\<rparr>"
  note top = top_count [OF assms(4)]
  have c: "0 < c" using assms(2,4) by (simp add: stack_inv_def)
  obtain x where x: "exns w e = Some x" "handlerCount x = count_of s e" "referenceCount x = of_nat (owners s e)" "e \<noteq> 0"
    by (rule repE [OF assms(1) top(4)])
  let ?x = "x\<lparr>handlerCount := - int c\<rparr>"
  let ?v = "w\<lparr>uncaughtExceptions := uncaughtExceptions w + 1, exns := (exns w)(e \<mapsto> ?x)\<rparr>"
  have "exns ?v e = Some ?x" by simp
  from unwindsD [OF assms(3) this] obtain y where y: "same_protocol ?x y"
    "raise (e + offsetof_unwindHeader) ?v = Ok None (?v\<lparr>exns := (exns ?v)(e \<mapsto> y)\<rparr>)" by metis
  have caught: "caughtExceptions w = e" by (rule top_caught [OF assms(1,4)])
  have hc: "handlerCount x = int c" using x(2) top(1) by simp
  have run: "perform E raise Rethrow w = Ok () (w\<lparr>uncaughtExceptions := uncaughtExceptions w + 1, exns := (exns w)(e \<mapsto> y)\<rparr>)"
    using x(1,4) hc caught rep_simps(1,2) [OF assms(1)] c y(2) by (simp add: op_defs cxa_rethrow_def)
  have "rep E (w\<lparr>uncaughtExceptions := uncaughtExceptions w + 1, exns := (exns w)(e \<mapsto> y)\<rparr>) ?s'"
  proof (rule rep_header_change [OF assms(1) x(1)])
    show "others_same e s ?s'" unfolding others_same_def using assms(4) top(2) by (simp add: owners_def handled_def)
    show "0 < owners ?s' e" by (simp add: owners_def handled_def)
    show "referenceCount y = of_nat (owners ?s' e)" using x(3) assms(4) y(1) by (simp add: owners_def handled_def same_protocol_def)
  qed (use top(4) assms(4) rep_simps(4) [OF assms(1)] y(1) in \<open>simp_all add: same_protocol_def\<close>)
  with run show ?thesis by blast
qed

lemma rep_refs:
  assumes "rep E w s" and "exns w e = Some x" and "0 < owners s e" and "owners (s\<lparr>refs := (refs s)(e := n)\<rparr>) e = k" and "0 < k"
    and "handlerCount x = count_of s e"
  shows "rep E (w\<lparr>exns := (exns w)(e \<mapsto> x\<lparr>referenceCount := of_nat k\<rparr>)\<rparr>) (s\<lparr>refs := (refs s)(e := n)\<rparr>)"
proof -
  let ?x = "x\<lparr>referenceCount := of_nat k\<rparr>" and ?s' = "s\<lparr>refs := (refs s)(e := n)\<rparr>"
  have "rep E (w\<lparr>uncaughtExceptions := uncaughtExceptions w, exns := (exns w)(e \<mapsto> ?x)\<rparr>) ?s'"
  proof (rule rep_header_change [OF assms(1,2)])
    show "others_same e s ?s'" unfolding others_same_def by (simp add: owners_def handled_def)
  qed (use assms(3-6) rep_simps(4) [OF assms(1)] in \<open>simp_all add: same_protocol_def\<close>)
  then show ?thesis by simp
qed

lemma owners_add [simp]: "owners (s\<lparr>refs := (refs s)(e := refs s e + 1)\<rparr>) e = owners s e + 1"
  by (simp add: owners_def handled_def)

lemma sim_current:
  assumes "rep E w s" and "stack s = (e, c, r) # st"
  shows "\<exists>w'. perform E raise Current w = Ok () w' \<and> rep E w' (s\<lparr>refs := (refs s)(e := refs s e + 1)\<rparr>)"
proof -
  note top = top_count [OF assms(2)]
  obtain x where x: "exns w e = Some x" "exception_class_of x = exception_class" "handlerCount x = count_of s e"
      "referenceCount x = of_nat (owners s e)" "e \<noteq> 0"
    by (rule repE [OF assms(1) top(4)])
  have caught: "caughtExceptions w = e" by (rule top_caught [OF assms])
  have "perform E raise Current w = Ok () (w\<lparr>exns := (exns w)(e \<mapsto> x\<lparr>referenceCount := of_nat (owners s e + 1)\<rparr>)\<rparr>)"
    using x caught rep_simps(1) [OF assms(1)]
    by (simp add: op_defs cxa_current_primary_exception_def realExceptionFromException_def add.commute)
  with rep_refs [OF assms(1) x(1) top(4) owners_add _ x(3)] show ?thesis by fastforce
qed

lemma sim_add_ref:
  assumes "rep E w s" and "0 < refs s e"
  shows "\<exists>w'. perform E raise (Add_ref e) w = Ok () w' \<and> rep E w' (s\<lparr>refs := (refs s)(e := refs s e + 1)\<rparr>)"
proof -
  have own: "0 < owners s e" using assms(2) by (simp add: owners_def)
  obtain x where x: "exns w e = Some x" "exception_class_of x = exception_class" "handlerCount x = count_of s e"
      "referenceCount x = of_nat (owners s e)" "e + sizeof_exception \<noteq> 0"
    by (rule repE [OF assms(1) own])
  have "perform E raise (Add_ref e) w = Ok () (w\<lparr>exns := (exns w)(e \<mapsto> x\<lparr>referenceCount := of_nat (owners s e + 1)\<rparr>)\<rparr>)"
    using x by (simp add: op_defs cxa_increment_exception_refcount_def add.commute)
  with rep_refs [OF assms(1) x(1) own owners_add _ x(3)] show ?thesis by fastforce
qed

lemma sim_drop_ref:
  assumes "rep E w s" and "stack_inv s" and "bounded s" and "returns E" and "0 < refs s e"
  shows "\<exists>w'. perform E raise (Drop_ref e) w = Ok () w' \<and> rep E w' (forget e (s\<lparr>refs := (refs s)(e := refs s e - 1)\<rparr>))"
proof -
  let ?s' = "s\<lparr>refs := (refs s)(e := refs s e - 1)\<rparr>"
  have own: "0 < owners s e" using assms(5) by (simp add: owners_def)
  have own': "owners s e = Suc (owners ?s' e)" using assms(5) by (simp add: owners_def handled_def)
  obtain x where x: "exns w e = Some x" "exception_class_of x = exception_class" "exceptionDestructor x = dtor s e"
      "referenceCount x = of_nat (owners s e)" "handlerCount x = count_of s e" "block E e" "e + sizeof_exception \<noteq> 0"
    by (rule repE [OF assms(1) own])
  have run: "perform E raise (Drop_ref e) w = release E e w" 
    using x(7) by (simp add: perform_def cxa_decrement_exception_refcount_def)
  show ?thesis
  proof (cases "owners ?s' e")
    case 0
    then have "referenceCount x = 1" "\<not> handled s e" using x(4) own' by (simp_all add: owners_def handled_def split: if_splits)
    from release_last [OF x(1,2) this(1) x(6) assms(4)] x(3) obtain ba where rel: "release E e w = Ok () (w\<lparr>exns := (exns w)(e := None),
        buffers := ba, events := events w @ destruction (dtor s e) e\<rparr>)" by auto
    let ?w = "w\<lparr>exns := (exns w)(e := None), buffers := ba, events := events w @ destruction (dtor s e) e\<rparr>"
    have "headers E ?w ?s'"
      by (rule headers_upd [OF rep_simps(6) [OF assms(1)], of e _ _ None])
         (use 0 in \<open>simp_all add: owners_def handled_def others_same_def\<close>)
    moreover have "e \<notin> set (map fst (stack s))" using \<open>\<not> handled s e\<close> by (simp add: handled_def)
    ultimately have "rep E ?w (?s'\<lparr>destroyed := destroyed s @ destruction (dtor s e) e\<rparr>)"
      using rep_simps [OF assms(1)] chain_upd_notin [of e "map fst (stack s)"] unfolding rep_def by simp
    with run rel 0 show ?thesis by (simp add: forget_def)
  next
    case (Suc k)
    have "owners s e < 2 ^ 64" using assms(3) by (simp add: bounded_def)
    then have "release E e w = Ok () (w\<lparr>exns := (exns w)(e \<mapsto> x\<lparr>referenceCount := of_nat (Suc k)\<rparr>)\<rparr>)"
      using x(4) own' Suc by (intro release_shared [OF x(1,2)]) (simp_all del: of_nat_Suc)
    with run rep_refs [OF assms(1) x(1) own _ _ x(5), of "refs s e - 1" "Suc k"] Suc show ?thesis by (simp add: forget_def)
  qed
qed

lemma sim_throw:
  assumes "rep E w s" and "stack_inv s" and "unwinds raise" and "allocated E w e" and "owners s e = 0"
  shows "\<exists>w'. perform E raise (Throw e d) w = Ok () w' \<and> rep E w' (s\<lparr>flight := e # flight s, dtor := (dtor s)(e := d)\<rparr>)"
proof -
  let ?s' = "s\<lparr>flight := e # flight s, dtor := (dtor s)(e := d)\<rparr>"
  have new: "\<not> handled s e" "refs s e = 0" using assms(5) by (simp_all add: owners_def split: if_splits)
  have own: "owners ?s' e = 1" using new by (simp add: owners_def handled_def)
  have off: "count_of ?s' e = 0" using new(1) off_stack_count [of e s] by (simp add: handled_def)
  define x where "x = zero_exception\<lparr>referenceCount := 1, exceptionDestructor := d, exception_class_of := exception_class,
    exception_cleanup_of := exception_cleanup E,
    ex_unexpectedHandler := (let own = thread_infos (in_force E) (thread_id E) in
       if unexpectedHandler_of own = 0 then unexpectedHandler (in_force E) else unexpectedHandler_of own),
    ex_terminateHandler := (let own = thread_infos (in_force E) (thread_id E) in
       if terminateHandler_of own = 0 then terminateHandler (in_force E) else terminateHandler_of own)\<rparr>"
  let ?v = "w\<lparr>exns := (exns w)(e \<mapsto> x), uncaughtExceptions := uncaughtExceptions w + 1\<rparr>"
  have "exns ?v e = Some x" by simp
  from unwindsD [OF assms(3) this] obtain y where y: "same_protocol x y"
    "raise (e + offsetof_unwindHeader) ?v = Ok None (?v\<lparr>exns := (exns ?v)(e \<mapsto> y)\<rparr>)" by metis
  let ?w = "?v\<lparr>exns := (exns ?v)(e \<mapsto> y)\<rparr>"
  have "perform E raise (Throw e d) w = bind (raise (e + offsetof_unwindHeader)) (\<lambda>err. case err of None \<Rightarrow> ret () | Some c \<Rightarrow> report_failure E c e) ?v"
    using assms(4) rep_simps(1) [OF assms(1)] unfolding x_def
    by (simp add: op_defs allocated_def cxa_throw_def cxa_init_primary_exception_def throw_exception_def zero_exception_def)
  then have run: "perform E raise (Throw e d) w = Ok () ?w" using y(2) by (simp add: bind_def ret_def)
  have others: "others_same e s ?s'" unfolding others_same_def by (simp add: owners_def handled_def count_of_def)
  have "header_ok E ?w ?s' e" using assms(4) y(1) own off unfolding header_ok_def allocated_def same_protocol_def x_def
    by (simp add: zero_exception_def)
  moreover have "chain (exns ?w) (caughtExceptions w) (map fst (stack s))"
    using rep_simps(5) [OF assms(1)] new(1) chain_upd_notin [of e "map fst (stack s)"] by (simp add: handled_def)
  moreover from calculation(1) have "headers E ?w ?s'"
    by (rule headers_live [OF rep_simps(6) [OF assms(1)] others]) (use own in simp_all)
  ultimately have "rep E ?w ?s'" using rep_simps [OF assms(1)] unfolding rep_def by simp
  with run show ?thesis by blast
qed

lemma simulation:
  assumes "spec_step s a s'" and "rep E w s" and "stack_inv s" and "bounded s" and "returns E" and "unwinds raise"
    and "\<And>e d. a = Throw e d \<Longrightarrow> allocated E w e"
  shows "\<exists>w'. perform E raise a w = Ok () w' \<and> rep E w' s'"
  using assms
proof (induction rule: spec_step.induct)
  case (throw s e d)
  then show ?case using sim_throw by blast
next
  case (catch_new e s)
  then show ?case using sim_catch_new by blast
next
  case (catch_again s e c st)
  then show ?case using sim_catch_again by blast
next
  case (end_inner s e c r st)
  then show ?case using sim_end_inner by blast
next
  case (end_outer s e st)
  then show ?case using sim_end_outer by blast
next
  case (end_rethrown s e st)
  then show ?case using sim_end_rethrown by blast
next
  case (rethrow s e c st)
  then show ?case using sim_rethrow by blast
next
  case (current s e c r st)
  then show ?case using sim_current by blast
next
  case (add_ref s e)
  then show ?case using sim_add_ref by blast
next
  case (drop_ref s e)
  then show ?case using sim_drop_ref by blast
qed

section \<open>Programs\<close>

text \<open>What \<open>calloc\<close> documents of an address it returns, for the part of memory the model has.\<close>

definition fresh :: "outside \<Rightarrow> world \<Rightarrow> ptr \<Rightarrow> bool" where
  "fresh E w e \<longleftrightarrow> exns w e = None \<and> foreign w (e + offsetof_unwindHeader) = None \<and> block E e \<and> e \<noteq> 0 \<and> e + sizeof_exception \<noteq> 0"

definition start_world :: world where
  "start_world = \<lparr>exns = (\<lambda>e. None), foreign = (\<lambda>p. None), has_info = True, caughtExceptions = 0, uncaughtExceptions = 0,
     foreign_exception_state = Not_foreign, emergencyBuffersHeld = 0, buffers = replicate 16 False, callocs = 0, events = []\<rparr>"

text \<open>A program allocates exceptions and does what the abstract machine allows.\<close>

inductive reach :: "outside \<Rightarrow> (ptr \<Rightarrow> Unwind_Reason_Code option X) \<Rightarrow> world \<Rightarrow> spec \<Rightarrow> bool" for E raise where
  start: "reach E raise start_world spec_start"
| allocate: "reach E raise w s \<Longrightarrow> calloc E (callocs w) (sz + sizeof_exception) = Some e \<Longrightarrow> fresh E w e
    \<Longrightarrow> cxa_allocate_exception E sz w = Ok p w' \<Longrightarrow> reach E raise w' s"
| act: "reach E raise w s \<Longrightarrow> spec_step s a s' \<Longrightarrow> (\<And>e d. a = Throw e d \<Longrightarrow> allocated E w e)
    \<Longrightarrow> perform E raise a w = Ok () w' \<Longrightarrow> reach E raise w' s'"

lemma allocate_effect:
  assumes "calloc E (callocs w) (sz + sizeof_exception) = Some e"
  shows "cxa_allocate_exception E sz w = Ok (e + sizeof_exception) (w\<lparr>callocs := callocs w + 1, exns := (exns w)(e \<mapsto> zero_exception)\<rparr>)"
  using assms by (simp add: cxa_allocate_exception_def alloc_or_die_def do_calloc_def bind_def ret_def upd_def)

lemma allocate_rep:
  assumes "rep E w s" and "fresh E w e"
  shows "rep E (w\<lparr>callocs := n, exns := (exns w)(e \<mapsto> zero_exception)\<rparr>) s"
proof -
  let ?w = "w\<lparr>callocs := n, exns := (exns w)(e \<mapsto> zero_exception)\<rparr>"
  have none: "owners s e = 0" using repE [OF assms(1), of e] assms(2) by (fastforce simp: fresh_def)
  then have "e \<notin> set (map fst (stack s))" by (simp add: owners_def handled_def split: if_splits)
  moreover have "headers E ?w s"
    by (rule headers_upd [OF rep_simps(6) [OF assms(1)], of e _ _ "Some zero_exception"])
       (use none in \<open>simp_all add: zero_exception_def others_same_def\<close>)
  ultimately show ?thesis using rep_simps [OF assms(1)] chain_upd_notin [of e "map fst (stack s)"] unfolding rep_def by simp
qed

lemma start_rep: "rep E start_world spec_start"
  by (simp add: rep_def headers_def start_world_def spec_start_def owners_def handled_def)

lemma reach_rep:
  assumes "reach E raise w s" and "returns E" and "unwinds raise"
  shows "rep E w s \<and> stack_inv s \<and> bounded s"
  using assms
proof (induction rule: reach.induct)
  case start
  show ?case using start_rep by (simp add: stack_inv_def bounded_def spec_start_def owners_def handled_def)
next
  case (allocate w s sz e p w')
  then show ?case using allocate_effect [of E w sz e] allocate_rep [of E w s e] by auto
next
  case (act w s a s' w')
  then show ?case using simulation [of s a s' E w raise] stack_inv_step bounded_step by fastforce
qed

text \<open>In every step at most one exception loses its last owner, and its destruction is the only one.\<close>

definition destroys_last :: "spec \<Rightarrow> spec \<Rightarrow> bool" where
  "destroys_last s s' \<longleftrightarrow> (destroyed s' = destroyed s \<and> (\<forall>e. 0 < owners s e \<longrightarrow> 0 < owners s' e))
    \<or> (\<exists>e. destroyed s' = destroyed s @ destruction (dtor s e) e \<and> 0 < owners s e \<and> owners s' e = 0
          \<and> (\<forall>e'. e' \<noteq> e \<longrightarrow> owners s' e' = owners s e'))"

lemma forget_destroys:
  assumes "\<And>e'. e' \<noteq> e \<Longrightarrow> owners s' e' = owners s e'" and "0 < owners s e" and "dtor s' = dtor s" and "destroyed s' = destroyed s"
  shows "destroys_last s (forget e s')"
proof (cases "owners s' e = 0")
  case True
  then have "destroyed (forget e s') = destroyed s @ destruction (dtor s e) e" using assms(3,4) by (simp add: forget_def)
  then show ?thesis using True assms(1,2) unfolding destroys_last_def by (intro disjI2 exI [of _ e]) simp
next
  case False
  then have "destroyed (forget e s') = destroyed s" using assms(4) by (simp add: forget_def)
  moreover have "0 < owners s' e'" if "0 < owners s e'" for e' using that False assms(1) [of e'] by (cases "e' = e") simp_all
  ultimately show ?thesis unfolding destroys_last_def by simp
qed

lemma spec_step_destroys: "spec_step s a s' \<Longrightarrow> stack_inv s \<Longrightarrow> destroys_last s s'"
proof (induction rule: spec_step.induct)
  case (end_outer s e st)
  then show ?case by (intro forget_destroys) (simp_all add: owners_def handled_def)
next
  case (drop_ref s e)
  then show ?case by (intro forget_destroys) (simp_all add: owners_def handled_def)
qed (auto simp: owners_def handled_def destroys_last_def stack_inv_def)

section \<open>Properties\<close>

definition top_exception :: "spec \<Rightarrow> ptr" where
  "top_exception s = (case stack s of [] \<Rightarrow> 0 | (e, c, r) # st \<Rightarrow> e)"

lemma rep_top: "rep E w s \<Longrightarrow> caughtExceptions w = top_exception s"
  using rep_simps(5) [of E w s] by (cases "stack s") (auto simp: top_exception_def)

lemma reach_act:
  assumes "reach E raise w s" and "returns E" and "unwinds raise" and "spec_step s a s'" and "\<And>e d. a = Throw e d \<Longrightarrow> allocated E w e"
  obtains w' where "perform E raise a w = Ok () w'" and "reach E raise w' s'" and "rep E w' s'"
proof -
  have "rep E w s" "stack_inv s" "bounded s" using reach_rep [OF assms(1-3)] by blast+
  from simulation [OF assms(4) this assms(2,3)] assms(5) obtain w' where "perform E raise a w = Ok () w'" "rep E w' s'" by blast
  with that reach.act [OF assms(1,4), of w'] assms(5) show thesis by blast
qed


lemma rep_live: "rep E w s \<Longrightarrow> 0 < owners s e \<longleftrightarrow> (\<exists>x. exns w e = Some x \<and> exception_class_of x = exception_class)"
proof -
  assume r: "rep E w s"
  have nz: "exception_class \<noteq> 0" by (simp add: exception_class_def EXCEPTION_CLASS_def)
  show ?thesis
  proof (cases "0 < owners s e")
    case True
    then show ?thesis using headersD [OF rep_simps(6) [OF r] True] by (auto simp: header_ok_def)
  next
    case False
    then show ?thesis using rep_simps(6) [OF r] nz unfolding headers_def by fastforce
  qed
qed

text \<open>
  C2. An exception object is destroyed exactly when it loses its last owner: not in flight, in no handler and in
  no \<open>exception_ptr\<close>. No step destroys anything else or anything twice; the thrown exceptions that are
  allocated are those with an owner, so none leaks and none is used after it is freed.
\<close>

theorem exception_destroyed_with_last_owner:
  assumes "reach E raise w s" and "returns E" and "unwinds raise" and "spec_step s a s'" and "perform E raise a w = Ok () w'"
    and "\<And>e d. a = Throw e d \<Longrightarrow> allocated E w e"
  shows "(\<forall>e. 0 < owners s' e \<longleftrightarrow> (\<exists>x. exns w' e = Some x \<and> exception_class_of x = exception_class))
    \<and> ((events w' = events w \<and> (\<forall>e. 0 < owners s e \<longrightarrow> 0 < owners s' e))
      \<or> (\<exists>e. events w' = events w @ (if dtor s e = 0 then [] else [Destroyed (dtor s e) (e + sizeof_exception)])
            \<and> 0 < owners s e \<and> owners s' e = 0 \<and> (\<forall>e'. e' \<noteq> e \<longrightarrow> owners s' e' = owners s e')))"
proof -
  obtain v where "perform E raise a w = Ok () v" "reach E raise v s'" "rep E v s'"
    by (rule reach_act [OF assms(1-4)]) (use assms(6) in blast)+
  then have r': "rep E w' s'" using assms(5) by simp
  have r: "rep E w s" "stack_inv s" using reach_rep [OF assms(1-3)] by blast+
  from spec_step_destroys [OF assms(4) r(2)] show ?thesis
    unfolding destroys_last_def destruction_def rep_simps(3) [OF r', symmetric] rep_simps(3) [OF r(1), symmetric]
    using rep_live [OF r'] by blast
qed

section \<open>A program\<close>

definition sample_env :: outside where
  "sample_env = \<lparr>calloc = (\<lambda>n sz. Some (4096 * of_nat (n + 1))), emergency_buffer = 0x100000, destructor_returns = (\<lambda>f p. True),
     exception_cleanup = 1, dependent_exception_cleanup = 2, thread_id = 0, in_force = initial_handlers 3 4\<rparr>"

definition sample_raise :: "ptr \<Rightarrow> Unwind_Reason_Code option X" where
  "sample_raise p = ret None"

definition sample_world :: world where
  "sample_world = start_world\<lparr>callocs := 1, exns := [4096 \<mapsto> zero_exception]\<rparr>"

definition sample_flight :: spec where
  "sample_flight = spec_start\<lparr>flight := [4096], dtor := (\<lambda>e. 0)(4096 := 7)\<rparr>"

definition sample_caught :: spec where
  "sample_caught = sample_flight\<lparr>flight := [], stack := [(4096, 1, False)]\<rparr>"

lemma sample_returns: "returns sample_env"
  by (simp add: returns_def sample_env_def)

lemma sample_unwinds: "unwinds sample_raise"
  unfolding unwinds_def sample_raise_def ret_def
proof (intro allI impI)
  fix w :: world and e x
  assume "exns w e = Some x"
  then have "w = w\<lparr>exns := (exns w)(e \<mapsto> x)\<rparr>" by (simp add: fun_upd_idem)
  then show "\<exists>y. same_protocol x y \<and> Ok None w = Ok None (w\<lparr>exns := (exns w)(e \<mapsto> y)\<rparr>)" by (auto simp: same_protocol_def)
qed

lemma sample_reach: "reach sample_env sample_raise sample_world spec_start"
proof (rule reach.allocate [OF reach.start, of _ 4 4096 "4096 + sizeof_exception"])
  show "calloc sample_env (callocs start_world) (4 + sizeof_exception) = Some 4096" by (simp add: sample_env_def start_world_def)
  then show "cxa_allocate_exception sample_env 4 start_world = Ok (4096 + sizeof_exception) sample_world"
    using allocate_effect [of sample_env start_world 4 4096] by (simp add: sample_world_def start_world_def)
  show "fresh sample_env start_world 4096" by (simp add: fresh_def block_def start_world_def sample_env_def)
qed

lemma sample_allocated: "allocated sample_env sample_world 4096"
  by (simp add: allocated_def sample_world_def start_world_def block_def sample_env_def)

lemma sample_throw: "spec_step spec_start (Throw 4096 7) sample_flight"
  using spec_step.throw [of spec_start 4096 7] by (simp add: sample_flight_def spec_start_def owners_def handled_def)

lemma sample_catch: "spec_step sample_flight (Catch 4096) sample_caught"
  using spec_step.catch_new [of 4096 sample_flight] by (simp add: sample_flight_def sample_caught_def spec_start_def)

lemma sample_end: "spec_step sample_caught End_catch (sample_flight\<lparr>flight := [], destroyed := [Destroyed 7 (4096 + sizeof_exception)]\<rparr>)"
  using spec_step.end_outer [of sample_caught 4096 "[]"]
  by (simp add: sample_flight_def sample_caught_def spec_start_def forget_def owners_def handled_def destruction_def)


theorem exception_destroyed_with_last_owner_witness:
  "\<exists>w w'. reach sample_env sample_raise w sample_caught \<and> perform sample_env sample_raise End_catch w = Ok () w'
    \<and> events w' = events w @ [Destroyed 7 (4096 + sizeof_exception)]"
proof -
  obtain w1 where w1: "reach sample_env sample_raise w1 sample_flight"
    by (rule reach_act [OF sample_reach sample_returns sample_unwinds sample_throw]) (use sample_allocated in simp)
  obtain w2 where w2: "reach sample_env sample_raise w2 sample_caught"
    by (rule reach_act [OF w1 sample_returns sample_unwinds sample_catch]) simp
  obtain w3 where w3: "perform sample_env sample_raise End_catch w2 = Ok () w3"
    by (rule reach_act [OF w2 sample_returns sample_unwinds sample_end]) simp
  let ?s' = "sample_flight\<lparr>flight := [], destroyed := [Destroyed 7 (4096 + sizeof_exception)]\<rparr>"
  have gone: "owners ?s' e = 0" "0 < owners sample_caught e \<longleftrightarrow> e = 4096" "dtor sample_caught 4096 = 7" for e
    by (auto simp: owners_def handled_def sample_flight_def sample_caught_def spec_start_def)
  from exception_destroyed_with_last_owner [OF w2 sample_returns sample_unwinds sample_end w3] gone
  have "events w3 = events w2 @ [Destroyed 7 (4096 + sizeof_exception)]" by auto
  with w2 w3 show ?thesis by blast
qed

end
