(* ===== verification/Exception_Pointers.thy ===== *)
theory Exception_Pointers
  imports Exception_Protocol
begin

text \<open>
  \<open>exception_ptr\<close> support of \<open>exception.cc\<close> through dependent exceptions, and what the runtime does at
  its edges: the end of a thread, memory exhaustion and foreign exceptions.
\<close>

section \<open>Dependent exceptions\<close>

text \<open>The header of the dependent exception when it is handed to the unwind library.\<close>

definition dependent_header :: "outside \<Rightarrow> ptr \<Rightarrow> ptr \<Rightarrow> cxa_exception" where
  "dependent_header E primary ti =
     (let own = thread_infos (in_force E) (thread_id E) in
      zero_exception\<lparr>referenceCount := primary, exceptionType := ti, exception_class_of := dependent_exception_class,
        exception_cleanup_of := dependent_exception_cleanup E,
        ex_unexpectedHandler := (if unexpectedHandler_of own = 0 then unexpectedHandler (in_force E) else unexpectedHandler_of own),
        ex_terminateHandler := (if terminateHandler_of own = 0 then terminateHandler (in_force E) else terminateHandler_of own)\<rparr>)"

lemma dependent_class [simp]: "isDependentException dependent_exception_class" "isCXXException dependent_exception_class"
  by (simp_all add: isDependentException_def isCXXException_def)

lemma rethrow_primary_effect:
  assumes "exns w p = Some x" and "exception_class_of x = exception_class" and "has_info w"
    and "calloc E (callocs w) sizeof_exception = Some d" and "d \<noteq> p" and "d \<noteq> p + 32" and "exns w (p + 32) = None" and "p + sizeof_exception \<noteq> 0"
  shows "cxa_rethrow_primary_exception E raise (p + sizeof_exception) w
    = bind (raise (d + offsetof_unwindHeader)) (\<lambda>err. case err of None \<Rightarrow> ret () | Some c \<Rightarrow> report_failure E c d)
        (w\<lparr>callocs := callocs w + 1, uncaughtExceptions := uncaughtExceptions w + 1,
           exns := (exns w)(p \<mapsto> x\<lparr>referenceCount := referenceCount x + 1\<rparr>, d \<mapsto> dependent_header E (p + sizeof_exception) (nextException x))\<rparr>)"
proof -
  have off: "p + sizeof_exception - offsetof_unwindHeader = p + 32" "p + 32 - 32 = p" by simp_all
  let ?w1 = "w\<lparr>callocs := callocs w + 1, exns := (exns w)(d \<mapsto> zero_exception)\<rparr>"
  have alloc: "cxa_allocate_dependent_exception E w = Ok (d + sizeof_exception) ?w1"
    using assms(4) by (simp add: cxa_allocate_dependent_exception_def alloc_or_die_def do_calloc_def bind_def ret_def upd_def)
  have swap: "((exns w)(d \<mapsto> a, p \<mapsto> b, d \<mapsto> c)) = (exns w)(p \<mapsto> b, d \<mapsto> c)" for a b c using assms(5) by (auto simp: fun_upd_def)
  have "cxa_rethrow_primary_exception E raise (p + sizeof_exception) w
      = throw_exception E raise d (w\<lparr>callocs := callocs w + 1, exns := (exns w)(p \<mapsto> x\<lparr>referenceCount := referenceCount x + 1\<rparr>,
          d \<mapsto> zero_exception\<lparr>referenceCount := p + sizeof_exception, exceptionType := nextException x,
            exception_class_of := dependent_exception_class, exception_cleanup_of := dependent_exception_cleanup E\<rparr>)\<rparr>)"
    using assms(1,2,5-8) alloc swap
    by (simp add: op_defs cxa_rethrow_primary_exception_def cxa_increment_exception_refcount_def exceptionType_at_def off)
  then show ?thesis using assms(3) by (cases w) (simp add: op_defs throw_exception_def dependent_header_def)
qed

text \<open>Releasing a dependent exception gives back its reference to the primary one.\<close>

lemma release_dependent:
  assumes "exns w d = Some y" and "exception_class_of y = dependent_exception_class" and "referenceCount y = p + sizeof_exception"
    and "exns w p = Some x" and "exception_class_of x = exception_class" and "referenceCount x = of_nat (Suc (Suc k))" and "Suc (Suc k) < 2 ^ 64"
    and "d \<noteq> p" and "block E d" and "p + sizeof_exception \<noteq> 0"
  shows "\<exists>ba. release E d w = Ok () (w\<lparr>exns := (exns w)(p \<mapsto> x\<lparr>referenceCount := of_nat (Suc k)\<rparr>, d := None), buffers := ba\<rparr>)"
proof -
  let ?v = "w\<lparr>exns := (exns w)(p \<mapsto> x\<lparr>referenceCount := of_nat (Suc k)\<rparr>)\<rparr>"
  have "unat (of_nat (Suc k) :: 64 word) = Suc k" using assms(7) by (simp only: unat_of_nat) (simp add: take_bit_nat_eq_self)
  then have "(of_nat (Suc k) :: 64 word) \<noteq> 0" by (metis unat_0 nat.distinct(2))
  moreover have "referenceCount x - 1 = of_nat (Suc k)" using assms(6) by simp
  ultimately have inner: "releaseException (Suc 0) E p w = Ok () ?v"
    using assms(4,5) by (simp add: with_exn_def set_exn_def ret_def del: of_nat_Suc)
  have "release E d w = cxa_free_dependent_exception E (releaseException (Suc 0) E) (d + sizeof_exception) w"
    unfolding release_def numeral_2_eq_2 releaseException.simps(2) [of "Suc 0"] using assms(1,2) by (simp only: with_exn_def) simp
  also have "\<dots> = free_exception E d ?v"
    using assms(1-3,10) inner by (simp add: op_defs cxa_free_dependent_exception_def realExceptionFromException_def del: releaseException.simps)
  finally have "release E d w = free_exception E d ?v" .
  moreover have "exns ?v d = Some y" using assms(1,8) by simp
  ultimately show ?thesis using free_block_exn [OF assms(9), of ?v y] by simp
qed

section \<open>Properties\<close>

text \<open>
  C20. Rethrowing an \<open>exception_ptr\<close>, catching and leaving the handler is neutral: the dependent
  exception is freed, the primary one has the references it had, and the caught list and the count of uncaught exceptions are
  what they were.
\<close>

theorem dependent_exception_roundtrip:
  assumes "exns w p = Some x" and "exception_class_of x = exception_class" and "has_info w"
    and "referenceCount x = of_nat (Suc k)" and "Suc (Suc k) < 2 ^ 64"
    and "calloc E (callocs w) sizeof_exception = Some d" and "fresh E w d" and "d \<noteq> p" and "d \<noteq> p + 32" and "exns w (p + 32) = None"
    and "p + sizeof_exception \<noteq> 0" and "foreign_exception_state w = Not_foreign"
  shows "\<exists>w'. bind (cxa_rethrow_primary_exception E (\<lambda>q. ret None) (p + sizeof_exception)) (\<lambda>_.
      bind (cxa_begin_catch E (d + offsetof_unwindHeader)) (\<lambda>_. cxa_end_catch E)) w = Ok () w'
    \<and> exns w' = exns w \<and> caughtExceptions w' = caughtExceptions w \<and> uncaughtExceptions w' = uncaughtExceptions w \<and> events w' = events w"
proof -
  let ?y = "dependent_header E (p + sizeof_exception) (nextException x)"
  let ?x = "x\<lparr>referenceCount := referenceCount x + 1\<rparr>"
  let ?w1 = "w\<lparr>callocs := callocs w + 1, uncaughtExceptions := uncaughtExceptions w + 1, exns := (exns w)(p \<mapsto> ?x, d \<mapsto> ?y)\<rparr>"
  have y: "handlerCount ?y = 0" "exception_class_of ?y = dependent_exception_class" "referenceCount ?y = p + sizeof_exception"
    by (simp_all add: dependent_header_def zero_exception_def Let_def)
  have d: "d \<noteq> 0" "foreign w (d + offsetof_unwindHeader) = None" "block E d" "exns w d = None" using assms(7) by (simp_all add: fresh_def)
  have thrown: "cxa_rethrow_primary_exception E (\<lambda>q. ret None) (p + sizeof_exception) w = Ok () ?w1"
    using rethrow_primary_effect [OF assms(1-3,6,8-11), of "\<lambda>q. ret None"] by (simp add: bind_def ret_def)
  let ?z = "?y\<lparr>nextException := caughtExceptions w, handlerCount := 1\<rparr>"
  let ?w2 = "w\<lparr>callocs := callocs w + 1, caughtExceptions := d, exns := (exns w)(p \<mapsto> ?x, d \<mapsto> ?z)\<rparr>"
  have caught: "cxa_begin_catch E (d + offsetof_unwindHeader) ?w1 = Ok (adjustedPtr ?y) ?w2"
    using assms(3,8,12) d y by (cases w) (simp add: op_defs cxa_begin_catch_def)
  let ?w3 = "w\<lparr>callocs := callocs w + 1, exns := (exns w)(p \<mapsto> ?x, d \<mapsto> ?z\<lparr>handlerCount := 0\<rparr>)\<rparr>"
  have ended: "cxa_end_catch E ?w2 = release E d ?w3"
    using assms(3,8,12) d by (cases w) (simp add: op_defs cxa_end_catch_def)
  have "\<exists>ba. release E d ?w3 = Ok () (?w3\<lparr>exns := (exns ?w3)(p \<mapsto> ?x\<lparr>referenceCount := of_nat (Suc k)\<rparr>, d := None), buffers := ba\<rparr>)"
    by (rule release_dependent [where y = "?z\<lparr>handlerCount := 0\<rparr>"]) (use assms(2,4,5,8,11) d y in \<open>simp_all add: add.commute\<close>)
  then obtain ba where rel: "release E d ?w3 = Ok () (?w3\<lparr>exns := (exns ?w3)(p \<mapsto> ?x\<lparr>referenceCount := of_nat (Suc k)\<rparr>, d := None), buffers := ba\<rparr>)" by blast
  have same: "(exns w)(p \<mapsto> ?x, d \<mapsto> ?z\<lparr>handlerCount := 0\<rparr>, p \<mapsto> ?x\<lparr>referenceCount := of_nat (Suc k)\<rparr>, d := None) = exns w"
    using assms(1,4,8) d(4) by (auto simp: fun_eq_iff)
  show ?thesis using thrown caught ended rel same by (simp add: bind_def)
qed

text \<open>A world with one primary exception at 0x9000, held by an \<open>exception_ptr\<close> and by a handler.\<close>

definition primary_header :: cxa_exception where
  "primary_header = zero_exception\<lparr>referenceCount := 2, exceptionType := 0x300, exceptionDestructor := 7, handlerCount := 1,
     exception_class_of := exception_class\<rparr>"

definition sample_primary :: world where
  "sample_primary = start_world\<lparr>exns := [0x9000 \<mapsto> primary_header], caughtExceptions := 0x9000\<rparr>"

lemma primary_header_simps [simp]: "referenceCount primary_header = 2" "exceptionDestructor primary_header = 7"
  "exception_class_of primary_header = exception_class" "nextException primary_header = 0" "exceptionType primary_header = 0x300"
  by (simp_all add: primary_header_def zero_exception_def)

theorem dependent_exception_roundtrip_witness:
  "\<exists>w'. bind (cxa_rethrow_primary_exception sample_env (\<lambda>q. ret None) (0x9000 + sizeof_exception)) (\<lambda>_.
      bind (cxa_begin_catch sample_env (4096 + offsetof_unwindHeader)) (\<lambda>_. cxa_end_catch sample_env)) sample_primary = Ok () w'
    \<and> exns w' = exns sample_primary \<and> caughtExceptions w' = caughtExceptions sample_primary
    \<and> uncaughtExceptions w' = uncaughtExceptions sample_primary \<and> events w' = events sample_primary"
  by (rule dependent_exception_roundtrip [where x = primary_header and k = 1])
     (simp_all add: sample_primary_def start_world_def sample_env_def fresh_def block_def)

text \<open>
  C34. \<open>__cxa_rethrow_primary_exception\<close> computes the header of the original exception from the pointer to the
  object as if it were a pointer to the unwind header: the type it copies is read 32 bytes too far, where the link to the next
  caught exception lies. In the handler \<open>__cxa_current_exception_type\<close> then returns that link.
\<close>

theorem rethrow_primary_wrong_type:
  assumes "exns w p = Some x" and "exception_class_of x = exception_class" and "has_info w"
    and "calloc E (callocs w) sizeof_exception = Some d" and "fresh E w d" and "d \<noteq> p" and "d \<noteq> p + 32" and "exns w (p + 32) = None"
    and "p + sizeof_exception \<noteq> 0" and "foreign_exception_state w = Not_foreign"
  shows "\<exists>w'. bind (cxa_rethrow_primary_exception E (\<lambda>q. ret None) (p + sizeof_exception)) (\<lambda>_.
      bind (cxa_begin_catch E (d + offsetof_unwindHeader)) (\<lambda>_. cxa_current_exception_type E)) w = Ok (nextException x) w'"
proof -
  let ?y = "dependent_header E (p + sizeof_exception) (nextException x)"
  have y: "handlerCount ?y = 0" "exception_class_of ?y = dependent_exception_class" "exceptionType ?y = nextException x"
    by (simp_all add: dependent_header_def zero_exception_def Let_def)
  have d: "d \<noteq> 0" "foreign w (d + offsetof_unwindHeader) = None" using assms(5) by (simp_all add: fresh_def)
  show ?thesis using rethrow_primary_effect [OF assms(1-4,6-9), of "\<lambda>q. ret None"] assms(3,6,10) d y
    by (simp add: op_defs cxa_begin_catch_def cxa_current_exception_type_def)
qed

theorem rethrow_primary_wrong_type_witness:
  "\<exists>w'. bind (cxa_rethrow_primary_exception sample_env (\<lambda>q. ret None) (0x9000 + sizeof_exception)) (\<lambda>_.
      bind (cxa_begin_catch sample_env (4096 + offsetof_unwindHeader)) (\<lambda>_. cxa_current_exception_type sample_env)) sample_primary = Ok 0 w'"
  using rethrow_primary_wrong_type [of sample_primary "0x9000" primary_header sample_env 4096]
  by (simp add: sample_primary_def start_world_def sample_env_def fresh_def block_def)

text \<open>
  When a thread ends inside a handler its exceptions are freed without looking at their reference
  counts: an \<open>exception_ptr\<close> that still refers to one is left dangling, and releasing it uses freed memory.
\<close>

theorem thread_exit_ignores_references:
  assumes "caughtExceptions w = e" and "e \<noteq> 0" and "foreign_exception_state w = Not_foreign" and "exns w e = Some x" and "nextException x = 0"
    and "block E e" and "returns E" and "e + sizeof_exception \<noteq> 0"
  shows "\<exists>w'. thread_cleanup 1 E w = Ok () w' \<and> exns w' e = None
    \<and> cxa_decrement_exception_refcount E (e + sizeof_exception) w' = Fault Use_After_Free"
proof -
  obtain ba where "cxa_free_exception E (e + sizeof_exception) w = Ok () (w\<lparr>exns := (exns w)(e := None), buffers := ba,
      events := events w @ destruction (exceptionDestructor x) e\<rparr>)"
    using free_object [OF assms(6,4,7)] by blast
  then have "thread_cleanup 1 E w = Ok () (w\<lparr>exns := (exns w)(e := None), buffers := ba,
      events := events w @ destruction (exceptionDestructor x) e, has_info := False\<rparr>)"
    using assms(1-5) by (simp add: op_defs thread_cleanup_def)
  then show ?thesis using assms(8)
    by (simp add: cxa_decrement_exception_refcount_def release_def numeral_2_eq_2 with_exn_def)
qed

theorem thread_exit_ignores_references_witness:
  "\<exists>w'. thread_cleanup 1 sample_env sample_primary = Ok () w' \<and> exns w' 0x9000 = None
    \<and> cxa_decrement_exception_refcount sample_env (0x9000 + sizeof_exception) w' = Fault Use_After_Free"
  by (rule thread_exit_ignores_references [where x = primary_header])
     (simp_all add: sample_primary_def start_world_def block_def sample_env_def returns_def)

text \<open>
  Without memory a thread that has not used exceptions before cannot use the emergency buffers: its own
  structure cannot be allocated either, and the null pointer is dereferenced. A thread that has the structure gets the first free buffer.
\<close>

theorem emergency_needs_thread_info:
  assumes "\<And>n k. calloc E n k = None" and "sz \<le> 1024" and "buffers w = False # bs" and "emergencyBuffersHeld w = 0" and "emergency_buffer E \<noteq> 0"
  shows "alloc_or_die E sz w =
    (if has_info w
     then Ok (emergency_buffer E) (w\<lparr>callocs := callocs w + 2, buffers := True # bs, emergencyBuffersHeld := 1,
       exns := (exns w)(emergency_buffer E \<mapsto> zero_exception)\<rparr>)
     else Fault Out_Of_Bounds)"
proof -
  have "\<not> sz > 1024" using assms(2) by simp
  then show ?thesis using assms(1,3-5)
    by (cases w) (simp add: op_defs alloc_or_die_def do_calloc_def emergency_alloc_def emergency_turn_def crash_def)
qed

theorem emergency_needs_thread_info_witness:
  "alloc_or_die (sample_env\<lparr>calloc := \<lambda>n k. None\<rparr>) 200 (start_world\<lparr>has_info := False\<rparr>) = Fault Out_Of_Bounds"
proof -
  have "replicate 16 False = False # replicate 15 False" by (simp add: replicate_Suc [of 15 False, simplified, symmetric] del: replicate_Suc)
  then show ?thesis
    using emergency_needs_thread_info [of "sample_env\<lparr>calloc := \<lambda>n k. None\<rparr>" 200 "start_world\<lparr>has_info := False\<rparr>" "replicate 15 False"]
    by (simp add: start_world_def sample_env_def)
qed

text \<open>
  A foreign exception is handled by its own cleanup function, called once when the handler is left;
  a second one caught meanwhile terminates the program. Asking for the type of the current exception while it is foreign reads
  it as if it had a C++ header.
\<close>

theorem foreign_exception_protocol:
  assumes "has_info w" and "caughtExceptions w = 0" and "foreign_exception_state w = Not_foreign" and "p \<noteq> 0"
    and "foreign w p = Some (cls, f)" and "\<not> isCXXException cls" and "foreign w q = Some (cls', f')" and "\<not> isCXXException cls'"
    and "exns w p = None"
  shows "bind (cxa_begin_catch E p) (\<lambda>_. cxa_end_catch E) w = Ok () (w\<lparr>events := events w @ (if f = 0 then [] else [Cleaned f p])\<rparr>)
    \<and> bind (cxa_begin_catch E p) (\<lambda>_. cxa_begin_catch E q) w = Fault Terminated
    \<and> bind (cxa_begin_catch E p) (\<lambda>_. cxa_current_exception_type E) w = Fault Use_After_Free"
  using assms by (cases w) (simp add: op_defs cxa_begin_catch_def cxa_end_catch_def cxa_current_exception_type_def foreign_cleanup_def crash_def)

theorem foreign_exception_protocol_witness:
  "bind (cxa_begin_catch sample_env 64) (\<lambda>_. cxa_begin_catch sample_env 128) (start_world\<lparr>foreign := [64 \<mapsto> (5, 9), 128 \<mapsto> (5, 9)]\<rparr>) = Fault Terminated"
proof -
  have "\<not> isCXXException 5" by (simp add: isCXXException_def exception_class_def dependent_exception_class_def EXCEPTION_CLASS_def)
  then show ?thesis
    using foreign_exception_protocol [of "start_world\<lparr>foreign := [64 \<mapsto> (5, 9), 128 \<mapsto> (5, 9)]\<rparr>" 64 5 9 128 5 9 sample_env]
    by (simp add: start_world_def)
qed

text \<open>
  An unexpected handler that throws replaces the exception: \<open>__cxa_call_unexpected\<close> calls the handler that was in force
  at the throw, and when the handler leaves by an exception of its own, the first exception has been caught and
  released: its destructor has run, its header is gone, and the caught exceptions and the count of uncaught ones are as if it had been handled.
\<close>

theorem unexpected_handler_throws:
  assumes "has_info w" and "exns w e = Some x" and "exception_class_of x = exception_class" and "handlerCount x = 0" and "referenceCount x = 1"
    and "foreign w (e + offsetof_unwindHeader) = None" and "e \<noteq> 0" and "ex_unexpectedHandler x = h" and "h \<noteq> 0" and "throws h"
    and "exceptionDestructor x = dest" and "dest \<noteq> 0" and "destructor_returns E dest (e + sizeof_exception)"
    and "\<not> (e \<ge> emergency_buffer E \<and> e < emergency_buffer E + 16384)"
  shows "\<exists>w'. cxa_call_unexpected E throws (e + offsetof_unwindHeader) w = Ok h w' \<and> exns w' = (exns w)(e := None)
    \<and> caughtExceptions w' = caughtExceptions w \<and> uncaughtExceptions w' = uncaughtExceptions w - 1
    \<and> events w' = events w @ [Destroyed dest (e + sizeof_exception)]"
proof -
  have two: "release E = releaseException (Suc (Suc 0)) E" by (simp add: release_def numeral_2_eq_2 fun_eq_iff)
  have heap: "free_exception E e = (\<lambda>w. if exns w e = None then Fault Double_Free else Ok () (w\<lparr>exns := (exns w)(e := None)\<rparr>))"
    using assms(14) by (auto simp: free_exception_def fun_eq_iff)
  show ?thesis using assms(1-13)
    by (cases w) (simp add: op_defs cxa_call_unexpected_def call_or_abort_def cxa_begin_catch_def cxa_end_catch_def two cxa_free_exception_def
        heap fun_eq_iff)
qed

theorem unexpected_handler_throws_witness:
  "\<exists>w'. cxa_call_unexpected sample_env (\<lambda>h. True) (0x9000 + offsetof_unwindHeader)
      (start_world\<lparr>exns := [0x9000 \<mapsto> primary_header\<lparr>referenceCount := 1, handlerCount := 0, ex_unexpectedHandler := 11\<rparr>]\<rparr>) = Ok 11 w'
    \<and> events w' = [Destroyed 7 (0x9000 + sizeof_exception)]"
  using unexpected_handler_throws [of "start_world\<lparr>exns := [0x9000 \<mapsto> primary_header\<lparr>referenceCount := 1, handlerCount := 0, ex_unexpectedHandler := 11\<rparr>]\<rparr>"
      "0x9000" "primary_header\<lparr>referenceCount := 1, handlerCount := 0, ex_unexpectedHandler := 11\<rparr>" 11 "\<lambda>h. True" 7 sample_env]
  by (auto simp: start_world_def sample_env_def)

end
