(* ===== verification/Refcount.thy ===== *)
theory Refcount
  imports Exceptions
begin

text \<open>
  Reference counts under concurrency (\<open>exception.cc\<close>). One primary exception is owned through \<open>exception_ptr\<close> and handlers by several
  threads; \<open>__cxa_increment_exception_refcount\<close> and \<open>__cxa_current_primary_exception\<close> add to the count and \<open>releaseException\<close> subtracts from
  it, each in one atomic operation, and the thread that reaches zero calls \<open>__cxa_free_exception\<close> afterwards. Every interleaving of these steps is considered. A thread
  only works through references it owns; it may hand a new one to another thread.
\<close>

section \<open>Steps\<close>

record rc =
  rc_count :: "64 word"
  rc_owners :: "nat list"        \<comment> \<open>the references of each thread\<close>
  rc_freeing :: "bool list"      \<comment> \<open>threads that reached zero and have not freed yet\<close>
  rc_freed :: nat                \<comment> \<open>how often the object was freed\<close>

definition sync_fetch_and_add :: "rc \<Rightarrow> rc" where
  "sync_fetch_and_add s = s\<lparr>rc_count := rc_count s + 1\<rparr>"

definition sync_sub_and_fetch :: "rc \<Rightarrow> 64 word \<times> rc" where
  "sync_sub_and_fetch s = (rc_count s - 1, s\<lparr>rc_count := rc_count s - 1\<rparr>)"

text \<open>A reference for thread \<open>u\<close>.\<close>

definition rc_increment :: "nat \<Rightarrow> rc \<Rightarrow> rc" where
  "rc_increment u s = (sync_fetch_and_add s)\<lparr>rc_owners := (rc_owners s)[u := rc_owners s ! u + 1]\<rparr>"

text \<open>\<open>releaseException\<close> of a primary exception by thread \<open>t\<close>, up to the call of \<open>__cxa_free_exception\<close>.\<close>

definition rc_release :: "nat \<Rightarrow> rc \<Rightarrow> rc" where
  "rc_release t s = (case sync_sub_and_fetch s of (c, s') \<Rightarrow>
     s'\<lparr>rc_owners := (rc_owners s)[t := rc_owners s ! t - 1], rc_freeing := (rc_freeing s)[t := (c = 0)]\<rparr>)"

definition rc_free :: "nat \<Rightarrow> rc \<Rightarrow> rc" where
  "rc_free t s = s\<lparr>rc_freeing := (rc_freeing s)[t := False], rc_freed := rc_freed s + 1\<rparr>"

text \<open>\<open>n\<close> threads; the first one has thrown the exception.\<close>

definition rc_start :: "nat \<Rightarrow> rc" where
  "rc_start n = \<lparr>rc_count = 1, rc_owners = 1 # replicate n 0, rc_freeing = replicate (Suc n) False, rc_freed = 0\<rparr>"

text \<open>The number of references that exist at a time is below \<open>2^64\<close>: each is stored somewhere in the address space.\<close>

inductive rc_step :: "rc \<Rightarrow> rc \<Rightarrow> bool" where
  increment: "t < length (rc_owners s) \<Longrightarrow> u < length (rc_owners s) \<Longrightarrow> 0 < rc_owners s ! t \<Longrightarrow> \<not> rc_freeing s ! t
    \<Longrightarrow> Suc (sum_list (rc_owners s)) < 2 ^ 64 \<Longrightarrow> rc_step s (rc_increment u s)"
| release: "t < length (rc_owners s) \<Longrightarrow> 0 < rc_owners s ! t \<Longrightarrow> \<not> rc_freeing s ! t \<Longrightarrow> rc_step s (rc_release t s)"
| free: "t < length (rc_owners s) \<Longrightarrow> rc_freeing s ! t \<Longrightarrow> rc_step s (rc_free t s)"

section \<open>Invariant\<close>

abbreviation frees :: "bool list \<Rightarrow> nat" where
  "frees bs \<equiv> sum_list (map of_bool bs)"

text \<open>The object is freed, or being freed by one thread, exactly when there is no reference.\<close>

definition rc_inv :: "rc \<Rightarrow> bool" where
  "rc_inv s \<longleftrightarrow> rc_count s = of_nat (sum_list (rc_owners s)) \<and> sum_list (rc_owners s) < 2 ^ 64 \<and> length (rc_freeing s) = length (rc_owners s)
     \<and> rc_freed s + frees (rc_freeing s) = of_bool (sum_list (rc_owners s) = 0)"

lemma frees_update: "i < length bs \<Longrightarrow> frees (bs[i := b]) = frees bs + of_bool b - of_bool (bs ! i)"
  by (simp add: map_update sum_list_update)

lemma frees_pos: "i < length bs \<Longrightarrow> bs ! i \<Longrightarrow> 0 < frees bs"
  using member_le_sum_list [of "of_bool True" "map of_bool bs :: nat list"] by (force simp: in_set_conv_nth)

lemma owner_le: "t < length xs \<Longrightarrow> xs ! t \<le> sum_list (xs :: nat list)"
  by (simp add: member_le_sum_list)

lemma of_nat_zero: "k < 2 ^ 64 \<Longrightarrow> (of_nat k :: 64 word) = 0 \<longleftrightarrow> k = 0"
  by (auto simp: word_of_nat_eq_0_iff dest: dvd_imp_le)

lemma rc_step_inv:
  assumes "rc_step s s'" and "rc_inv s"
  shows "rc_inv s' \<and> length (rc_owners s') = length (rc_owners s)"
  using assms
proof cases
  case (increment t u)
  have "sum_list ((rc_owners s)[u := rc_owners s ! u + 1]) = Suc (sum_list (rc_owners s))"
    using increment owner_le [of u "rc_owners s"] by (simp add: sum_list_update)
  moreover have "0 < sum_list (rc_owners s)" using increment owner_le [of t "rc_owners s"] by simp
  ultimately show ?thesis using increment assms(2) by (simp add: rc_inv_def rc_increment_def sync_fetch_and_add_def add.commute del: sum_list_eq_0_iff)
next
  case (release t)
  let ?k = "sum_list (rc_owners s)"
  have pos: "0 < ?k" using release owner_le [of t "rc_owners s"] by simp
  then have sum: "sum_list ((rc_owners s)[t := rc_owners s ! t - 1]) = ?k - 1"
    using release owner_le [of t "rc_owners s"] by (simp add: sum_list_update)
  have c: "rc_count s - 1 = of_nat (?k - 1)" using assms(2) pos by (simp add: rc_inv_def of_nat_diff)
  have zero: "rc_count s - 1 = 0 \<longleftrightarrow> ?k - 1 = 0" unfolding c using assms(2) by (intro of_nat_zero) (auto simp: rc_inv_def simp del: sum_list_eq_0_iff)
  have "frees ((rc_freeing s)[t := (rc_count s - 1 = 0)]) = frees (rc_freeing s) + of_bool (?k - 1 = 0)"
    using release assms(2) by (simp only: zero) (simp add: frees_update rc_inv_def)
  moreover have "?k - 1 < 2 ^ 64" using assms(2) by (auto simp: rc_inv_def simp del: sum_list_eq_0_iff)
  ultimately show ?thesis using release assms(2) pos sum c by (simp add: rc_inv_def rc_release_def sync_sub_and_fetch_def del: of_nat_diff sum_list_eq_0_iff)
next
  case (free t)
  then have "0 < frees (rc_freeing s)" using assms(2) frees_pos [of t "rc_freeing s"] by (simp add: rc_inv_def)
  moreover from this have "sum_list (rc_owners s) = 0" using assms(2) by (cases "sum_list (rc_owners s) = 0") (simp_all add: rc_inv_def del: sum_list_eq_0_iff)
  ultimately show ?thesis using free assms(2) by (simp add: rc_inv_def rc_free_def frees_update del: sum_list_eq_0_iff)
qed

lemma rc_start_inv: "rc_inv (rc_start n)"
  by (simp add: rc_inv_def rc_start_def sum_list_replicate map_replicate_const flip: replicate_Suc)

lemma rc_reachable_inv: "rc_step\<^sup>*\<^sup>* (rc_start n) s \<Longrightarrow> rc_inv s"
  by (induction rule: rtranclp_induct) (use rc_start_inv rc_step_inv in blast)+

section \<open>Properties\<close>

text \<open>
  C19. However threads copy and drop references to an exception, it is freed at most once; while a thread has a reference the object is not freed and no
  thread is about to free it; and when all references are gone it has been freed or exactly one thread is about to.
\<close>

theorem shared_exception_freed_once:
  assumes "rc_step\<^sup>*\<^sup>* (rc_start n) s"
  shows "rc_freed s \<le> 1
    \<and> (\<forall>t < length (rc_owners s). 0 < rc_owners s ! t \<longrightarrow> rc_freed s = 0 \<and> \<not> (\<exists>u < length (rc_freeing s). rc_freeing s ! u))
    \<and> ((\<forall>t < length (rc_owners s). rc_owners s ! t = 0) \<longrightarrow> rc_freed s + frees (rc_freeing s) = 1)"
proof -
  have inv: "rc_inv s" by (rule rc_reachable_inv [OF assms])
  have "rc_freed s = 0 \<and> \<not> (\<exists>u < length (rc_freeing s). rc_freeing s ! u)" if "t < length (rc_owners s)" "0 < rc_owners s ! t" for t
    using inv owner_le [OF that(1)] that(2) frees_pos [of _ "rc_freeing s"] by (auto simp: rc_inv_def simp del: sum_list_eq_0_iff)
  moreover have "sum_list (rc_owners s) = 0" if "\<forall>t < length (rc_owners s). rc_owners s ! t = 0"
    using that by (auto simp: in_set_conv_nth)
  moreover have "rc_freed s \<le> 1" using inv unfolding rc_inv_def by (cases "sum_list (rc_owners s) = 0") (simp_all del: sum_list_eq_0_iff)
  ultimately show ?thesis using inv unfolding rc_inv_def by (auto simp del: sum_list_eq_0_iff)
qed

theorem shared_exception_freed_once_witness:
  "rc_freed (rc_free 1 (rc_release 1 (rc_release 0 (rc_increment 1 (rc_start 1))))) \<le> 1"
proof -
  have "rc_step\<^sup>*\<^sup>* (rc_start 1) (rc_free 1 (rc_release 1 (rc_release 0 (rc_increment 1 (rc_start 1)))))"
  proof (rule rtranclp.rtrancl_into_rtrancl, rule rtranclp.rtrancl_into_rtrancl, rule rtranclp.rtrancl_into_rtrancl,
      rule rtranclp.rtrancl_into_rtrancl, rule rtranclp.rtrancl_refl)
    show "rc_step (rc_start 1) (rc_increment 1 (rc_start 1))" by (rule increment [of 0]) (simp_all add: rc_start_def)
    show "rc_step (rc_increment 1 (rc_start 1)) (rc_release 0 (rc_increment 1 (rc_start 1)))"
      by (rule release) (simp_all add: rc_start_def rc_increment_def sync_fetch_and_add_def)
    show "rc_step (rc_release 0 (rc_increment 1 (rc_start 1))) (rc_release 1 (rc_release 0 (rc_increment 1 (rc_start 1))))"
      by (rule release) (simp_all add: rc_start_def rc_increment_def sync_fetch_and_add_def rc_release_def sync_sub_and_fetch_def)
    show "rc_step (rc_release 1 (rc_release 0 (rc_increment 1 (rc_start 1)))) (rc_free 1 (rc_release 1 (rc_release 0 (rc_increment 1 (rc_start 1)))))"
      by (rule free) (simp_all add: rc_start_def rc_increment_def sync_fetch_and_add_def rc_release_def sync_sub_and_fetch_def)
  qed
  from shared_exception_freed_once [OF this] show ?thesis by simp
qed

end
