(* ===== verification/Personality.thy ===== *)
theory Personality
  imports Exceptions Typeinfo
begin

text \<open>
  The personality routine \<open>__gxx_personality_v0\<close> (\<open>exception.cc\<close>), on the Itanium ABI: the type
  table, the matching of a handler's type, the walk over a chain of action records, and the two phases of
  unwinding. Tables and objects are read from memory, type information from the type store, and the
  exception headers from the world. Loops over the tables have fuel.
\<close>

unbundle bit_operations_syntax

section \<open>The frame and its tables\<close>

text \<open>What the routine reads: memory, type information, the name of \<open>void\<close>, the frame; and the fuel.\<close>

record frame =
  mem_of :: memory
  types_of :: types
  void_name_of :: ptr
  context_of :: unwind_context
  fuel_of :: nat

definition get_type_info_entry :: "frame \<Rightarrow> dwarf_eh_lsda \<Rightarrow> int \<Rightarrow> fault + ptr" where
  "get_type_info_entry F lsda filt =
     (case dwarf_size_of_fixed_size_field (type_table_encoding lsda) 0 of
        Fault e \<Rightarrow> Inl e
      | Ok sz _ \<Rightarrow>
          (let start = type_table lsda - of_int (sz * filt) in
           case read_value (type_table_encoding lsda) (mem_of F) start of
             Fault e \<Rightarrow> Inl e
           | Ok off r \<Rightarrow>
               if off = 0 then Inr 0
               else (case resolve_indirect_value (mem_of F) (context_of F) (type_table_encoding lsda) off start r of
                  Fault e \<Rightarrow> Inl e | Ok v _ \<Rightarrow> Inr v)))"

text \<open>
  The exception is its address and its \<open>exceptionType\<close>, or none when it is foreign. The result
  says whether the type matches and what is assigned to \<open>adjustedPtr\<close>, if anything.
\<close>

definition check_type_signature :: "frame \<Rightarrow> (ptr \<times> ptr) option \<Rightarrow> ptr \<Rightarrow> fault + bool \<times> ptr option" where
  "check_type_signature F ex type = (case ex of
     None \<Rightarrow> if type = 0 then Inr (True, None) else Inr (False, None)
   | Some (e, ex_type) \<Rightarrow>
       (case types_of F ex_type of None \<Rightarrow> Inl Out_Of_Bounds
        | Some et \<Rightarrow>
          (case (if is_pointer_p et then load (mem_of F) (e + sizeof_exception) else Inr (e + sizeof_exception)) of
             Inl f \<Rightarrow> Inl f
           | Inr exception_ptr \<Rightarrow>
               if type = 0 then Inr (True, Some exception_ptr)
               else (case types_of F type of None \<Rightarrow> Inl Out_Of_Bounds
                 | Some t \<Rightarrow>
                     if type_eq t et then Inr (True, Some exception_ptr)
                     else (case do_catch (fuel_of F) (mem_of F) (types_of F) (void_name_of F) type ex_type exception_ptr 1 of
                         Inl f \<Rightarrow> Inl f
                       | Inr (Some q) \<Rightarrow> Inr (True, Some q)
                       | Inr None \<Rightarrow> Inr (False, None))))))"

datatype handler_type = handler_none | handler_cleanup | handler_catch

definition assigned :: "ptr option \<Rightarrow> ptr option \<Rightarrow> ptr option" where
  "assigned old new = (case new of None \<Rightarrow> old | Some q \<Rightarrow> Some q)"

text \<open>The loop over an exception specification: does it allow the exception?\<close>

primrec check_spec :: "nat \<Rightarrow> frame \<Rightarrow> dwarf_eh_lsda \<Rightarrow> (ptr \<times> ptr) option \<Rightarrow> ptr \<Rightarrow> ptr option \<Rightarrow> fault + bool \<times> ptr option" where
  "check_spec 0 F lsda ex type_index adj = Inl Out_Of_Fuel"
| "check_spec (Suc n) F lsda ex type_index adj = (case mem_of F type_index of None \<Rightarrow> Inl Out_Of_Bounds
     | Some b \<Rightarrow>
         if b = 0 then Inr (False, adj)
         else (case get_type_info_entry F lsda (uint b) of Inl f \<Rightarrow> Inl f
           | Inr t \<Rightarrow> (case check_type_signature F ex t of Inl f \<Rightarrow> Inl f
               | Inr (matched, a) \<Rightarrow>
                   if matched then Inr (True, assigned adj a)
                   else check_spec n F lsda ex (type_index + 1) (assigned adj a))))"

text \<open>\<open>int x = read_sleb128(...)\<close>: the number is cut to an \<open>int\<close>.\<close>

definition read_int :: "memory \<Rightarrow> ptr \<Rightarrow> fault + int \<times> ptr" where
  "read_int m p = (case read_sleb128 m p of Fault e \<Rightarrow> Inl e | Ok v q \<Rightarrow> Inr (sint (ucast v :: 32 word), q))"

text \<open>The walk over the chain of action records; the result has the handler, the selector and \<open>adjustedPtr\<close>.\<close>

primrec action_loop :: "nat \<Rightarrow> frame \<Rightarrow> dwarf_eh_lsda \<Rightarrow> (ptr \<times> ptr) option \<Rightarrow> ptr \<Rightarrow> handler_type \<Rightarrow> int \<Rightarrow> ptr option
    \<Rightarrow> fault + handler_type \<times> int \<times> ptr option" where
  "action_loop 0 F lsda ex this found selector adj = Inl Out_Of_Fuel"
| "action_loop (Suc n) F lsda ex this found selector adj =
     (if this = 0 then Inr (found, selector, adj)
      else case read_int (mem_of F) this of Inl f \<Rightarrow> Inl f
      | Inr (filt, base) \<Rightarrow> (case read_int (mem_of F) base of Inl f \<Rightarrow> Inl f
      | Inr (displacement, _) \<Rightarrow>
          (let rest = (if displacement \<noteq> 0 then base + of_int displacement else 0) in
           if filt > 0 then
             (case get_type_info_entry F lsda filt of Inl f \<Rightarrow> Inl f
              | Inr t \<Rightarrow> (case check_type_signature F ex t of Inl f \<Rightarrow> Inl f
                  | Inr (matched, a) \<Rightarrow>
                      if matched then Inr (handler_catch, filt, assigned adj a)
                      else action_loop n F lsda ex rest found selector (assigned adj a)))
           else if filt < 0 \<and> ex \<noteq> None then
             (case check_spec (fuel_of F) F lsda ex (type_table lsda - of_int filt - 1) adj of Inl f \<Rightarrow> Inl f
              | Inr (matched, a) \<Rightarrow>
                  if matched then action_loop n F lsda ex rest found filt a else Inr (handler_catch, filt, a))
           else if filt = 0 then action_loop n F lsda ex rest handler_cleanup filt adj
           else action_loop n F lsda ex rest found selector adj)))"

definition check_action_record :: "frame \<Rightarrow> dwarf_eh_lsda \<Rightarrow> ptr \<Rightarrow> (ptr \<times> ptr) option \<Rightarrow> fault + handler_type \<times> int \<times> ptr option" where
  "check_action_record F lsda this ex =
     (if this = 0 then Inr (handler_cleanup, 0, None)
      else action_loop (fuel_of F) F lsda ex this handler_none 0 None)"

section \<open>The routine\<close>

definition UA_SEARCH_PHASE :: "32 word" where "UA_SEARCH_PHASE = 1"
definition UA_HANDLER_FRAME :: "32 word" where "UA_HANDLER_FRAME = 4"

text \<open>What the routine returns, and with \<open>URC_INSTALL_CONTEXT\<close> the instruction pointer and the two registers it sets.\<close>

datatype verdict = Reason Unwind_Reason_Code | Install ptr ptr int

definition saveLandingPad :: "ptr \<Rightarrow> int \<Rightarrow> ptr \<Rightarrow> 'a X \<Rightarrow> 'a X" where
  "saveLandingPad ex selector landingPad k = with_exn ex (\<lambda>x. set_exn ex (x\<lparr>handlerSwitchValue := selector, catchTemp := landingPad\<rparr>) k)"

definition loadLandingPad :: "cxa_exception \<Rightarrow> int \<times> ptr" where
  "loadLandingPad ex = (handlerSwitchValue ex, catchTemp ex)"

definition set_adjusted :: "ptr option \<Rightarrow> ptr option \<Rightarrow> 'a X \<Rightarrow> 'a X" where
  "set_adjusted ex adj k = (case (ex, adj) of
     (Some e, Some q) \<Rightarrow> with_exn e (\<lambda>x. set_exn e (x\<lparr>adjustedPtr := q\<rparr>) k) | _ \<Rightarrow> k)"

definition lift_sum :: "fault + 'a \<Rightarrow> ('a \<Rightarrow> 'b X) \<Rightarrow> 'b X" where
  "lift_sum r k = (case r of Inl f \<Rightarrow> crash f | Inr x \<Rightarrow> k x)"

text \<open>\<open>parse_lsda\<close> and \<open>dwarf_eh_find_callsite\<close> on the frame, then the rest.\<close>

definition with_callsite :: "frame \<Rightarrow> ptr \<Rightarrow> (dwarf_eh_lsda \<Rightarrow> bool \<Rightarrow> dwarf_eh_action \<Rightarrow> 'a X) \<Rightarrow> 'a X" where
  "with_callsite F lsda_addr k = (case parse_lsda (mem_of F) (context_of F) lsda_addr of
     Fault e \<Rightarrow> crash e
   | Ok lsda _ \<Rightarrow> lift_sum (dwarf_eh_find_callsite (fuel_of F) (mem_of F) (context_of F) lsda) (\<lambda>(found, act). k lsda found act))"

text \<open>The exception of the frame: its own address, and the address and type of the primary one; none when foreign.\<close>

definition with_exception :: "64 word \<Rightarrow> ptr \<Rightarrow> (ptr option \<Rightarrow> (ptr \<times> ptr) option \<Rightarrow> 'a X) \<Rightarrow> 'a X" where
  "with_exception exceptionClass exceptionObject k =
     (if \<not> isCXXException exceptionClass then k None None
      else let ex = exceptionFromPointer exceptionObject in
        bind (realExceptionFromException ex) (\<lambda>real. with_exn real (\<lambda>x. k (Some ex) (Some (real, exceptionType x)))))"

definition continueUnwinding :: "verdict X" where
  "continueUnwinding = ret (Reason URC_CONTINUE_UNWIND)"

text \<open>Phase 1: look for a handler, and keep what was found in the exception.\<close>

definition search_phase :: "frame \<Rightarrow> ptr \<Rightarrow> ptr option \<Rightarrow> (ptr \<times> ptr) option \<Rightarrow> verdict X" where
  "search_phase F lsda_addr ex real = with_callsite F lsda_addr (\<lambda>lsda found act.
     if \<not> found then ret (Reason URC_HANDLER_FOUND)
     else lift_sum (check_action_record F lsda (action_record act) real) (\<lambda>(h, selector, adj).
       set_adjusted ex adj
       (if h = handler_catch then
          (case ex of None \<Rightarrow> ret (Reason URC_HANDLER_FOUND)
           | Some e \<Rightarrow> saveLandingPad e selector (landing_pad act)
               (with_exn e (\<lambda>x. set_exn e (x\<lparr>languageSpecificData := lsda_addr, actionRecord := action_record act\<rparr>)
                 (ret (Reason URC_HANDLER_FOUND)))))
        else continueUnwinding)))"

text \<open>Phase 2, in a frame that is not the handler's: run its cleanups.\<close>

definition cleanup_phase :: "frame \<Rightarrow> ptr \<Rightarrow> ptr \<Rightarrow> ptr option \<Rightarrow> (ptr \<times> ptr) option \<Rightarrow> verdict X" where
  "cleanup_phase F lsda_addr exceptionObject ex real = with_callsite F lsda_addr (\<lambda>lsda found act.
     if landing_pad act = 0 then continueUnwinding
     else lift_sum (check_action_record F lsda (action_record act) real) (\<lambda>(h, selector, adj).
       set_adjusted ex adj
       (if h \<noteq> handler_cleanup then continueUnwinding else ret (Install (landing_pad act) exceptionObject selector))))"

text \<open>Phase 2, in the handler's frame.\<close>

definition handler_frame :: "frame \<Rightarrow> ptr \<Rightarrow> ptr \<Rightarrow> ptr option \<Rightarrow> (ptr \<times> ptr) option \<Rightarrow> verdict X" where
  "handler_frame F lsda_addr exceptionObject ex real = (case ex of
     None \<Rightarrow> with_callsite F lsda_addr (\<lambda>lsda found act.
       lift_sum (check_action_record F lsda (action_record act) real) (\<lambda>(h, selector, adj).
         ret (Install (landing_pad act) exceptionObject selector)))
   | Some e \<Rightarrow> with_exn e (\<lambda>x.
       if catchTemp x = 0 then crash Terminated
       else (case loadLandingPad x of (selector, pad) \<Rightarrow>
         set_exn e (x\<lparr>catchTemp := 0, handlerSwitchValue := 0\<rparr>) (ret (Install pad exceptionObject selector)))))"

definition gxx_personality_v0 :: "frame \<Rightarrow> int \<Rightarrow> 32 word \<Rightarrow> 64 word \<Rightarrow> ptr \<Rightarrow> verdict X" where
  "gxx_personality_v0 F version actions exceptionClass exceptionObject =
     (if version \<noteq> 1 then ret (Reason URC_FATAL_PHASE1_ERROR)
      else with_exception exceptionClass exceptionObject (\<lambda>ex real.
        let lsda_addr = GetLanguageSpecificData (context_of F) in
        if lsda_addr = 0 then continueUnwinding
        else if actions AND UA_SEARCH_PHASE \<noteq> 0 then search_phase F lsda_addr ex real
        else if actions AND UA_HANDLER_FRAME = 0 then cleanup_phase F lsda_addr exceptionObject ex real
        else handler_frame F lsda_addr exceptionObject ex real))"

section \<open>Two phases\<close>

text \<open>The landing pad and the selector that phase 1 leaves in the exception.\<close>

definition cached :: "world \<Rightarrow> ptr \<Rightarrow> ptr \<Rightarrow> int \<Rightarrow> bool" where
  "cached w e pad sel \<longleftrightarrow> (\<exists>x. exns w e = Some x \<and> exception_class_of x = exception_class \<and> catchTemp x = pad \<and> handlerSwitchValue x = sel)"

lemma lift_sum_Ok: "lift_sum r k w = Ok v w' \<longleftrightarrow> (\<exists>x. r = Inr x \<and> k x w = Ok v w')"
  by (cases r) (simp_all add: lift_sum_def crash_def)

lemma with_exn_Ok: "with_exn e k w = Ok v w' \<longleftrightarrow> (\<exists>x. exns w e = Some x \<and> k x w = Ok v w')"
  by (cases "exns w e") (simp_all add: with_exn_def)

lemma with_callsite_Ok:
  assumes "with_callsite F a k w = Ok v w'"
  obtains lsda found act where "k lsda found act w = Ok v w'"
  using assms by (auto simp: with_callsite_def lift_sum_Ok crash_def split: res.splits prod.splits)

lemma with_exception_Ok:
  assumes "with_exception cls obj k w = Ok v w'"
  obtains ex real where "k ex real w = Ok v w'"
  using assms
  by (auto simp: with_exception_def realExceptionFromException_def bind_def with_exn_Ok ret_def Let_def with_exn_def
      split: if_splits res.splits option.splits)

lemma set_adjusted_cached:
  assumes "set_adjusted ex adj k w = Ok v w'" and "cached w e pad sel"
  obtains w1 where "k w1 = Ok v w'" and "cached w1 e pad sel"
proof (cases "(ex, adj)")
  case (Pair a b)
  show thesis
  proof (cases "a = None \<or> b = None")
    case True
    then have "k w = Ok v w'" using assms(1) Pair by (auto simp: set_adjusted_def split: option.splits)
    then show thesis using that assms(2) by blast
  next
    case False
    then obtain e1 q where "ex = Some e1" "adj = Some q" using Pair by auto
    then obtain x where x: "exns w e1 = Some x" "k (w\<lparr>exns := (exns w)(e1 \<mapsto> x\<lparr>adjustedPtr := q\<rparr>)\<rparr>) = Ok v w'"
      using assms(1) by (auto simp: set_adjusted_def with_exn_Ok set_exn_def)
    moreover have "cached (w\<lparr>exns := (exns w)(e1 \<mapsto> x\<lparr>adjustedPtr := q\<rparr>)\<rparr>) e pad sel" using assms(2) x(1) by (auto simp: cached_def)
    ultimately show thesis using that by blast
  qed
qed

text \<open>A cleanup in phase 2 leaves them alone.\<close>

lemma cleanup_phase_cached:
  assumes "cleanup_phase F a obj ex real w = Ok r w'" and "cached w e pad sel"
  shows "cached w' e pad sel"
proof -
  obtain lsda and act :: dwarf_eh_action where act: "(if landing_pad act = 0 then continueUnwinding
      else lift_sum (check_action_record F lsda (action_record act) real) (\<lambda>(h, selector, adj).
        set_adjusted ex adj (if h \<noteq> handler_cleanup then continueUnwinding else ret (Install (landing_pad act) obj selector)))) w = Ok r w'"
    using assms(1) unfolding cleanup_phase_def by (elim with_callsite_Ok) (rule that)
  show ?thesis
  proof (cases "landing_pad act = 0")
    case False
    with act obtain h selector adj where
        "set_adjusted ex adj (if h \<noteq> handler_cleanup then continueUnwinding else ret (Install (landing_pad act) obj selector)) w = Ok r w'"
      by (auto simp: lift_sum_Ok split: prod.splits)
    from set_adjusted_cached [OF this assms(2)] obtain w1 where "cached w1 e pad sel"
      and "(if h \<noteq> handler_cleanup then continueUnwinding else ret (Install (landing_pad act) obj selector)) w1 = Ok r w'" by blast
    then show ?thesis by (cases "h = handler_cleanup") (simp_all add: ret_def continueUnwinding_def)
  qed (use act assms(2) in \<open>simp add: ret_def continueUnwinding_def\<close>)
qed

lemma cleanup_keeps_cached:
  assumes "gxx_personality_v0 F v actions cls obj w = Ok r w'" and "actions AND UA_SEARCH_PHASE = 0" and "actions AND UA_HANDLER_FRAME = 0"
    and "cached w e pad sel"
  shows "cached w' e pad sel"
proof (cases "v = 1")
  case True
  then have "with_exception cls obj (\<lambda>ex real. if GetLanguageSpecificData (context_of F) = 0 then continueUnwinding
      else cleanup_phase F (GetLanguageSpecificData (context_of F)) obj ex real) w = Ok r w'"
    using assms(1-3) by (simp add: gxx_personality_v0_def Let_def cong: if_cong)
  then obtain ex real where "(if GetLanguageSpecificData (context_of F) = 0 then continueUnwinding
      else cleanup_phase F (GetLanguageSpecificData (context_of F)) obj ex real) w = Ok r w'"
    by (elim with_exception_Ok) (rule that)
  then show ?thesis using cleanup_phase_cached assms(4) by (auto simp: continueUnwinding_def ret_def split: if_splits)
qed (use assms(1,4) in \<open>simp add: gxx_personality_v0_def ret_def\<close>)

text \<open>The frames between the throw and the handler, each called once in phase 2.\<close>

fun cleanups :: "(frame \<times> 32 word) list \<Rightarrow> 64 word \<Rightarrow> ptr \<Rightarrow> unit X" where
  "cleanups [] cls obj = ret ()"
| "cleanups ((F, actions) # Fs) cls obj = bind (gxx_personality_v0 F 1 actions cls obj) (\<lambda>_. cleanups Fs cls obj)"

lemma cleanups_keep_cached:
  assumes "cleanups Fs cls obj w = Ok () w'" and "cached w e pad sel"
    and "\<forall>(F, actions)\<in>set Fs. actions AND UA_SEARCH_PHASE = 0 \<and> actions AND UA_HANDLER_FRAME = 0"
  shows "cached w' e pad sel"
  using assms
proof (induction Fs arbitrary: w)
  case (Cons p Fs)
  obtain F actions where p: "p = (F, actions)" by (cases p)
  from Cons.prems(1) obtain r w1 where "gxx_personality_v0 F 1 actions cls obj w = Ok r w1" "cleanups Fs cls obj w1 = Ok () w'"
    unfolding p by (auto simp: bind_def split: res.splits)
  then show ?case using cleanup_keeps_cached [of F 1 actions cls obj w r w1 e pad sel] Cons p by auto
qed (simp add: ret_def)

lemma search_caches:
  assumes "exns w e = Some x" and "exception_class_of x = exception_class"
    and "GetLanguageSpecificData (context_of F) = a" and "a \<noteq> 0"
    and "parse_lsda (mem_of F) (context_of F) a = Ok lsda b"
    and "dwarf_eh_find_callsite (fuel_of F) (mem_of F) (context_of F) lsda = Inr (True, act)"
    and "check_action_record F lsda (action_record act) (Some (e, exceptionType x)) = Inr (handler_catch, sel, adj)"
  shows "\<exists>w'. gxx_personality_v0 F 1 UA_SEARCH_PHASE exception_class (e + offsetof_unwindHeader) w = Ok (Reason URC_HANDLER_FOUND) w'
    \<and> cached w' e (landing_pad act) sel"
proof -
  have "gxx_personality_v0 F 1 UA_SEARCH_PHASE exception_class (e + offsetof_unwindHeader) w = search_phase F a (Some e) (Some (e, exceptionType x)) w"
    using assms(1-4) by (simp add: gxx_personality_v0_def with_exception_def realExceptionFromException_def exceptionFromPointer_def
        with_exn_def bind_def ret_def UA_SEARCH_PHASE_def)
  also have "\<dots> = set_adjusted (Some e) adj (saveLandingPad e sel (landing_pad act)
      (with_exn e (\<lambda>x. set_exn e (x\<lparr>languageSpecificData := a, actionRecord := action_record act\<rparr>) (ret (Reason URC_HANDLER_FOUND))))) w"
    using assms(5-7) by (simp add: search_phase_def with_callsite_def lift_sum_def)
  finally show ?thesis using assms(1,2)
    by (cases adj) (auto simp: set_adjusted_def saveLandingPad_def with_exn_def set_exn_def ret_def cached_def)
qed

lemma handler_frame_installs:
  assumes "cached w e pad sel" and "pad \<noteq> 0" and "GetLanguageSpecificData (context_of F) \<noteq> 0"
  shows "\<exists>w'. gxx_personality_v0 F 1 (UA_HANDLER_FRAME OR 2) exception_class (e + offsetof_unwindHeader) w
    = Ok (Install pad (e + offsetof_unwindHeader) sel) w' \<and> cached w' e 0 0"
  using assms
  by (auto simp: cached_def gxx_personality_v0_def handler_frame_def loadLandingPad_def with_exception_def realExceptionFromException_def exceptionFromPointer_def
      with_exn_def set_exn_def bind_def ret_def Let_def UA_SEARCH_PHASE_def UA_HANDLER_FRAME_def)

section \<open>Properties\<close>


lemma ucast_of_int: "ucast (of_int i :: 64 word) = (of_int i :: 32 word)"
  by (rule bit_word_eqI) (auto simp: bit_simps)

lemma read_int_sleb:
  assumes "stored m a (sleb i)" and "- (2 ^ 27) \<le> i" and "i < 2 ^ 27"
  shows "read_int m a = Inr (i, a + of_nat (length (sleb i)))"
proof -
  have "sint (of_int i :: 32 word) = i" using assms(2,3) by (simp add: signed_of_int signed_take_bit_int_eq_self)
  then show ?thesis using read_sleb [OF assms] by (simp add: read_int_def ucast_of_int)
qed

section \<open>Chains of actions\<close>

text \<open>A chain of action records in memory, by its filters.\<close>

primrec actions_at :: "memory \<Rightarrow> ptr \<Rightarrow> int list \<Rightarrow> bool" where
  "actions_at m a [] = (a = 0)"
| "actions_at m a (f # fs) = (a \<noteq> 0 \<and> (\<exists>b d c. read_int m a = Inr (f, b) \<and> read_int m b = Inr (d, c)
     \<and> actions_at m (if d \<noteq> 0 then b + of_int d else 0) fs))"

text \<open>What a positive filter says about the exception.\<close>

definition matches :: "frame \<Rightarrow> dwarf_eh_lsda \<Rightarrow> (ptr \<times> ptr) option \<Rightarrow> int \<Rightarrow> fault + bool \<times> ptr option" where
  "matches F lsda ex f = (case get_type_info_entry F lsda f of Inl e \<Rightarrow> Inl e | Inr t \<Rightarrow> check_type_signature F ex t)"

lemma no_match_no_pointer: "check_type_signature F ex t = Inr (False, a) \<Longrightarrow> a = None"
  by (auto simp: check_type_signature_def split: option.splits sum.splits if_splits)

lemma action_loop_handlers:
  assumes "actions_at (mem_of F) a fs" and "\<forall>f\<in>set fs. 0 \<le> f" and "\<forall>f\<in>set fs. 0 < f \<longrightarrow> (\<exists>r. matches F lsda ex f = Inr r)" and "length fs < n"
  shows "action_loop n F lsda ex a found 0 adj =
    (case find (\<lambda>f. 0 < f \<and> (\<exists>q. matches F lsda ex f = Inr (True, q))) fs of
       Some f \<Rightarrow> (case matches F lsda ex f of Inr (m, q) \<Rightarrow> Inr (handler_catch, f, assigned adj q) | Inl e \<Rightarrow> Inl e)
     | None \<Rightarrow> Inr (if 0 \<in> set fs then handler_cleanup else found, 0, adj))"
  using assms
proof (induction fs arbitrary: a n found)
  case Nil
  then show ?case by (cases n) simp_all
next
  case (Cons f fs)
  obtain k where n: "n = Suc k" "length fs < k" using Cons.prems(4) by (cases n) auto
  from Cons.prems(1) obtain b d c where a: "a \<noteq> 0" "read_int (mem_of F) a = Inr (f, b)" "read_int (mem_of F) b = Inr (d, c)"
      "actions_at (mem_of F) (if d \<noteq> 0 then b + of_int d else 0) fs" by auto
  note ih = Cons.IH [OF a(4) _ _ n(2)]
  show ?case
  proof (cases "f = 0")
    case True
    then show ?thesis using a n ih [of handler_cleanup] Cons.prems(2,3) by (auto split: option.splits)
  next
    case False
    then have pos: "0 < f" using Cons.prems(2) by simp
    then obtain mt q where mq: "matches F lsda ex f = Inr (mt, q)" using Cons.prems(3) by (metis list.set_intros(1) surj_pair)
    then obtain t where t: "get_type_info_entry F lsda f = Inr t" "check_type_signature F ex t = Inr (mt, q)"
      by (auto simp: matches_def split: sum.splits)
    show ?thesis
    proof (cases mt)
      case True
      then show ?thesis using a n pos t mq by simp
    next
      case F: False
      then have "q = None" using no_match_no_pointer [of F ex t q] t(2) by simp
      then show ?thesis using a n pos t mq F ih [of found] Cons.prems(2,3) False by (auto simp: assigned_def)
    qed
  qed
qed

lemma check_action_first:
  assumes "actions_at (mem_of F) a fs" and "fs \<noteq> []" and "\<forall>f\<in>set fs. 0 \<le> f"
    and "\<forall>f\<in>set fs. 0 < f \<longrightarrow> (\<exists>r. matches F lsda ex f = Inr r)" and "length fs < fuel_of F"
  shows "check_action_record F lsda a ex =
    (case find (\<lambda>f. 0 < f \<and> (\<exists>q. matches F lsda ex f = Inr (True, q))) fs of
       Some f \<Rightarrow> Inr (handler_catch, f, (case matches F lsda ex f of Inr (m, q) \<Rightarrow> q | Inl e \<Rightarrow> None))
     | None \<Rightarrow> Inr (if 0 \<in> set fs then handler_cleanup else handler_none, 0, None))"
proof -
  have "a \<noteq> 0" using assms(1,2) by (cases fs) auto
  note loop = action_loop_handlers [OF assms(1,3,4,5), of handler_none None]
  show ?thesis
  proof (cases "find (\<lambda>f. 0 < f \<and> (\<exists>q. matches F lsda ex f = Inr (True, q))) fs")
    case (Some f)
    then obtain q where "matches F lsda ex f = Inr (True, q)" unfolding find_Some_iff by blast
    then show ?thesis using loop Some \<open>a \<noteq> 0\<close> by (cases q) (simp_all add: check_action_record_def assigned_def)
  next
    case None
    then show ?thesis using loop \<open>a \<noteq> 0\<close> by (simp add: check_action_record_def)
  qed
qed


section \<open>Two frames\<close>

text \<open>
  A frame with one call site, whose landing pad is at 64 and whose action record is given; its type table has
  the class \<open>B\<close> of \<open>sample_types\<close>, and an exception specification that allows \<open>B\<close> follows it.
\<close>

definition sample_site :: callsite where
  "sample_site = \<lparr>cs_start = 0, cs_size = 16, cs_pad = 64, cs_action = 1\<rparr>"

definition sample_area :: "8 word list \<Rightarrow> 8 word list" where
  "sample_area acts = put_lsda 0 16 [sample_site] @ acts @ le_bytes 8 0x100 @ [1, 0]"

definition sample_frame :: "8 word list \<Rightarrow> frame" where
  "sample_frame acts = \<lparr>mem_of = memory_of 256 (sample_area acts), types_of = sample_types, void_name_of = 0,
     context_of = sample_context 5, fuel_of = 5\<rparr>"

definition sample_lsda :: dwarf_eh_lsda where
  "sample_lsda = lsda_at (sample_context 5) 0 16 [sample_site] 256"

lemma sample_table: "put_table uleb [sample_site] = [0, 16, 64, 1]" "uleb 16 = [16]" "uleb 4 = [4]"
  by (simp_all add: put_table_def put_callsite_def sample_site_def uleb.simps)

lemma sample_header: "put_lsda 0 16 [sample_site] = [0xff, 0, 16, 1, 4, 0, 16, 64, 1]"
  by (simp add: put_lsda_def sample_table DW_EH_PE_omit_def uleb.simps)

lemma sample_fits: "callsite_fits (\<lambda>k. k < 2 ^ 31) sample_site"
  by (simp add: callsite_fits_def sample_site_def)

lemma sample_lsda_simps: "type_table sample_lsda = 275" "action_table sample_lsda = 265" "type_table_encoding sample_lsda = 0"
  "landing_pads sample_lsda = 4096"
  by (simp_all add: sample_lsda_def lsda_at_def sample_table sample_context_def uleb.simps)

lemma sample_stored:
  fixes x y :: "8 word"
  defines "m \<equiv> mem_of (sample_frame [x, y])"
  shows "stored m 256 (put_lsda 0 16 [sample_site])" "stored m 265 [x, y]" "stored m 267 (le_bytes 8 0x100)" "stored m 275 [1, 0]"
proof -
  have "stored (memory_of 256 (sample_area [x, y])) 256 (sample_area [x, y])"
    by (rule memory_of_stored) (simp add: sample_area_def sample_header)
  then have "stored m 256 (sample_area [x, y])" by (simp add: m_def sample_frame_def)
  then show "stored m 256 (put_lsda 0 16 [sample_site])" "stored m 265 [x, y]" "stored m 267 (le_bytes 8 0x100)" "stored m 275 [1, 0]"
    unfolding sample_area_def stored_append by (simp_all add: sample_header)
qed

lemma sample_parse:
  "parse_lsda (mem_of (sample_frame [x, y])) (sample_context 5) 256 = Ok sample_lsda (call_site_table sample_lsda)"
  "dwarf_eh_find_callsite 5 (mem_of (sample_frame [x, y])) (sample_context 5) sample_lsda = Inr (True, \<lparr>landing_pad = 4160, action_record = 265\<rparr>)"
proof -
  note st = sample_stored(1) [of x y]
  show "parse_lsda (mem_of (sample_frame [x, y])) (sample_context 5) 256 = Ok sample_lsda (call_site_table sample_lsda)"
    unfolding sample_lsda_def by (rule parse_put_lsda(1) [OF st]) (simp_all add: DW_EH_PE_omit_def sample_table)
  have "case lookup 5 [sample_site] of
      Found e \<Rightarrow> dwarf_eh_find_callsite (length [sample_site] + 4) (mem_of (sample_frame [x, y])) (sample_context 5) sample_lsda = Inr (True, action_of sample_lsda e)
    | Stopped \<Rightarrow> dwarf_eh_find_callsite (length [sample_site] + 4) (mem_of (sample_frame [x, y])) (sample_context 5) sample_lsda = Inr (False, no_action)
    | Past \<Rightarrow> dwarf_eh_find_callsite (length [sample_site] + 4) (mem_of (sample_frame [x, y])) (sample_context 5) sample_lsda
        = dwarf_eh_find_callsite 4 (mem_of (sample_frame [x, y])) (sample_context 5) (sample_lsda\<lparr>call_site_table := action_table sample_lsda\<rparr>)"
    unfolding sample_lsda_def
    by (rule lsda_search [OF st]) (simp_all add: DW_EH_PE_omit_def sample_table sample_header sample_fits [simplified] sample_context_def)
  then show "dwarf_eh_find_callsite 5 (mem_of (sample_frame [x, y])) (sample_context 5) sample_lsda = Inr (True, \<lparr>landing_pad = 4160, action_record = 265\<rparr>)"
    by (simp add: sample_site_def covers_def action_of_def sample_lsda_simps)
qed

lemma sample_type: "get_type_info_entry (sample_frame [x, y]) sample_lsda 1 = Inr 0x100"
proof -
  have "get_encoding 0 = DW_EH_PE_absptr" "get_base 0 = Other_relative" "\<not> is_indirect 0"
    by (simp_all add: get_encoding_def get_base_def is_indirect_def)
  then show ?thesis using read_bytes_le [OF sample_stored(3) [of x y]]
    by (simp add: get_type_info_entry_def dwarf_size_of_fixed_size_field_def sample_lsda_simps read_value_def resolve_indirect_value_def
        bind_def ret_def Let_def)
qed

lemma sample_check: "check_type_signature (sample_frame [x, y]) (Some (e, 0x300)) 0x100 = Inr (True, Some (e + sizeof_exception + 8))"
proof -
  have five: "5 = Suc (Suc 3)" by simp
  have "class_at sample_types 0x100" by (simp add: class_at_def is_class_def)
  then have "do_catch (Suc (Suc 3)) m sample_types 0 0x100 0x300 p 1 = Inr (Some (p + 8))" for m p
    using do_catch_class [of sample_types "0x100" "0x300" "Suc 3" m 0 p 1] sample_upcast [of 3 m p] by simp
  then have "do_catch 5 m sample_types 0 0x100 0x300 p 1 = Inr (Some (p + 8))" for m p unfolding five .
  then show ?thesis by (simp add: check_type_signature_def sample_frame_def is_pointer_p_def type_eq_def)
qed

lemma sample_frame_simps [simp]: "types_of (sample_frame acts) = sample_types" "context_of (sample_frame acts) = sample_context 5"
  "fuel_of (sample_frame acts) = 5" "GetLanguageSpecificData (sample_context 5) = 256"
  by (simp_all add: sample_frame_def sample_context_def)

lemma sample_catch_action: "check_action_record (sample_frame [1, 0]) sample_lsda 265 (Some (e, 0x300))
    = Inr (handler_catch, 1, Some (e + sizeof_exception + 8))"
proof -
  have "sleb 1 = [1]" "sleb 0 = [0]" by (simp_all add: sleb.simps)
  then have "read_int (mem_of (sample_frame [1, 0])) 265 = Inr (1, 266)" "read_int (mem_of (sample_frame [1, 0])) 266 = Inr (0, 267)"
    using read_int_sleb [of _ 265 1] read_int_sleb [of _ 266 0] sample_stored(2) [of 1 0] by simp_all
  then show ?thesis using sample_type [of 1 0] sample_check [of 1 0 e]
      action_loop.simps(2) [of 4 "sample_frame [1, 0]" sample_lsda "Some (e, 0x300)" 265 handler_none 0 None]
    by (simp add: check_action_record_def assigned_def)
qed

lemma sample_spec_action: "check_action_record (sample_frame [0x7f, 0]) sample_lsda 265 (Some (e, 0x300))
    = Inr (handler_none, - 1, Some (e + sizeof_exception + 8))"
proof -
  have "sleb (- 1) = [0x7f]" "sleb 0 = [0]" by (simp_all add: sleb.simps)
  then have r: "read_int (mem_of (sample_frame [0x7f, 0])) 265 = Inr (- 1, 266)" "read_int (mem_of (sample_frame [0x7f, 0])) 266 = Inr (0, 267)"
    using read_int_sleb [of _ 265 "- 1"] read_int_sleb [of _ 266 0] sample_stored(2) [of "0x7f" 0] by simp_all
  have "mem_of (sample_frame [0x7f, 0]) 275 = Some 1" using sample_stored(4) [of "0x7f" 0] by simp
  then have "check_spec 5 (sample_frame [0x7f, 0]) sample_lsda (Some (e, 0x300)) 275 None = Inr (True, Some (e + sizeof_exception + 8))"
    using sample_type [of "0x7f" 0] sample_check [of "0x7f" 0 e] check_spec.simps(2) [of 4 "sample_frame [0x7f, 0]" sample_lsda "Some (e, 0x300)" 275 None]
    by (simp add: assigned_def)
  then show ?thesis using r action_loop.simps(2) [of 4 "sample_frame [0x7f, 0]" sample_lsda "Some (e, 0x300)" 265 handler_none 0 None]
      action_loop.simps(2) [of 3 "sample_frame [0x7f, 0]" sample_lsda "Some (e, 0x300)" 0 handler_none "- 1" "Some (e + sizeof_exception + 8)"]
    by (simp add: check_action_record_def sample_lsda_simps)
qed

text \<open>An exception of class \<open>D\<close> whose header is at 0x9000.\<close>

definition sample_thrown :: world where
  "sample_thrown = \<lparr>exns = [0x9000 \<mapsto> zero_exception\<lparr>exceptionType := 0x300, exception_class_of := exception_class\<rparr>],
     foreign = (\<lambda>p. None), has_info = True, caughtExceptions = 0, uncaughtExceptions = 1, foreign_exception_state = Not_foreign,
     emergencyBuffersHeld = 0, buffers = replicate 16 False, callocs = 0, events = []\<rparr>"


lemma sample_actions: "actions_at (mem_of (sample_frame [1, 0])) 265 [1]"
proof -
  have "sleb 1 = [1]" "sleb 0 = [0]" by (simp_all add: sleb.simps)
  then show ?thesis using read_int_sleb [of _ 265 1] read_int_sleb [of _ 266 0] sample_stored(2) [of 1 0] by simp
qed


text \<open>
  C33. A cleanup in phase 2 can change what the handler gets: the search of a frame whose exception
  specification allows the exception stores the pointer for the allowed base class, and nothing
  restores the pointer of the catch clause, so \<open>__cxa_get_exception_ptr\<close> and \<open>__cxa_begin_catch\<close> return
  the wrong object.
\<close>

theorem cleanup_overwrites_adjusted_pointer:
  assumes "exns w e = Some x" and "exception_class_of x = exception_class"
    and "GetLanguageSpecificData (context_of F) = a" and "a \<noteq> 0"
    and "parse_lsda (mem_of F) (context_of F) a = Ok lsda b"
    and "dwarf_eh_find_callsite (fuel_of F) (mem_of F) (context_of F) lsda = Inr (True, act)" and "landing_pad act \<noteq> 0"
    and "check_action_record F lsda (action_record act) (Some (e, exceptionType x)) = Inr (handler_none, sel, Some q)"
  shows "\<exists>w1. gxx_personality_v0 F 1 2 exception_class (e + offsetof_unwindHeader) w = Ok (Reason URC_CONTINUE_UNWIND) w1
    \<and> cxa_get_exception_ptr (e + offsetof_unwindHeader) w = Ok (adjustedPtr x) w
    \<and> cxa_get_exception_ptr (e + offsetof_unwindHeader) w1 = Ok q w1"
proof -
  have "gxx_personality_v0 F 1 2 exception_class (e + offsetof_unwindHeader) w
      = cleanup_phase F a (e + offsetof_unwindHeader) (Some e) (Some (e, exceptionType x)) w"
    using assms(1-4) by (simp add: gxx_personality_v0_def with_exception_def realExceptionFromException_def exceptionFromPointer_def
        with_exn_def bind_def ret_def UA_SEARCH_PHASE_def UA_HANDLER_FRAME_def)
  also have "\<dots> = set_adjusted (Some e) (Some q) continueUnwinding w"
    using assms(5-8) by (simp add: cleanup_phase_def with_callsite_def lift_sum_def)
  finally show ?thesis using assms(1)
    by (simp add: set_adjusted_def with_exn_def set_exn_def continueUnwinding_def ret_def cxa_get_exception_ptr_def exceptionFromPointer_def)
qed

theorem cleanup_overwrites_adjusted_pointer_witness:
  "\<exists>w1. gxx_personality_v0 (sample_frame [0x7f, 0]) 1 2 exception_class (0x9000 + offsetof_unwindHeader) sample_thrown = Ok (Reason URC_CONTINUE_UNWIND) w1
    \<and> cxa_get_exception_ptr (0x9000 + offsetof_unwindHeader) w1 = Ok 0x9088 w1"
  using cleanup_overwrites_adjusted_pointer [of sample_thrown "0x9000" "zero_exception\<lparr>exceptionType := 0x300, exception_class_of := exception_class\<rparr>"
      "sample_frame [0x7f, 0]" 256 sample_lsda "call_site_table sample_lsda" "\<lparr>landing_pad = 4160, action_record = 265\<rparr>" "- 1" "0x9088"]
    sample_parse [of "0x7f" 0] sample_spec_action [of "0x9000"]
  by (auto simp: sample_thrown_def)

end
