(* ===== verification/Unwinding.thy ===== *)
theory Unwinding
  imports Personality
begin

text \<open>
  From a throw to its handler: \<open>__cxa_throw\<close>, the personality routine in every frame of a stack, and \<open>__cxa_begin_catch\<close> together.

  The unwinder is not part of the library. \<open>unwind\<close> is what the C++ ABI says of \<open>_Unwind_RaiseException\<close>, on a
  list of frames, innermost first: the search phase up to the first frame that reports a handler, then the cleanup phase over
  the frames before it and the handler's frame. It is the argument of \<open>cxa_throw\<close> here.
\<close>

unbundle bit_operations_syntax

section \<open>A two-phase unwinder\<close>

primrec phase1 :: "frame list \<Rightarrow> 64 word \<Rightarrow> ptr \<Rightarrow> (Unwind_Reason_Code + nat) X" where
  "phase1 [] cls obj = ret (Inl URC_END_OF_STACK)"
| "phase1 (F # Fs) cls obj = bind (gxx_personality_v0 F 1 UA_SEARCH_PHASE cls obj) (\<lambda>r.
     if r = Reason URC_HANDLER_FOUND then ret (Inr 0)
     else if r = Reason URC_CONTINUE_UNWIND then bind (phase1 Fs cls obj) (\<lambda>x. ret (map_sum id Suc x))
     else ret (Inl URC_FATAL_PHASE1_ERROR))"

text \<open>A cleanup that is installed runs and resumes the unwinding.\<close>

primrec phase2 :: "nat \<Rightarrow> frame list \<Rightarrow> 64 word \<Rightarrow> ptr \<Rightarrow> verdict X" where
  "phase2 i [] cls obj = ret (Reason URC_FATAL_PHASE2_ERROR)"
| "phase2 i (F # Fs) cls obj = (if i = 0 then gxx_personality_v0 F 1 (UA_HANDLER_FRAME OR 2) cls obj
     else bind (gxx_personality_v0 F 1 2 cls obj) (\<lambda>_. phase2 (i - 1) Fs cls obj))"

definition unwind :: "frame list \<Rightarrow> 64 word \<Rightarrow> ptr \<Rightarrow> (Unwind_Reason_Code + nat \<times> verdict) X" where
  "unwind Fs cls obj = bind (phase1 Fs cls obj) (\<lambda>r. case r of Inl c \<Rightarrow> ret (Inl c)
     | Inr i \<Rightarrow> bind (phase2 i Fs cls obj) (\<lambda>v. ret (Inr (i, v))))"

definition raise_over :: "frame list \<Rightarrow> ptr \<Rightarrow> Unwind_Reason_Code option X" where
  "raise_over Fs obj = bind (unwind Fs exception_class obj) (\<lambda>r. case r of Inl c \<Rightarrow> ret (Some c) | Inr _ \<Rightarrow> ret None)"

section \<open>Catch clauses\<close>

text \<open>
  A frame with its catch clauses, each a filter and a class; the filter zero is a cleanup. \<open>tabled\<close> says that the tables of
  the frame encode them; a frame without a data area has none.
\<close>

type_synonym clauses = "(int \<times> ptr) list"

definition clauses_at :: "frame \<Rightarrow> dwarf_eh_lsda \<Rightarrow> ptr \<Rightarrow> clauses \<Rightarrow> bool" where
  "clauses_at F lsda a cs \<longleftrightarrow> actions_at (mem_of F) a (map fst cs) \<and>
     (\<forall>(f, t)\<in>set cs. f = 0 \<or> 0 < f \<and> get_type_info_entry F lsda f = Inr t \<and> t \<noteq> 0 \<and> class_at (types_of F) t)"

definition tabled :: "frame \<Rightarrow> clauses \<Rightarrow> ptr \<Rightarrow> bool" where
  "tabled F cs pad \<longleftrightarrow>
     (if GetLanguageSpecificData (context_of F) = 0 then cs = []
      else length cs < fuel_of F \<and> pad \<noteq> 0
        \<and> (\<exists>lsda b act. parse_lsda (mem_of F) (context_of F) (GetLanguageSpecificData (context_of F)) = Ok lsda b
             \<and> dwarf_eh_find_callsite (fuel_of F) (mem_of F) (context_of F) lsda = Inr (True, act)
             \<and> landing_pad act = pad \<and> clauses_at F lsda (action_record act) cs))"

lemma tabled_catch:
  assumes "tabled F cs pad" and "find P cs = Some c"
  shows "GetLanguageSpecificData (context_of F) \<noteq> 0" and "pad \<noteq> 0"
  using assms by (auto simp: tabled_def split: if_splits)

text \<open>The first clause whose class the object at \<open>p\<close> of class \<open>d\<close> has.\<close>

definition catches :: "memory \<Rightarrow> types \<Rightarrow> ptr \<Rightarrow> ptr \<Rightarrow> int \<times> ptr \<Rightarrow> bool" where
  "catches m ts d p c \<longleftrightarrow> 0 < fst c \<and> (\<exists>q. subobject m ts d p (snd c) q)"

text \<open>
  A type store in which the search for bases ends, and in which a type has one address (the ABI merges them).
\<close>

definition sound_types :: "types \<Rightarrow> (ptr \<Rightarrow> nat) \<Rightarrow> bool" where
  "sound_types ts rank \<longleftrightarrow> ranked ts rank \<and> (\<forall>t u a b. ts t = Some a \<longrightarrow> ts u = Some b \<longrightarrow> type_eq a b \<longrightarrow> t = u)"

lemma check_class:
  assumes "sound_types (types_of F) rank" and "class_at (types_of F) d" and "class_at (types_of F) t" and "t \<noteq> 0" and "rank d < fuel_of F"
    and "\<not> broken (mem_of F) (types_of F) d (e + sizeof_exception)"
  shows "\<exists>r. check_type_signature F (Some (e, d)) t = Inr r \<and>
    (case r of (True, adj) \<Rightarrow> \<exists>q. adj = Some q \<and> subobject (mem_of F) (types_of F) d (e + sizeof_exception) t q
     | (False, adj) \<Rightarrow> adj = None \<and> (\<forall>q. \<not> subobject (mem_of F) (types_of F) d (e + sizeof_exception) t q))"
proof -
  obtain di ti where di: "types_of F d = Some di" "is_class di" and ti: "types_of F t = Some ti" "is_class ti"
    using assms(2,3) unfolding class_at_def by blast
  have np: "\<not> is_pointer_p di" using di(2) by (auto simp: is_pointer_p_def is_class_def split: ti_class.splits)
  show ?thesis
  proof (cases "t = d")
    case True
    then show ?thesis using di np assms(4) by (auto simp: check_type_signature_def type_eq_def intro: self)
  next
    case False
    then have ne: "\<not> type_eq ti di" using assms(1) di(1) ti(1) unfolding sound_types_def by blast
    obtain k where k: "fuel_of F = Suc k" using assms(5) by (cases "fuel_of F") auto
    have up: "do_catch (fuel_of F) (mem_of F) (types_of F) v t d obj 1 = do_upcast (fuel_of F) (mem_of F) (types_of F) t d obj" for v obj
      unfolding k using do_catch_class [OF assms(3) False] by simp
    have "ranked (types_of F) rank" using assms(1) by (simp add: sound_types_def)
    note spec = do_upcast_spec [OF this assms(2,5), of "mem_of F" "e + sizeof_exception" t]
    show ?thesis
    proof (cases "do_upcast (fuel_of F) (mem_of F) (types_of F) t d (e + sizeof_exception)")
      case (Inl f)
      then show ?thesis using spec assms(6) by simp
    next
      case (Inr r)
      then show ?thesis using spec di ti np ne assms(4) up by (cases r) (simp_all add: check_type_signature_def)
    qed
  qed
qed

lemma matches_class:
  assumes "sound_types (types_of F) rank" and "class_at (types_of F) d" and "rank d < fuel_of F"
    and "\<not> broken (mem_of F) (types_of F) d (e + sizeof_exception)" and "clauses_at F lsda a cs" and "(f, t) \<in> set cs" and "0 < f"
  shows "\<exists>r. matches F lsda (Some (e, d)) f = Inr r \<and>
    (case r of (True, adj) \<Rightarrow> \<exists>q. adj = Some q \<and> subobject (mem_of F) (types_of F) d (e + sizeof_exception) t q
     | (False, adj) \<Rightarrow> adj = None \<and> (\<forall>q. \<not> subobject (mem_of F) (types_of F) d (e + sizeof_exception) t q))"
proof -
  have "get_type_info_entry F lsda f = Inr t" "t \<noteq> 0" "class_at (types_of F) t"
    using assms(5-7) by (auto simp: clauses_at_def)
  then show ?thesis using check_class [OF assms(1,2) _ _ assms(3,4), of t] by (simp add: matches_def)
qed

text \<open>The walk over the action records chooses as \<open>catches\<close> says.\<close>

lemma check_clauses:
  assumes "sound_types (types_of F) rank" and "class_at (types_of F) d" and "rank d < fuel_of F"
    and "\<not> broken (mem_of F) (types_of F) d (e + sizeof_exception)" and "clauses_at F lsda a cs" and "length cs < fuel_of F"
  shows "case find (catches (mem_of F) (types_of F) d (e + sizeof_exception)) cs of
      Some c \<Rightarrow> \<exists>q. check_action_record F lsda a (Some (e, d)) = Inr (handler_catch, fst c, Some q)
        \<and> subobject (mem_of F) (types_of F) d (e + sizeof_exception) (snd c) q
    | None \<Rightarrow> check_action_record F lsda a (Some (e, d)) = Inr (if cs = [] \<or> 0 \<in> fst ` set cs then handler_cleanup else handler_none, 0, None)"
proof (cases "cs = []")
  case True
  then have "a = 0" using assms(5) by (simp add: clauses_at_def)
  then show ?thesis using True by (simp add: check_action_record_def)
next
  case False
  let ?M = "\<lambda>f. 0 < f \<and> (\<exists>q. matches F lsda (Some (e, d)) f = Inr (True, q))"
  let ?C = "catches (mem_of F) (types_of F) d (e + sizeof_exception)"
  note match = matches_class [OF assms(1-5)]
  have total: "\<exists>r. matches F lsda (Some (e, d)) f = Inr r" if "(f, t) \<in> set cs" "0 < f" for f t using match [OF that] by blast
  have dec: "?M f \<longleftrightarrow> ?C (f, t)" if mem: "(f, t) \<in> set cs" for f t
  proof (cases "0 < f")
    case True
    then obtain b adj where "matches F lsda (Some (e, d)) f = Inr (b, adj)"
        "case b of True \<Rightarrow> \<exists>q. adj = Some q \<and> subobject (mem_of F) (types_of F) d (e + sizeof_exception) t q
          | False \<Rightarrow> adj = None \<and> (\<forall>q. \<not> subobject (mem_of F) (types_of F) d (e + sizeof_exception) t q)"
      using match [OF mem] by auto
    then show ?thesis by (cases b) (auto simp: catches_def True)
  qed (simp add: catches_def)
  have found: "find ?M (map fst cs') = map_option fst (find ?C cs')" if "set cs' \<subseteq> set cs" for cs'
    using that
  proof (induction cs')
    case (Cons c cs')
    have "?M (fst c) \<longleftrightarrow> ?C c" using dec [of "fst c" "snd c"] Cons.prems by simp
    then show ?case using Cons by simp
  qed simp
  have "check_action_record F lsda a (Some (e, d)) = (case find ?M (map fst cs) of
       Some f \<Rightarrow> Inr (handler_catch, f, (case matches F lsda (Some (e, d)) f of Inr (m, q) \<Rightarrow> q | Inl e \<Rightarrow> None))
     | None \<Rightarrow> Inr (if 0 \<in> set (map fst cs) then handler_cleanup else handler_none, 0, None))"
    by (rule check_action_first) (use assms(5,6) False total in \<open>auto simp: clauses_at_def\<close>)
  note eq = this [unfolded found [OF subset_refl]]
  show ?thesis
  proof (cases "find ?C cs")
    case (Some c)
    then have c: "c \<in> set cs" "0 < fst c" "?C c" by (auto simp: find_Some_iff catches_def)
    then have "\<exists>adj. matches F lsda (Some (e, d)) (fst c) = Inr (True, adj)" using dec [of "fst c" "snd c"] by simp
    then obtain q where "matches F lsda (Some (e, d)) (fst c) = Inr (True, Some q)"
        "subobject (mem_of F) (types_of F) d (e + sizeof_exception) (snd c) q"
      using match [of "fst c" "snd c"] c by auto
    then show ?thesis using eq Some by simp
  qed (use eq False in auto)
qed

section \<open>One frame\<close>

text \<open>The routine on a C++ exception that is not a dependent one.\<close>

lemma personality_phases:
  assumes "exns w e = Some x" and "exception_class_of x = exception_class" and "GetLanguageSpecificData (context_of F) = a" and "a \<noteq> 0"
  shows "gxx_personality_v0 F 1 UA_SEARCH_PHASE exception_class (e + offsetof_unwindHeader) w
      = search_phase F a (Some e) (Some (e, exceptionType x)) w"
    and "gxx_personality_v0 F 1 2 exception_class (e + offsetof_unwindHeader) w
      = cleanup_phase F a (e + offsetof_unwindHeader) (Some e) (Some (e, exceptionType x)) w"
    and "gxx_personality_v0 F 1 (UA_HANDLER_FRAME OR 2) exception_class (e + offsetof_unwindHeader) w
      = handler_frame F a (e + offsetof_unwindHeader) (Some e) (Some (e, exceptionType x)) w"
  using assms by (simp_all add: gxx_personality_v0_def with_exception_def realExceptionFromException_def exceptionFromPointer_def
      with_exn_def bind_def ret_def UA_SEARCH_PHASE_def UA_HANDLER_FRAME_def)

lemma personality_no_data:
  assumes "exns w e = Some x" and "exception_class_of x = exception_class" and "GetLanguageSpecificData (context_of F) = 0"
  shows "gxx_personality_v0 F 1 actions exception_class (e + offsetof_unwindHeader) w = Ok (Reason URC_CONTINUE_UNWIND) w"
  using assms by (simp add: gxx_personality_v0_def with_exception_def realExceptionFromException_def exceptionFromPointer_def
      with_exn_def bind_def ret_def continueUnwinding_def)

text \<open>A frame whose destructors have to run: its clauses are empty or contain a cleanup.\<close>

definition has_cleanup :: "frame \<Rightarrow> clauses \<Rightarrow> bool" where
  "has_cleanup F cs \<longleftrightarrow> GetLanguageSpecificData (context_of F) \<noteq> 0 \<and> (cs = [] \<or> 0 \<in> fst ` set cs)"

text \<open>What the search leaves in the exception.\<close>

definition handled_by :: "frame \<Rightarrow> ptr \<Rightarrow> ptr \<Rightarrow> int \<Rightarrow> ptr \<Rightarrow> cxa_exception \<Rightarrow> cxa_exception" where
  "handled_by F pad act sel q x = x\<lparr>adjustedPtr := q, handlerSwitchValue := sel, catchTemp := pad,
     languageSpecificData := GetLanguageSpecificData (context_of F), actionRecord := act\<rparr>"

lemma tabled_search:
  assumes "exns w e = Some x" and "exception_class_of x = exception_class" and "exceptionType x = d"
    and "sound_types (types_of F) rank" and "class_at (types_of F) d" and "rank d < fuel_of F"
    and "\<not> broken (mem_of F) (types_of F) d (e + sizeof_exception)" and "tabled F cs pad"
  shows "case find (catches (mem_of F) (types_of F) d (e + sizeof_exception)) cs of
      Some c \<Rightarrow> \<exists>q act. subobject (mem_of F) (types_of F) d (e + sizeof_exception) (snd c) q \<and>
        gxx_personality_v0 F 1 UA_SEARCH_PHASE exception_class (e + offsetof_unwindHeader) w
          = Ok (Reason URC_HANDLER_FOUND) (w\<lparr>exns := (exns w)(e \<mapsto> handled_by F pad act (fst c) q x)\<rparr>)
    | None \<Rightarrow> gxx_personality_v0 F 1 UA_SEARCH_PHASE exception_class (e + offsetof_unwindHeader) w = Ok (Reason URC_CONTINUE_UNWIND) w
        \<and> gxx_personality_v0 F 1 2 exception_class (e + offsetof_unwindHeader) w
          = Ok (if has_cleanup F cs then Install pad (e + offsetof_unwindHeader) 0 else Reason URC_CONTINUE_UNWIND) w"
proof (cases "GetLanguageSpecificData (context_of F) = 0")
  case True
  then show ?thesis using assms(8) personality_no_data [OF assms(1,2) True] by (simp add: tabled_def has_cleanup_def)
next
  case False
  with assms(8) obtain lsda b act where t: "length cs < fuel_of F" "landing_pad act = pad"
      "parse_lsda (mem_of F) (context_of F) (GetLanguageSpecificData (context_of F)) = Ok lsda b"
      "dwarf_eh_find_callsite (fuel_of F) (mem_of F) (context_of F) lsda = Inr (True, act)" "clauses_at F lsda (action_record act) cs" "pad \<noteq> 0"
    unfolding tabled_def by auto
  note pers = personality_phases [OF assms(1,2) refl False, unfolded assms(3)]
  note chk = check_clauses [OF assms(4-7) t(5,1)]
  show ?thesis
  proof (cases "find (catches (mem_of F) (types_of F) d (e + sizeof_exception)) cs")
    case None
    then show ?thesis using chk t(2-4,6) False
      by (simp add: pers search_phase_def cleanup_phase_def with_callsite_def lift_sum_def set_adjusted_def continueUnwinding_def ret_def
          has_cleanup_def)
  next
    case (Some c)
    then obtain q where q: "check_action_record F lsda (action_record act) (Some (e, d)) = Inr (handler_catch, fst c, Some q)"
        "subobject (mem_of F) (types_of F) d (e + sizeof_exception) (snd c) q" using chk by auto
    have "gxx_personality_v0 F 1 UA_SEARCH_PHASE exception_class (e + offsetof_unwindHeader) w
        = Ok (Reason URC_HANDLER_FOUND) (w\<lparr>exns := (exns w)(e \<mapsto> handled_by F pad (action_record act) (fst c) q x)\<rparr>)"
      using q(1) t(2-4) assms(1) by (simp add: pers search_phase_def with_callsite_def lift_sum_def set_adjusted_def saveLandingPad_def
          with_exn_def set_exn_def ret_def handled_by_def)
    then show ?thesis using Some q(2) by auto
  qed
qed

section \<open>A stack of frames\<close>

text \<open>All frames of a program with one memory and one type store; each comes with its clauses and its landing pad.\<close>

type_synonym stack = "(frame \<times> clauses \<times> ptr) list"

definition stack_ok :: "memory \<Rightarrow> types \<Rightarrow> nat \<Rightarrow> stack \<Rightarrow> bool" where
  "stack_ok m ts n st \<longleftrightarrow> (\<forall>(F, cs, pad)\<in>set st. mem_of F = m \<and> types_of F = ts \<and> n < fuel_of F \<and> tabled F cs pad)"

text \<open>The innermost frame with a clause that catches the object, and the first such clause.\<close>

primrec handler_for :: "memory \<Rightarrow> types \<Rightarrow> ptr \<Rightarrow> ptr \<Rightarrow> stack \<Rightarrow> (nat \<times> (int \<times> ptr) \<times> ptr) option" where
  "handler_for m ts d p [] = None"
| "handler_for m ts d p (fr # st) = (case find (catches m ts d p) (fst (snd fr)) of
     Some c \<Rightarrow> Some (0, c, snd (snd fr))
   | None \<Rightarrow> map_option (\<lambda>(i, r). (Suc i, r)) (handler_for m ts d p st))"

lemma phase1_handler:
  assumes "exns w e = Some x" and "exception_class_of x = exception_class" and "exceptionType x = d"
    and "sound_types ts rank" and "class_at ts d" and "\<not> broken m ts d (e + sizeof_exception)" and "stack_ok m ts (rank d) st"
  shows "case handler_for m ts d (e + sizeof_exception) st of
      None \<Rightarrow> phase1 (map fst st) exception_class (e + offsetof_unwindHeader) w = Ok (Inl URC_END_OF_STACK) w
    | Some (i, c, pad) \<Rightarrow> \<exists>q act. subobject m ts d (e + sizeof_exception) (snd c) q \<and> pad \<noteq> 0 \<and> i < length st \<and>
        phase1 (map fst st) exception_class (e + offsetof_unwindHeader) w
          = Ok (Inr i) (w\<lparr>exns := (exns w)(e \<mapsto> handled_by (fst (st ! i)) pad act (fst c) q x)\<rparr>)"
  using assms(7)
proof (induction st)
  case (Cons fr st)
  obtain F cs pad where fr: "fr = (F, cs, pad)" by (cases fr)
  have F: "mem_of F = m" "types_of F = ts" "rank d < fuel_of F" "tabled F cs pad" and rest: "stack_ok m ts (rank d) st"
    using Cons.prems by (auto simp: stack_ok_def fr)
  note one = tabled_search [OF assms(1-3), of F rank, unfolded F(1,2), OF assms(4,5) F(3) assms(6) F(4)]
  show ?case
  proof (cases "find (catches m ts d (e + sizeof_exception)) cs")
    case (Some c)
    then obtain q act where "subobject m ts d (e + sizeof_exception) (snd c) q"
        "gxx_personality_v0 F 1 UA_SEARCH_PHASE exception_class (e + offsetof_unwindHeader) w
          = Ok (Reason URC_HANDLER_FOUND) (w\<lparr>exns := (exns w)(e \<mapsto> handled_by F pad act (fst c) q x)\<rparr>)" using one by auto
    then have "subobject m ts d (e + sizeof_exception) (snd c) q \<and> pad \<noteq> 0 \<and> 0 < length (fr # st) \<and>
        phase1 (map fst (fr # st)) exception_class (e + offsetof_unwindHeader) w
          = Ok (Inr 0) (w\<lparr>exns := (exns w)(e \<mapsto> handled_by (fst ((fr # st) ! 0)) pad act (fst c) q x)\<rparr>)"
      using tabled_catch(2) [OF F(4) Some] by (simp add: fr bind_def ret_def)
    moreover have "handler_for m ts d (e + sizeof_exception) (fr # st) = Some (0, c, pad)" using Some by (simp add: fr)
    ultimately show ?thesis by (simp only: option.case prod.case) blast
  next
    case None
    then show ?thesis using one Cons.IH [OF rest]
      by (cases "handler_for m ts d (e + sizeof_exception) st"; auto simp: fr bind_def ret_def; blast)
  qed
qed (simp add: ret_def)

lemma phase2_handler:
  assumes "exns w e = Some x" and "exception_class_of x = exception_class" and "exceptionType x = d" and "catchTemp x = pad"
    and "sound_types ts rank" and "class_at ts d" and "\<not> broken m ts d (e + sizeof_exception)" and "stack_ok m ts (rank d) st"
    and "handler_for m ts d (e + sizeof_exception) st = Some (i, c, pad)"
  shows "phase2 i (map fst st) exception_class (e + offsetof_unwindHeader) w
    = Ok (Install pad (e + offsetof_unwindHeader) (handlerSwitchValue x)) (w\<lparr>exns := (exns w)(e \<mapsto> x\<lparr>catchTemp := 0, handlerSwitchValue := 0\<rparr>)\<rparr>)"
  using assms(8,9)
proof (induction st arbitrary: i)
  case (Cons fr st)
  obtain F cs p where fr: "fr = (F, cs, p)" by (cases fr)
  have F: "mem_of F = m" "types_of F = ts" "rank d < fuel_of F" "tabled F cs p" and rest: "stack_ok m ts (rank d) st"
    using Cons.prems(1) by (auto simp: stack_ok_def fr)
  note one = tabled_search [OF assms(1-3), of F rank, unfolded F(1,2), OF assms(5,6) F(3) assms(7) F(4)]
  show ?case
  proof (cases "find (catches m ts d (e + sizeof_exception)) cs")
    case (Some c')
    note a = tabled_catch [OF F(4) Some]
    from Some have "i = 0" "pad \<noteq> 0" using Cons.prems(2) a(2) by (auto simp: fr)
    then show ?thesis using assms(1,4)
      by (simp add: fr personality_phases(3) [OF assms(1,2) refl a(1)] handler_frame_def loadLandingPad_def with_exn_def set_exn_def ret_def fun_upd_def)
  next
    case None
    then obtain j where "i = Suc j" "handler_for m ts d (e + sizeof_exception) st = Some (j, c, pad)" using Cons.prems(2) by (auto simp: fr)
    moreover from None one obtain v where "gxx_personality_v0 F 1 2 exception_class (e + offsetof_unwindHeader) w = Ok v w" by auto
    ultimately show ?thesis using Cons.IH [OF rest] by (simp add: fr bind_def)
  qed
qed simp

lemma unwind_handler:
  assumes "exns w e = Some x" and "exception_class_of x = exception_class" and "exceptionType x = d"
    and "sound_types ts rank" and "class_at ts d" and "\<not> broken m ts d (e + sizeof_exception)" and "stack_ok m ts (rank d) st"
  shows "case handler_for m ts d (e + sizeof_exception) st of
      None \<Rightarrow> unwind (map fst st) exception_class (e + offsetof_unwindHeader) w = Ok (Inl URC_END_OF_STACK) w
    | Some (i, c, pad) \<Rightarrow> \<exists>q act lsda. subobject m ts d (e + sizeof_exception) (snd c) q \<and>
        unwind (map fst st) exception_class (e + offsetof_unwindHeader) w
          = Ok (Inr (i, Install pad (e + offsetof_unwindHeader) (fst c)))
              (w\<lparr>exns := (exns w)(e \<mapsto> x\<lparr>adjustedPtr := q, handlerSwitchValue := 0, catchTemp := 0, languageSpecificData := lsda, actionRecord := act\<rparr>)\<rparr>)"
proof -
  note search = phase1_handler [OF assms]
  show ?thesis
  proof (cases "handler_for m ts d (e + sizeof_exception) st")
    case None
    then show ?thesis using search by (simp add: unwind_def bind_def ret_def)
  next
    case (Some r)
    obtain i c pad where r: "r = (i, c, pad)" by (cases r)
    from search Some r obtain q act where q: "subobject m ts d (e + sizeof_exception) (snd c) q" and found:
        "phase1 (map fst st) exception_class (e + offsetof_unwindHeader) w
          = Ok (Inr i) (w\<lparr>exns := (exns w)(e \<mapsto> handled_by (fst (st ! i)) pad act (fst c) q x)\<rparr>)" by auto
    let ?x = "handled_by (fst (st ! i)) pad act (fst c) q x"
    have "phase2 i (map fst st) exception_class (e + offsetof_unwindHeader) (w\<lparr>exns := (exns w)(e \<mapsto> ?x)\<rparr>)
      = Ok (Install pad (e + offsetof_unwindHeader) (handlerSwitchValue ?x))
          (w\<lparr>exns := (exns w)(e \<mapsto> ?x)\<rparr>\<lparr>exns := (exns (w\<lparr>exns := (exns w)(e \<mapsto> ?x)\<rparr>))(e \<mapsto> ?x\<lparr>catchTemp := 0, handlerSwitchValue := 0\<rparr>)\<rparr>)"
      by (rule phase2_handler [OF _ _ _ _ assms(4-7)]) (use assms(2,3) Some r in \<open>simp_all add: handled_by_def\<close>)
    then have "unwind (map fst st) exception_class (e + offsetof_unwindHeader) w = Ok (Inr (i, Install pad (e + offsetof_unwindHeader) (fst c)))
        (w\<lparr>exns := (exns w)(e \<mapsto> x\<lparr>adjustedPtr := q, handlerSwitchValue := 0, catchTemp := 0,
           languageSpecificData := GetLanguageSpecificData (context_of (fst (st ! i))), actionRecord := act\<rparr>)\<rparr>)"
      using found by (cases x) (simp add: unwind_def bind_def ret_def handled_by_def)
    with q show ?thesis unfolding Some r option.case prod.case by blast
  qed
qed

section \<open>From the throw to the handler\<close>

text \<open>The header when the unwinder is entered.\<close>

definition thrown_header :: "outside \<Rightarrow> ptr \<Rightarrow> ptr \<Rightarrow> cxa_exception \<Rightarrow> cxa_exception" where
  "thrown_header E d dest x =
     (let own = thread_infos (in_force E) (thread_id E) in
      x\<lparr>referenceCount := 1, exceptionType := d, exceptionDestructor := dest, exception_class_of := exception_class,
        exception_cleanup_of := exception_cleanup E,
        ex_unexpectedHandler := (if unexpectedHandler_of own = 0 then unexpectedHandler (in_force E) else unexpectedHandler_of own),
        ex_terminateHandler := (if terminateHandler_of own = 0 then terminateHandler (in_force E) else terminateHandler_of own)\<rparr>)"

lemma thrown_header_simps [simp]:
  "exception_class_of (thrown_header E d dest x) = exception_class" "exceptionType (thrown_header E d dest x) = d"
  "handlerCount (thrown_header E d dest x) = handlerCount x"
  by (simp_all add: thrown_header_def Let_def)

text \<open>The world when the unwinder is entered.\<close>

definition in_flight :: "outside \<Rightarrow> ptr \<Rightarrow> ptr \<Rightarrow> ptr \<Rightarrow> cxa_exception \<Rightarrow> world \<Rightarrow> world" where
  "in_flight E d dest e x w = w\<lparr>exns := (exns w)(e \<mapsto> thrown_header E d dest x), uncaughtExceptions := uncaughtExceptions w + 1\<rparr>"

lemma throw_enters:
  assumes "has_info w" and "exns w e = Some x"
  shows "cxa_throw E raise (e + sizeof_exception) d dest w
      = bind (raise (e + offsetof_unwindHeader)) (\<lambda>err. case err of None \<Rightarrow> ret () | Some c \<Rightarrow> report_failure E c e)
          (in_flight E d dest e x w)"
proof -
  obtain exs fo hi ca un fs eb bu cl ev where "w = \<lparr>exns = exs, foreign = fo, has_info = hi, caughtExceptions = ca, uncaughtExceptions = un,
      foreign_exception_state = fs, emergencyBuffersHeld = eb, buffers = bu, callocs = cl, events = ev\<rparr>" by (cases w)
  then show ?thesis using assms
    by (cases x) (simp add: cxa_throw_def cxa_init_primary_exception_def throw_exception_def thread_info_def bind_def ret_def with_exn_def
        set_exn_def upd_def Let_def thrown_header_def in_flight_def cong: if_weak_cong)
qed

section \<open>Properties\<close>


text \<open>One frame with a clause for \<open>B\<close>, and an object of class \<open>D\<close> whose header is at 0x9000.\<close>

definition sample_stack :: stack where
  "sample_stack = [(sample_frame [1, 0], [(1, 0x100)], 4160)]"

lemma sample_sound: "sound_types sample_types sample_rank"
proof -
  have "t = u" if "sample_types t = Some a" "sample_types u = Some b" "type_eq a b" for t u a b
    using that by (auto simp: sample_types_def type_eq_def split: if_splits)
  then show ?thesis using sample_ranked by (auto simp: sound_types_def)
qed

lemma sample_not_broken: "\<not> broken m sample_types 0x300 p"
proof
  assume "broken m sample_types 0x300 p"
  then obtain v q ti f bs b where "sample_types v = Some ti" "ti_class ti = vmi_class_type_info f bs" "b \<in> set bs" "base_address m q b = Inl Out_Of_Bounds"
    unfolding broken_def by blast
  then show False by (auto simp: sample_types_def base_address_def isVirtual_def flags_def virtual_mask_def split: if_splits)
qed

lemma sample_tabled: "tabled (sample_frame [1, 0]) [(1, 0x100)] 4160"
proof -
  have "clauses_at (sample_frame [1, 0]) sample_lsda 265 [(1, 0x100)]"
    using sample_actions sample_type [of 1 0] by (simp add: clauses_at_def class_at_def is_class_def)
  then show ?thesis using sample_parse [of 1 0] by (simp add: tabled_def)
qed

lemma sample_handler: "handler_for m sample_types 0x300 p sample_stack = Some (0, (1, 0x100), 4160)"
proof -
  have "subobject m sample_types 0x300 p 0x100 (p + 8)" by (rule do_upcast_sound [OF sample_upcast])
  then have "catches m sample_types 0x300 p (1, 0x100)" by (auto simp: catches_def)
  then show ?thesis by (simp add: sample_stack_def)
qed


end
