(* ===== verification/Cleanups.thy ===== *)
theory Cleanups
  imports Unwinding
begin

text \<open>
  The destructors that run between a throw and its handler. \<open>Unwinding\<close> says which handler an exception reaches; here the second phase also runs
  the landing pads that the personality routine installs on the way, with code that may use the runtime as it likes
  as long as it leaves the exception in flight alone.
\<close>

section \<open>The second phase with its cleanups\<close>

text \<open>The result lists the landing pads that were run, with their selectors, in the order in which they ran.\<close>

primrec run_phase2 :: "(ptr \<Rightarrow> unit X) \<Rightarrow> nat \<Rightarrow> frame list \<Rightarrow> 64 word \<Rightarrow> ptr \<Rightarrow> ((ptr \<times> int) list \<times> verdict) X" where
  "run_phase2 code i [] cls obj = ret ([], Reason URC_FATAL_PHASE2_ERROR)"
| "run_phase2 code i (F # Fs) cls obj =
     (if i = 0 then bind (gxx_personality_v0 F 1 (UA_HANDLER_FRAME OR 2) cls obj) (\<lambda>v. ret ([], v))
      else bind (gxx_personality_v0 F 1 2 cls obj) (\<lambda>v. case v of
          Reason r \<Rightarrow> run_phase2 code (i - 1) Fs cls obj
        | Install pad _ sel \<Rightarrow> bind (code pad) (\<lambda>_.
            bind (run_phase2 code (i - 1) Fs cls obj) (\<lambda>(ps, u). ret ((pad, sel) # ps, u)))))"

definition unwind_running :: "(ptr \<Rightarrow> unit X) \<Rightarrow> frame list \<Rightarrow> 64 word \<Rightarrow> ptr
    \<Rightarrow> (Unwind_Reason_Code + (ptr \<times> int) list \<times> verdict) X" where
  "unwind_running code Fs cls obj = bind (phase1 Fs cls obj) (\<lambda>r. case r of Inl c \<Rightarrow> ret (Inl c)
     | Inr i \<Rightarrow> bind (run_phase2 code i Fs cls obj) (\<lambda>v. ret (Inr v)))"

text \<open>Code that returns and leaves the exception \<open>e\<close> as it is.\<close>

definition leaves :: "ptr \<Rightarrow> (ptr \<Rightarrow> unit X) \<Rightarrow> bool" where
  "leaves e code \<longleftrightarrow> (\<forall>p w. \<exists>w'. code p w = Ok () w' \<and> exns w' e = exns w e)"

text \<open>The landing pads of the frames above the handler's that have destructors to run.\<close>

definition cleanups_of :: "stack \<Rightarrow> (ptr \<times> int) list" where
  "cleanups_of st = map (\<lambda>(F, cs, pad). (pad, 0)) (filter (\<lambda>(F, cs, pad). has_cleanup F cs) st)"

lemma run_phase2_handler:
  assumes "exns w e = Some x" and "exception_class_of x = exception_class" and "exceptionType x = d" and "catchTemp x = pad"
    and "sound_types ts rank" and "class_at ts d" and "\<not> broken m ts d (e + sizeof_exception)" and "stack_ok m ts (rank d) st"
    and "handler_for m ts d (e + sizeof_exception) st = Some (i, c, pad)" and "leaves e code"
  shows "\<exists>w'. run_phase2 code i (map fst st) exception_class (e + offsetof_unwindHeader) w
      = Ok (cleanups_of (take i st), Install pad (e + offsetof_unwindHeader) (handlerSwitchValue x)) w'
    \<and> exns w' e = Some (x\<lparr>catchTemp := 0, handlerSwitchValue := 0\<rparr>)"
  using assms(1,8,9)
proof (induction st arbitrary: i w)
  case (Cons fr st)
  obtain F cs p where fr: "fr = (F, cs, p)" by (cases fr)
  have F: "mem_of F = m" "types_of F = ts" "rank d < fuel_of F" "tabled F cs p" and rest: "stack_ok m ts (rank d) st"
    using Cons.prems(2) by (auto simp: stack_ok_def fr)
  note one = tabled_search [OF Cons.prems(1) assms(2,3), of F rank, unfolded F(1,2), OF assms(5,6) F(3) assms(7) F(4)]
  show ?case
  proof (cases "find (catches m ts d (e + sizeof_exception)) cs")
    case (Some c')
    note a = tabled_catch [OF F(4) Some]
    from Some have "i = 0" "pad \<noteq> 0" using Cons.prems(3) a(2) by (auto simp: fr)
    then show ?thesis using Cons.prems(1) assms(4)
      by (simp add: fr personality_phases(3) [OF Cons.prems(1) assms(2) refl a(1)] handler_frame_def loadLandingPad_def with_exn_def set_exn_def
          ret_def bind_def cleanups_of_def)
  next
    case None
    then obtain j where j: "i = Suc j" "handler_for m ts d (e + sizeof_exception) st = Some (j, c, pad)" using Cons.prems(3) by (auto simp: fr)
    from None one have v: "gxx_personality_v0 F 1 2 exception_class (e + offsetof_unwindHeader) w
      = Ok (if has_cleanup F cs then Install p (e + offsetof_unwindHeader) 0 else Reason URC_CONTINUE_UNWIND) w" by simp
    obtain w1 where w1: "code p w = Ok () w1" "exns w1 e = Some x" using assms(10) Cons.prems(1) unfolding leaves_def by metis
    show ?thesis
      using Cons.IH [OF w1(2) rest j(2)] Cons.IH [OF Cons.prems(1) rest j(2)] v w1(1)
      by (cases "has_cleanup F cs") (auto simp: fr j(1) bind_def ret_def cleanups_of_def)
  qed
qed simp

section \<open>Properties\<close>

text \<open>
  Two frames of one function. Its first call site is in a scope with a destructor, whose landing pad is at 80; its second is in a
  try block with a handler for the class \<open>B\<close> of \<open>sample_types\<close>, whose landing pad is at 64.
\<close>

definition two_sites :: "callsite list" where
  "two_sites = [\<lparr>cs_start = 0, cs_size = 16, cs_pad = 80, cs_action = 0\<rparr>, \<lparr>cs_start = 16, cs_size = 16, cs_pad = 64, cs_action = 1\<rparr>]"

definition two_area :: "8 word list" where
  "two_area = put_lsda 0 20 two_sites @ [1, 0] @ le_bytes 8 0x100"

definition two_frame :: "nat \<Rightarrow> frame" where
  "two_frame ip = \<lparr>mem_of = memory_of 256 two_area, types_of = sample_types, void_name_of = 0, context_of = sample_context ip, fuel_of = 6\<rparr>"

definition two_lsda :: dwarf_eh_lsda where
  "two_lsda = lsda_at (sample_context 0) 0 20 two_sites 256"

definition two_stack :: stack where
  "two_stack = [(two_frame 5, [], 4176), (two_frame 20, [(1, 0x100)], 4160)]"

lemma two_frame_simps [simp]: "mem_of (two_frame ip) = memory_of 256 two_area" "types_of (two_frame ip) = sample_types"
  "context_of (two_frame ip) = sample_context ip" "fuel_of (two_frame ip) = 6" "GetLanguageSpecificData (sample_context ip) = 256"
  by (simp_all add: two_frame_def sample_context_def)

lemma two_header: "put_table uleb two_sites = [0, 16, 80, 0, 16, 16, 64, 1]" "put_lsda 0 20 two_sites = [0xff, 0, 20, 1, 8, 0, 16, 80, 0, 16, 16, 64, 1]"
  "uleb 20 = [20]" "uleb 8 = [8]"
  by (simp_all add: put_lsda_def put_table_def put_callsite_def two_sites_def DW_EH_PE_omit_def uleb.simps)

lemma two_lsda_simps: "type_table two_lsda = 279" "action_table two_lsda = 269" "type_table_encoding two_lsda = 0" "landing_pads two_lsda = 4096"
  by (simp_all add: two_lsda_def lsda_at_def two_header sample_context_def uleb.simps)

lemma two_context: "lsda_at (sample_context ip) 0 20 two_sites 256 = two_lsda"
  by (simp add: two_lsda_def lsda_at_def sample_context_def)

lemma two_stored: "stored (memory_of 256 two_area) 256 (put_lsda 0 20 two_sites)" "stored (memory_of 256 two_area) 269 [1, 0]"
  "stored (memory_of 256 two_area) 271 (le_bytes 8 0x100)"
proof -
  have "stored (memory_of 256 two_area) 256 two_area" by (rule memory_of_stored) (simp add: two_area_def two_header)
  then show "stored (memory_of 256 two_area) 256 (put_lsda 0 20 two_sites)" "stored (memory_of 256 two_area) 269 [1, 0]"
    "stored (memory_of 256 two_area) 271 (le_bytes 8 0x100)"
    unfolding two_area_def stored_append by (simp_all add: two_header)
qed

lemma two_parse: "parse_lsda (memory_of 256 two_area) (sample_context ip) 256 = Ok two_lsda (call_site_table two_lsda)"
  unfolding two_context [of ip, symmetric] by (rule parse_put_lsda(1) [OF two_stored(1)]) (simp_all add: DW_EH_PE_omit_def two_header)

lemma two_search:
  assumes "lookup ip two_sites = Found s" and "ip < 2 ^ 63"
  shows "dwarf_eh_find_callsite 6 (memory_of 256 two_area) (sample_context ip) two_lsda = Inr (True, action_of two_lsda s)"
proof -
  have fits: "\<forall>s\<in>set two_sites. callsite_fits (\<lambda>k. k < 2 ^ 31) s" by (simp add: two_sites_def callsite_fits_def)
  have "GetIP (sample_context ip) - GetRegionStart (sample_context ip) = of_nat ip" by (simp add: sample_context_def)
  moreover have "length two_sites + 4 = 6" by (simp add: two_sites_def)
  ultimately show ?thesis using lsda_search [OF two_stored(1) _ _ _ _ fits _ assms(2), of "sample_context ip" 4] assms(1)
    by (simp add: two_context DW_EH_PE_omit_def two_header)
qed

lemma two_type: "get_type_info_entry (two_frame ip) two_lsda 1 = Inr 0x100"
proof -
  have "get_encoding 0 = DW_EH_PE_absptr" "get_base 0 = Other_relative" "\<not> is_indirect 0"
    by (simp_all add: get_encoding_def get_base_def is_indirect_def)
  then show ?thesis using read_bytes_le [OF two_stored(3)]
    by (simp add: get_type_info_entry_def dwarf_size_of_fixed_size_field_def two_lsda_simps read_value_def resolve_indirect_value_def
        bind_def ret_def Let_def)
qed

lemma two_stack_ok: "stack_ok (memory_of 256 two_area) sample_types (sample_rank 0x300) two_stack"
proof -
  have "sleb 1 = [1]" "sleb 0 = [0]" by (simp_all add: sleb.simps)
  then have "actions_at (memory_of 256 two_area) 269 [1]"
    using read_int_sleb [of _ 269 1] read_int_sleb [of _ 270 0] two_stored(2) by simp
  then have "clauses_at (two_frame 20) two_lsda 269 [(1, 0x100)]" "clauses_at (two_frame 5) two_lsda 0 []"
    using two_type [of 20] by (simp_all add: clauses_at_def class_at_def is_class_def)
  moreover have "lookup 5 two_sites = Found (two_sites ! 0)" "lookup 20 two_sites = Found (two_sites ! 1)"
    by (simp_all add: two_sites_def covers_def)
  note this [THEN two_search]
  ultimately have "tabled (two_frame 5) [] 4176" "tabled (two_frame 20) [(1, 0x100)] 4160"
    using two_parse [of 5] two_parse [of 20] by (simp_all add: tabled_def two_sites_def action_of_def two_lsda_simps)
  then show ?thesis by (simp add: stack_ok_def two_stack_def sample_rank_def)
qed

lemma two_handler: "handler_for m sample_types 0x300 p two_stack = Some (1, (1, 0x100), 4160)"
proof -
  have "subobject m sample_types 0x300 p 0x100 (p + 8)" by (rule do_upcast_sound [OF sample_upcast])
  then have "catches m sample_types 0x300 p (1, 0x100)" by (auto simp: catches_def)
  then show ?thesis by (simp add: two_stack_def)
qed



end
