(* ===== verification/Arm.thy ===== *)
theory Arm
  imports Exceptions
begin

text \<open>
  The ARM variant (\<open>unwind-arm.h\<close>, and \<open>exception.cc\<close> under \<open>__arm__\<close>): the personality routine's entry from an
  unwinder state, the landing pad kept in the unwind header, the instruction pointer with its Thumb bit, and the list of exceptions whose
  cleanups are running, which \<open>__cxa_end_cleanup\<close> needs to find the exception to resume.

  Pointers have 32 bits here. A header is identified by the address of its \<open>_Unwind_Exception\<close>; the fields of the surrounding
  \<open>__cxa_exception\<close> are kept with it. \<open>_Unwind_VRS_Get\<close> and \<open>_Unwind_VRS_Set\<close> of the core registers read and write the register file of the
  context, as the ARM exception handling ABI documents them.
\<close>

unbundle bit_operations_syntax

type_synonym aptr = "32 word"

section \<open>Registers\<close>

type_synonym arm_context = "nat \<Rightarrow> aptr"

definition arm_GetGR :: "arm_context \<Rightarrow> nat \<Rightarrow> aptr" where
  "arm_GetGR context reg = context reg"

definition arm_SetGR :: "arm_context \<Rightarrow> nat \<Rightarrow> aptr \<Rightarrow> arm_context" where
  "arm_SetGR context reg val = context(reg := val)"

definition arm_GetIP :: "arm_context \<Rightarrow> aptr" where
  "arm_GetIP context = arm_GetGR context 15 AND NOT 1"

definition arm_SetIP :: "arm_context \<Rightarrow> aptr \<Rightarrow> arm_context" where
  "arm_SetIP context val = (let thumbState = arm_GetGR context 15 AND 1 in arm_SetGR context 15 (val OR thumbState))"

section \<open>Exceptions\<close>

record arm_exception =
  arm_class :: "64 word"
  barrier_sp :: aptr
  barrier_selector :: aptr           \<comment> \<open>\<open>barrier_cache.bitpattern[1]\<close>\<close>
  barrier_landingPad :: aptr         \<comment> \<open>\<open>barrier_cache.bitpattern[3]\<close>\<close>
  arm_handlerSwitchValue :: int
  arm_catchTemp :: aptr
  nextCleanup :: aptr
  cleanupCount :: int

record arm =
  arm_exns :: "aptr \<Rightarrow> arm_exception option"
  currentCleanup :: aptr

definition with_arm :: "aptr \<Rightarrow> (arm_exception \<Rightarrow> ('a, arm) M) \<Rightarrow> ('a, arm) M" where
  "with_arm p k = (\<lambda>w. case arm_exns w p of None \<Rightarrow> Fault Out_Of_Bounds | Some x \<Rightarrow> k x w)"

definition set_arm :: "aptr \<Rightarrow> arm_exception \<Rightarrow> ('a, arm) M \<Rightarrow> ('a, arm) M" where
  "set_arm p x k = (\<lambda>w. k (w\<lparr>arm_exns := (arm_exns w)(p \<mapsto> x)\<rparr>))"

text \<open>The landing pad of the handler: \<open>ex\<close> says whether the exception is a C++ one.\<close>

definition arm_saveLandingPad :: "arm_context \<Rightarrow> aptr \<Rightarrow> bool \<Rightarrow> int \<Rightarrow> aptr \<Rightarrow> (unit, arm) M" where
  "arm_saveLandingPad context ucb ex selector landingPad = with_arm ucb (\<lambda>x.
     let x = x\<lparr>barrier_sp := arm_GetGR context 13, barrier_selector := of_int selector, barrier_landingPad := landingPad\<rparr> in
     set_arm ucb (if ex then x\<lparr>arm_handlerSwitchValue := selector, arm_catchTemp := landingPad\<rparr> else x) (ret ()))"

definition arm_loadLandingPad :: "aptr \<Rightarrow> (aptr \<times> aptr, arm) M" where
  "arm_loadLandingPad ucb = with_arm ucb (\<lambda>x. ret (barrier_selector x, barrier_landingPad x))"

text \<open>
  The prologue of the personality routine: the actions for a state of the unwinder, and the context with the exception in register 12. A resumed frame
  and an unknown state return at once.
\<close>

datatype arm_entry = Arm_Return nat | Arm_Continue | Arm_Actions "32 word" arm_context

definition arm_personality_entry :: "nat \<Rightarrow> aptr \<Rightarrow> arm_context \<Rightarrow> (arm_entry, arm) M" where
  "arm_personality_entry state exceptionObject context = with_arm exceptionObject (\<lambda>x.
     let go = (\<lambda>actions. ret (Arm_Actions actions (arm_SetGR context 12 exceptionObject))) in
     if state = 0 then go 1
     else if state = 1 then go (if barrier_sp x = arm_GetGR context 13 then 2 OR 4 else 2)
     else if state = 2 then ret Arm_Continue
     else ret (Arm_Return 9))"

text \<open>\<open>gnu_unwind_frame\<close> is the unwinder's function: does it return \<open>_URC_OK\<close>.\<close>

definition arm_continueUnwinding :: "(aptr \<Rightarrow> bool) \<Rightarrow> aptr \<Rightarrow> nat" where
  "arm_continueUnwinding gnu_unwind_frame exceptionObject = (if \<not> gnu_unwind_frame exceptionObject then 9 else 8)"

section \<open>Running cleanups\<close>

definition pushCleanupException :: "aptr \<Rightarrow> bool \<Rightarrow> (unit, arm) M" where
  "pushCleanupException exceptionObject ex =
     (if ex then with_arm exceptionObject (\<lambda>x.
        gets currentCleanup (\<lambda>cur.
        if cleanupCount x + 1 > 1
        then set_arm exceptionObject (x\<lparr>cleanupCount := cleanupCount x + 1\<rparr>) (c_assert (exceptionObject = cur) (ret ()))
        else set_arm exceptionObject (x\<lparr>cleanupCount := cleanupCount x + 1, nextCleanup := cur\<rparr>)
          (upd (\<lambda>w. w\<lparr>currentCleanup := exceptionObject\<rparr>) (ret ()))))
      else upd (\<lambda>w. w\<lparr>currentCleanup := exceptionObject\<rparr>) (ret ()))"

definition cxa_get_cleanup :: "(aptr, arm) M" where
  "cxa_get_cleanup = gets currentCleanup (\<lambda>exceptionObject. with_arm exceptionObject (\<lambda>x.
     if isCXXException (arm_class x) then
       (if cleanupCount x - 1 = 0
        then set_arm exceptionObject (x\<lparr>cleanupCount := 0, nextCleanup := 0\<rparr>)
          (upd (\<lambda>w. w\<lparr>currentCleanup := nextCleanup x\<rparr>) (ret exceptionObject))
        else set_arm exceptionObject (x\<lparr>cleanupCount := cleanupCount x - 1\<rparr>) (ret exceptionObject))
     else upd (\<lambda>w. w\<lparr>currentCleanup := 0\<rparr>) (ret exceptionObject)))"

section \<open>The list of cleanups as a stack\<close>

text \<open>
  The exceptions whose cleanups run, innermost first, each with the number of its cleanups; \<open>L\<close> are the live C++ exceptions.
\<close>

fun chain_at :: "arm \<Rightarrow> aptr \<Rightarrow> (aptr \<times> nat) list \<Rightarrow> bool" where
  "chain_at w a [] = (a = 0)"
| "chain_at w a ((e, n) # xs) = (a = e \<and> 0 < n \<and> (\<exists>x. arm_exns w e = Some x \<and> cleanupCount x = int n \<and> chain_at w (nextCleanup x) xs))"

definition cleaning :: "aptr set \<Rightarrow> arm \<Rightarrow> (aptr \<times> nat) list \<Rightarrow> bool" where
  "cleaning L w xs \<longleftrightarrow> chain_at w (currentCleanup w) xs \<and> distinct (map fst xs) \<and> fst ` set xs \<subseteq> L
     \<and> (\<forall>e\<in>L. \<exists>x. arm_exns w e = Some x \<and> isCXXException (arm_class x) \<and> (e \<notin> fst ` set xs \<longrightarrow> cleanupCount x = 0))"

text \<open>What a program does with them: cleanups nest, and each ends with the exception it began with.\<close>

datatype cleanup_run = Cleanup aptr "cleanup_run list"

fun run_cleanup :: "(aptr \<Rightarrow> (unit, 's) M) \<Rightarrow> (aptr, 's) M \<Rightarrow> cleanup_run \<Rightarrow> (unit, 's) M"
  and run_cleanups :: "(aptr \<Rightarrow> (unit, 's) M) \<Rightarrow> (aptr, 's) M \<Rightarrow> cleanup_run list \<Rightarrow> (unit, 's) M" where
  "run_cleanup push get (Cleanup e cs) = bind (push e) (\<lambda>_. bind (run_cleanups push get cs) (\<lambda>_. bind get (\<lambda>r. c_assert (r = e) (ret ()))))"
| "run_cleanups push get [] = ret ()"
| "run_cleanups push get (c # cs) = bind (run_cleanup push get c) (\<lambda>_. run_cleanups push get cs)"

text \<open>An exception that begins a cleanup inside others is the innermost one or a new one.\<close>

fun nests :: "aptr set \<Rightarrow> aptr list \<Rightarrow> cleanup_run \<Rightarrow> bool"
  and nest :: "aptr set \<Rightarrow> aptr list \<Rightarrow> cleanup_run list \<Rightarrow> bool" where
  "nests L path (Cleanup e cs) = (e \<in> L \<and> (path \<noteq> [] \<and> hd path = e \<or> e \<notin> set path) \<and> nest L (if path \<noteq> [] \<and> hd path = e then path else e # path) cs)"
| "nest L path [] = True"
| "nest L path (c # cs) = (nests L path c \<and> nest L path cs)"

text \<open>The interface of the list: a push enters or deepens the innermost exception, a get returns it and undoes the push.\<close>

locale cleanup_list =
  fixes live :: "aptr set" and rep :: "'s \<Rightarrow> (aptr \<times> nat) list \<Rightarrow> bool"
    and push :: "aptr \<Rightarrow> (unit, 's) M" and get :: "(aptr, 's) M"
  assumes push_new: "rep w xs \<Longrightarrow> e \<in> live \<Longrightarrow> e \<notin> fst ` set xs \<Longrightarrow> \<exists>w'. push e w = Ok () w' \<and> rep w' ((e, 1) # xs)"
    and push_top: "rep w ((e, n) # xs) \<Longrightarrow> \<exists>w'. push e w = Ok () w' \<and> rep w' ((e, Suc n) # xs)"
    and get_last: "rep w ((e, 1) # xs) \<Longrightarrow> \<exists>w'. get w = Ok e w' \<and> rep w' xs"
    and get_top: "rep w ((e, Suc (Suc n)) # xs) \<Longrightarrow> \<exists>w'. get w = Ok e w' \<and> rep w' ((e, Suc n) # xs)"
    and counted: "rep w ((e, n) # xs) \<Longrightarrow> 0 < n"
begin

lemma sequence_runs:
  assumes "rep w xs" and "nest live (map fst xs) cs"
    and "\<And>c w. c \<in> set cs \<Longrightarrow> rep w xs \<Longrightarrow> nests live (map fst xs) c \<Longrightarrow> \<exists>w'. run_cleanup push get c w = Ok () w' \<and> rep w' xs"
  shows "\<exists>w'. run_cleanups push get cs w = Ok () w' \<and> rep w' xs"
  using assms
proof (induction cs arbitrary: w)
  case (Cons c cs)
  obtain w1 where "run_cleanup push get c w = Ok () w1" "rep w1 xs" using Cons.prems by (meson list.set_intros(1) nest.simps(2))
  moreover from Cons.IH [OF this(2)] Cons.prems(2,3) obtain w2 where "run_cleanups push get cs w1 = Ok () w2" "rep w2 xs" by auto
  ultimately show ?case by (simp add: bind_def)
qed (simp add: ret_def)

lemma nested_run:
  "rep w xs \<Longrightarrow> nests live (map fst xs) c \<Longrightarrow> \<exists>w'. run_cleanup push get c w = Ok () w' \<and> rep w' xs"
proof (induction c arbitrary: w xs)
  case (Cleanup e cs)
  have inner: "\<exists>w'. run_cleanups push get cs w = Ok () w' \<and> rep w' ys" if "rep w ys" "nest live (map fst ys) cs" for w ys
    using sequence_runs [OF that] Cleanup.IH by blast
  show ?case
  proof (cases "xs \<noteq> [] \<and> fst (hd xs) = e")
    case True
    then obtain k ys where k: "xs = (e, k) # ys" by (cases xs) auto
    then obtain n where xs: "xs = (e, Suc n) # ys" using counted [of w e k ys] Cleanup.prems(1) by (cases k) auto
    obtain w1 where w1: "push e w = Ok () w1" "rep w1 ((e, Suc (Suc n)) # ys)" using push_top Cleanup.prems(1) unfolding xs by blast
    obtain w2 where w2: "run_cleanups push get cs w1 = Ok () w2" "rep w2 ((e, Suc (Suc n)) # ys)"
      using inner [OF w1(2)] Cleanup.prems(2) xs by auto
    then obtain w3 where "get w2 = Ok e w3" "rep w3 xs" using get_top unfolding xs by blast
    then show ?thesis using w1(1) w2(1) by (simp add: bind_def c_assert_def ret_def)
  next
    case False
    then have new: "e \<in> live" "e \<notin> fst ` set xs" "nest live (e # map fst xs) cs"
      using Cleanup.prems(2) by (cases xs; auto split: if_splits)+
    then obtain w1 where w1: "push e w = Ok () w1" "rep w1 ((e, 1) # xs)" using push_new Cleanup.prems(1) by blast
    obtain w2 where w2: "run_cleanups push get cs w1 = Ok () w2" "rep w2 ((e, 1) # xs)"
      using inner [OF w1(2)] new(3) by auto
    then obtain w3 where "get w2 = Ok e w3" "rep w3 xs" using get_last by blast
    then show ?thesis using w1(1) w2(1) by (simp add: bind_def c_assert_def ret_def)
  qed
qed

end

text \<open>The list of the source provides it.\<close>

lemma chain_other: "e \<notin> fst ` set xs \<Longrightarrow> chain_at (w\<lparr>arm_exns := (arm_exns w)(e \<mapsto> y), currentCleanup := c\<rparr>) a xs = chain_at w a xs"
  by (induction w a xs rule: chain_at.induct) auto

lemmas arm_defs = pushCleanupException_def cxa_get_cleanup_def with_arm_def set_arm_def bind_def gets_def upd_def ret_def c_assert_def

interpretation cleanup_stack: cleanup_list L "cleaning L" "\<lambda>e. pushCleanupException e True" cxa_get_cleanup for L
proof
  fix w xs e n
  show "\<exists>w'. pushCleanupException e True w = Ok () w' \<and> cleaning L w' ((e, 1) # xs)"
    if rep: "cleaning L w xs" "e \<in> L" "e \<notin> fst ` set xs"
  proof -
    obtain x where x: "arm_exns w e = Some x" "isCXXException (arm_class x)" "cleanupCount x = 0" using rep unfolding cleaning_def by blast
    let ?w = "w\<lparr>arm_exns := (arm_exns w)(e \<mapsto> x\<lparr>cleanupCount := 1, nextCleanup := currentCleanup w\<rparr>), currentCleanup := e\<rparr>"
    have "pushCleanupException e True w = Ok () ?w" using x by (cases w) (simp add: arm_defs)
    moreover have "cleaning L ?w ((e, 1) # xs)" using rep x by (auto simp: cleaning_def chain_other; blast)
    ultimately show ?thesis by blast
  qed
  show "\<exists>w'. pushCleanupException e True w = Ok () w' \<and> cleaning L w' ((e, Suc n) # xs)" if rep: "cleaning L w ((e, n) # xs)"
  proof -
    obtain x where x: "arm_exns w e = Some x" "cleanupCount x = int n" "0 < n" "currentCleanup w = e" "chain_at w (nextCleanup x) xs" "e \<notin> fst ` set xs"
      using rep by (auto simp: cleaning_def)
    let ?w = "w\<lparr>arm_exns := (arm_exns w)(e \<mapsto> x\<lparr>cleanupCount := int n + 1\<rparr>), currentCleanup := currentCleanup w\<rparr>"
    have "pushCleanupException e True w = Ok () ?w" using x by (cases w) (simp add: arm_defs)
    moreover have "cleaning L ?w ((e, Suc n) # xs)" using rep x by (auto simp: cleaning_def chain_other; blast)
    ultimately show ?thesis by blast
  qed
  show "\<exists>w'. cxa_get_cleanup w = Ok e w' \<and> cleaning L w' xs" if rep: "cleaning L w ((e, 1) # xs)"
  proof -
    obtain x where x: "arm_exns w e = Some x" "cleanupCount x = 1" "currentCleanup w = e" "chain_at w (nextCleanup x) xs" "e \<notin> fst ` set xs"
        "isCXXException (arm_class x)"
      using rep by (auto simp: cleaning_def)
    let ?w = "w\<lparr>arm_exns := (arm_exns w)(e \<mapsto> x\<lparr>cleanupCount := 0, nextCleanup := 0\<rparr>), currentCleanup := nextCleanup x\<rparr>"
    have "cxa_get_cleanup w = Ok e ?w" using x by (cases w) (simp add: arm_defs)
    moreover have "cleaning L ?w xs" using rep x by (auto simp: cleaning_def chain_other; blast)
    ultimately show ?thesis by blast
  qed
  show "\<exists>w'. cxa_get_cleanup w = Ok e w' \<and> cleaning L w' ((e, Suc n) # xs)" if rep: "cleaning L w ((e, Suc (Suc n)) # xs)"
  proof -
    obtain x where x: "arm_exns w e = Some x" "cleanupCount x = int n + 2" "currentCleanup w = e" "chain_at w (nextCleanup x) xs" "e \<notin> fst ` set xs"
        "isCXXException (arm_class x)"
      using rep by (auto simp: cleaning_def)
    let ?w = "w\<lparr>arm_exns := (arm_exns w)(e \<mapsto> x\<lparr>cleanupCount := int n + 1\<rparr>), currentCleanup := currentCleanup w\<rparr>"
    have "cxa_get_cleanup w = Ok e ?w" using x by (cases w) (simp add: arm_defs add.commute)
    moreover have "cleaning L ?w ((e, Suc n) # xs)" using rep x by (auto simp: cleaning_def chain_other; blast)
    ultimately show ?thesis by blast
  qed
  show "0 < n" if "cleaning L w ((e, n) # xs)" using that by (simp add: cleaning_def)
qed

section \<open>Properties\<close>

text \<open>
  C24. Nested cleanups find their exceptions: whatever cleanups run inside each other, with any C++ exceptions thrown in between, every call of
  \<open>__cxa_get_cleanup\<close> returns the exception whose cleanup ends, no assertion fails, and afterwards the list of running
  cleanups is as before.
\<close>

theorem nested_cleanups:
  assumes "cleaning L w xs" and "nests L (map fst xs) c"
  shows "\<exists>w'. run_cleanup (\<lambda>e. pushCleanupException e True) cxa_get_cleanup c w = Ok () w' \<and> cleaning L w' xs"
  by (rule cleanup_stack.nested_run [OF assms])

text \<open>Two live exceptions at 8 and 16; the second is thrown in a cleanup of the first.\<close>

definition arm_sample :: arm where
  "arm_sample = \<lparr>arm_exns = (\<lambda>p. if p = 8 \<or> p = 16 then Some \<lparr>arm_class = exception_class, barrier_sp = 0, barrier_selector = 0, barrier_landingPad = 0,
     arm_handlerSwitchValue = 0, arm_catchTemp = 0, nextCleanup = 0, cleanupCount = 0\<rparr>
     else if p = 24 then Some \<lparr>arm_class = 5, barrier_sp = 0, barrier_selector = 0, barrier_landingPad = 0,
     arm_handlerSwitchValue = 0, arm_catchTemp = 0, nextCleanup = 0, cleanupCount = 0\<rparr> else None), currentCleanup = 0\<rparr>"

theorem nested_cleanups_witness:
  "\<exists>w'. run_cleanup (\<lambda>e. pushCleanupException e True) cxa_get_cleanup (Cleanup 8 [Cleanup 8 [], Cleanup 16 [Cleanup 16 []]]) arm_sample = Ok () w'
    \<and> cleaning {8, 16} w' []"
  by (rule nested_cleanups) (simp_all add: cleaning_def arm_sample_def)

text \<open>
  A foreign exception breaks the list: when its cleanup runs inside the cleanup of a C++ exception, the list below it is
  forgotten, and the next \<open>__cxa_get_cleanup\<close>, for the C++ exception, dereferences a null pointer.
\<close>

theorem foreign_cleanup_loses_list:
  assumes "cleaning L w xs" and "e \<in> L" and "e \<notin> fst ` set xs" and "arm_exns w f = Some y" and "\<not> isCXXException (arm_class y)"
    and "arm_exns w 0 = None"
  shows "\<exists>w1 w2. pushCleanupException e True w = Ok () w1
    \<and> bind (pushCleanupException f False) (\<lambda>_. cxa_get_cleanup) w1 = Ok f w2 \<and> cxa_get_cleanup w2 = Fault Out_Of_Bounds"
proof -
  obtain x where x: "arm_exns w e = Some x" "isCXXException (arm_class x)" "cleanupCount x = 0" using assms(1-3) unfolding cleaning_def by blast
  then have "f \<noteq> e" "e \<noteq> 0" using assms(4-6) by auto
  then show ?thesis using x assms(4-6) by (cases w) (simp add: arm_defs)
qed

theorem foreign_cleanup_loses_list_witness:
  "\<exists>w1 w2. pushCleanupException 8 True arm_sample = Ok () w1
    \<and> bind (pushCleanupException 24 False) (\<lambda>_. cxa_get_cleanup) w1 = Ok 24 w2 \<and> cxa_get_cleanup w2 = Fault Out_Of_Bounds"
proof -
  have "\<not> isCXXException 5" by (simp add: isCXXException_def exception_class_def dependent_exception_class_def EXCEPTION_CLASS_def)
  then show ?thesis
    by (intro foreign_cleanup_loses_list [of "{8, 16}" _ "[]" _ _ "the (arm_exns arm_sample 24)"]) (simp_all add: cleaning_def arm_sample_def)
qed

text \<open>
  The frame that the search phase chose is recognised by its stack pointer: after \<open>saveLandingPad\<close> in a frame, the
  routine is entered for that frame, and only for frames with the same stack pointer, with \<open>_UA_HANDLER_FRAME\<close>; the landing pad and
  the selector are read back, and installing the pad keeps the Thumb state of the frame.
\<close>

theorem arm_handler_frame:
  assumes "arm_exns w p = Some x" and "- (2 ^ 31) \<le> sel" and "sel < 2 ^ 31"
  shows "\<exists>w'. arm_saveLandingPad c p ex sel pad w = Ok () w'
    \<and> arm_personality_entry 1 p c' w' = Ok (Arm_Actions (if c' 13 = c 13 then 2 OR 4 else 2) (c'(12 := p))) w'
    \<and> (\<exists>s. arm_loadLandingPad p w' = Ok (s, pad) w' \<and> sint s = sel)
    \<and> arm_GetIP (arm_SetIP c' pad) = pad AND NOT 1 \<and> arm_SetIP c' pad 15 AND 1 = (pad OR c' 15) AND 1"
proof -
  have "sint (of_int sel :: 32 word) = sel" using assms(2,3) by (simp add: signed_of_int signed_take_bit_int_eq_self)
  moreover have "arm_GetIP (arm_SetIP c' pad) = pad AND NOT 1" "arm_SetIP c' pad 15 AND 1 = (pad OR c' 15) AND 1"
    by (simp_all add: arm_GetIP_def arm_SetIP_def arm_GetGR_def arm_SetGR_def bit_eq_iff bit_simps) (auto simp: bit_simps)
  ultimately show ?thesis using assms(1)
    by (cases w) (simp add: arm_saveLandingPad_def arm_personality_entry_def arm_loadLandingPad_def with_arm_def set_arm_def ret_def
        arm_GetGR_def arm_SetGR_def Let_def)
qed

theorem arm_handler_frame_witness:
  "\<exists>w'. arm_saveLandingPad (\<lambda>r. 64) 8 True (- 2) 0x8000 arm_sample = Ok () w'
    \<and> arm_personality_entry 1 8 (\<lambda>r. 65) w' = Ok (Arm_Actions 2 ((\<lambda>r. 65)(12 := 8))) w'"
  using arm_handler_frame [of arm_sample 8 "the (arm_exns arm_sample 8)" "- 2" "\<lambda>r. 64" True "0x8000" "\<lambda>r. 65"]
  by (auto simp: arm_sample_def)

end
