(* ===== verification/Diagnostics.thy ===== *)
theory Diagnostics
  imports Demangle_Api Exceptions Typeinfo
begin

text \<open>
  The default terminate handler (\<open>exception.cc\<close>): what \<open>terminate_with_diagnostics\<close> writes about the exception on top of the caught
  ones before it calls \<open>abort\<close>, and the callback \<open>trace\<close> of its backtrace. It joins the exception headers, the casts over type information and
  the demangler.

  Outside code: \<open>what\<close> (the virtual function of the exception object), \<open>cstring\<close> (the string at an address), \<open>dladdr\<close>,
  \<open>_Unwind_Backtrace\<close>, and the outcome of each allocation.
\<close>

datatype diag = Terminating ptr | What string | Of_type string | Backtrace

record diag_env =
  type_store :: types
  object_memory :: memory
  std_exception :: ptr                \<comment> \<open>the address of \<open>typeid(std::exception)\<close>\<close>
  what_of :: "ptr \<Rightarrow> string"
  cstring :: "ptr \<Rightarrow> string"
  malloc_ok :: bool
  realloc_ok_of :: "nat \<Rightarrow> bool"
  demangle_heap :: heap
  cast_fuel :: nat
  demangle_fuel :: nat

section \<open>The handler\<close>

text \<open>\<open>%s\<close> of a block.\<close>

definition printed :: "char list \<Rightarrow> string" where
  "printed b = takeWhile (\<lambda>c. c \<noteq> NUL) b"

definition what_text :: "diag_env \<Rightarrow> ptr \<Rightarrow> ptr \<Rightarrow> fault + diag list" where
  "what_text D ex throw_ti = (case type_store D throw_ti of None \<Rightarrow> Inl Out_Of_Bounds
     | Some t \<Rightarrow> if is_class t then
         (case cast_to (cast_fuel D) (object_memory D) (type_store D) throw_ti (std_exception D) (ex + sizeof_exception) of
            Inl f \<Rightarrow> Inl f
          | Inr e \<Rightarrow> Inr (if e \<noteq> 0 then [What (what_of D e)] else []))
       else Inr [])"

definition type_text :: "diag_env \<Rightarrow> ptr \<Rightarrow> fault + diag list" where
  "type_text D throw_ti = (case type_store D throw_ti of None \<Rightarrow> Inl Out_Of_Bounds
     | Some t \<Rightarrow>
        (let bufferSize = 128;
             demangled = (if malloc_ok D then Some (replicate bufferSize NUL) else None);
             mangled = cstring D (type_name t) in
         case cxa_demangle (demangle_fuel D) (demangle_heap D) (realloc_ok_of D) (Some mangled) demangled (Some bufferSize) (Some 0) of
           Inl f \<Rightarrow> Inl f
         | Inr r \<Rightarrow> Inr [Of_type (if r_status r = Some 0 then printed (the (r_buf r)) else mangled)]))"

definition terminate_with_diagnostics :: "outside \<Rightarrow> diag_env \<Rightarrow> diag list X" where
  "terminate_with_diagnostics E D = thread_info E (gets caughtExceptions (\<lambda>ex.
     if ex = 0 then ret []
     else bind (realExceptionFromException ex) (\<lambda>real. with_exn real (\<lambda>x.
       case what_text D real (exceptionType x) of Inl f \<Rightarrow> crash f
       | Inr w \<Rightarrow> (case type_text D (exceptionType x) of Inl f \<Rightarrow> crash f
           | Inr t \<Rightarrow> ret ([Terminating ex] @ w @ t @ [Backtrace]))))))"

text \<open>The line that the callback of the backtrace prints: \<open>dladdr\<close> gives the symbol and the file of an address.\<close>

definition trace :: "(ptr \<Rightarrow> (string \<times> string) option) \<Rightarrow> ptr \<Rightarrow> ptr \<Rightarrow> (ptr \<times> string \<times> string) option" where
  "trace dladdr self ip = (case dladdr ip of None \<Rightarrow> None
     | Some (sname, fname) \<Rightarrow>
         if dladdr self = None \<or> fname \<noteq> snd (the (dladdr self)) then Some (ip, sname, fname) else None)"

section \<open>Properties\<close>

text \<open>
  C40. The diagnostics name the type of the exception and never its message: for an exception of a class other than
  \<open>std::exception\<close>, whether or not it is derived from it, the handler writes the address, the demangled type and the backtrace. The
  cast is asked of \<open>std::exception\<close>, which has no bases, and not of the class of the exception.
\<close>

theorem diagnostics_without_message:
  assumes "has_info w" and "caughtExceptions w = e" and "e \<noteq> 0" and "exns w e = Some x" and "exception_class_of x = exception_class"
    and "type_store D (exceptionType x) = Some ti" and "is_class ti" and "exceptionType x \<noteq> std_exception D"
    and "type_store D (std_exception D) = Some si" and "ti_class si = class_type_info" and "0 < cast_fuel D"
    and "cstring D (type_name ti) = mangle_ty ty" and "valid_ty ty" and "NUL \<notin> set (cpp_type ty)"
    and "all_ok (demangle_heap D)" and "freed (demangle_heap D) = []" and "length (mangle_ty ty) \<le> SIZE_MAX"
    and "enough_fuel (mangle_ty ty) \<le> demangle_fuel D" and "\<forall>k. realloc_ok_of D k"
  shows "terminate_with_diagnostics E D w = Ok [Terminating e, Of_type (cpp_type ty), Backtrace] w"
proof -
  have "cast_to (cast_fuel D) (object_memory D) (type_store D) (exceptionType x) (std_exception D) (e + sizeof_exception) = Inr 0"
    using assms(8-11) by (cases "cast_fuel D") (simp_all add: cast_to.simps)
  then have what: "what_text D e (exceptionType x) = Inr []" using assms(6,7) by (simp add: what_text_def)
  have "demangle (demangle_fuel D) (demangle_heap D) (Some (mangle_ty ty)) = Inr (Some (cpp_type ty))"
    by (rule demangle_types [OF assms(15,16,13,17,18)])
  moreover have "takeWhile (\<lambda>c. c \<noteq> NUL) (cpp_type ty @ NUL # zs) = cpp_type ty" for zs
    using assms(14) by (subst takeWhile_append2) auto
  ultimately have "type_text D (exceptionType x) = Inr [Of_type (cpp_type ty)]"
    using assms(6,12,19) by (auto simp: type_text_def cxa_demangle_def grow_buffer_def fill_buffer_def set_status_def printed_def Let_def)
  then show ?thesis using assms(1-5) what
    by (simp add: terminate_with_diagnostics_def thread_info_def gets_def realExceptionFromException_def with_exn_def bind_def ret_def)
qed

text \<open>The class \<open>D\<close> of \<open>sample_types\<close> is called \<open>Foo\<close> and has \<open>std::exception\<close> as its base at offset 8.\<close>

definition sample_diag :: diag_env where
  "sample_diag = \<lparr>type_store = sample_types, object_memory = (\<lambda>p. None), std_exception = 0x100, what_of = (\<lambda>p. ''disk full''),
     cstring = (\<lambda>p. ''3Foo''), malloc_ok = True, realloc_ok_of = (\<lambda>k. True), demangle_heap = h0, cast_fuel = 5, demangle_fuel = 100\<rparr>"

definition sample_uncaught :: world where
  "sample_uncaught = \<lparr>exns = [0x9000 \<mapsto> zero_exception\<lparr>exceptionType := 0x300, exception_class_of := exception_class\<rparr>],
     foreign = (\<lambda>p. None), has_info = True, caughtExceptions = 0x9000, uncaughtExceptions = 0, foreign_exception_state = Not_foreign,
     emergencyBuffersHeld = 0, buffers = [], callocs = 0, events = []\<rparr>"

theorem diagnostics_without_message_witness:
  "\<forall>E. subobject (\<lambda>p. None) sample_types 0x300 0x9080 (std_exception sample_diag) 0x9088
    \<and> terminate_with_diagnostics E sample_diag sample_uncaught = Ok [Terminating 0x9000, Of_type ''Foo'', Backtrace] sample_uncaught"
proof (intro allI conjI)
  show "subobject (\<lambda>p. None) sample_types 0x300 0x9080 (std_exception sample_diag) 0x9088"
    using do_upcast_sound [OF sample_upcast [of 0 "\<lambda>p. None" "0x9080"]] by (simp add: sample_diag_def)
  show "terminate_with_diagnostics E sample_diag sample_uncaught = Ok [Terminating 0x9000, Of_type ''Foo'', Backtrace] sample_uncaught" for E
    using diagnostics_without_message [of sample_uncaught "0x9000" "zero_exception\<lparr>exceptionType := 0x300, exception_class_of := exception_class\<rparr>"
        sample_diag _ _ "Base (Class [''Foo''])" E]
    by (simp add: sample_uncaught_def sample_diag_def is_class_def concrete)
qed

end
