(* ===== verification/Catch_Types.thy ===== *)
theory Catch_Types
  imports Typeinfo
begin

text \<open>
  Which conversions a handler performs: \<open>__do_catch\<close> on types with any number of pointers, against the rule of
  the C++ standard. A type is a chain of pointers with their qualifiers over a base that is no pointer; a handler
  may add qualifiers (qualification conversion), and one pointer may be converted to a pointer to a base class or to
  \<open>void\<close>. Also the two places where the method does not follow the rule: pointers to members and pointers to
  incomplete classes.
\<close>

unbundle bit_operations_syntax

section \<open>Types as chains of pointers\<close>

inductive pointer_chain :: "types \<Rightarrow> ptr \<Rightarrow> 32 word list \<Rightarrow> ptr \<Rightarrow> bool" for ts where
  chain_base: "ts t = Some ti \<Longrightarrow> \<not> is_pointer_p ti \<Longrightarrow> pointer_chain ts t [] t"
| chain_pointer: "points_to ts t fl u \<Longrightarrow> pointer_chain ts u fls b \<Longrightarrow> pointer_chain ts t (fl # fls) b"

inductive_cases chain_NilE: "pointer_chain ts t [] b"
inductive_cases chain_ConsE: "pointer_chain ts t (fl # fls) b"

text \<open>One object for each pointer type, as the linker leaves it and as the comparison of addresses in the code needs.\<close>

definition canonical :: "types \<Rightarrow> bool" where
  "canonical ts \<longleftrightarrow> (\<forall>t u fl p. points_to ts t fl p \<and> points_to ts u fl p \<longrightarrow> t = u)"

abbreviation has_quals :: "32 word \<Rightarrow> 32 word \<Rightarrow> bool" where
  "has_quals fl efl \<equiv> efl AND NOT fl = 0"

abbreviation is_const :: "32 word \<Rightarrow> bool" where
  "is_const fl \<equiv> fl AND const_mask \<noteq> 0"

text \<open>
  The rule for qualifications: none is lost, and when two levels differ, every pointer above the inner one
  is \<open>const\<close> in the handler.
\<close>

definition qualification_conversion :: "32 word list \<Rightarrow> 32 word list \<Rightarrow> bool" where
  "qualification_conversion es fs \<longleftrightarrow> length es = length fs \<and> (\<forall>i<length fs. has_quals (fs ! i) (es ! i))
     \<and> (\<forall>j<length fs. es ! j \<noteq> fs ! j \<longrightarrow> (\<forall>k<j. is_const (fs ! k)))"

text \<open>What the standard lets a handler of type \<open>h\<close> catch, and with which address.\<close>

definition is_void :: "types \<Rightarrow> ptr \<Rightarrow> ptr \<Rightarrow> bool" where
  "is_void ts v t \<longleftrightarrow> (\<exists>ti. ts t = Some ti \<and> type_name ti = v)"

definition handler_converts :: "memory \<Rightarrow> types \<Rightarrow> ptr \<Rightarrow> 32 word list \<Rightarrow> ptr \<Rightarrow> 32 word list \<Rightarrow> ptr \<Rightarrow> ptr \<Rightarrow> ptr \<Rightarrow> bool" where
  "handler_converts m ts v es d fs c obj r \<longleftrightarrow>
     (d = c \<and> qualification_conversion es fs \<and> r = obj)
   \<or> (d \<noteq> c \<and> class_at ts c \<and> class_at ts d \<and> length es = length fs \<and> length fs \<le> 1 \<and> list_all2 has_quals fs es \<and> subobject m ts d obj c r)
   \<or> (is_void ts v c \<and> length fs = 1 \<and> es \<noteq> [] \<and> has_quals (hd fs) (hd es) \<and> r = obj)"

section \<open>Lemmas\<close>

lemma chain_same: "pointer_chain ts t es b \<Longrightarrow> pointer_chain ts t fs c \<Longrightarrow> es = fs \<and> b = c"
proof (induction arbitrary: fs c rule: pointer_chain.induct)
  case (chain_base t ti)
  from chain_base.prems show ?case by cases (use chain_base.hyps in \<open>auto simp: is_pointer_p_def\<close>)
next
  case (chain_pointer t fl u fls b)
  from chain_pointer.prems show ?case
  proof cases
    case (chain_base ti)
    with chain_pointer.hyps show ?thesis by (auto simp: is_pointer_p_def)
  next
    case (chain_pointer fl' u' fls')
    with \<open>points_to ts t fl u\<close> chain_pointer.IH [of fls' c] show ?thesis by auto
  qed
qed

lemma chain_unique: "canonical ts \<Longrightarrow> pointer_chain ts t es b \<Longrightarrow> pointer_chain ts u es b \<Longrightarrow> t = u"
proof (induction es arbitrary: t u)
  case Nil
  then show ?case by (auto elim!: chain_NilE)
next
  case (Cons fl es)
  from Cons.prems(2,3) obtain t' u' where "points_to ts t fl t'" "pointer_chain ts t' es b" "points_to ts u fl u'" "pointer_chain ts u' es b"
    by (elim chain_ConsE) blast
  with Cons.IH [OF Cons.prems(1), of t' u'] Cons.prems(1) show ?case unfolding canonical_def by blast
qed

text \<open>The recursion of the code over the levels; \<open>b\<close> is the low bit of \<open>outer\<close>.\<close>

fun level_check :: "bool \<Rightarrow> 32 word list \<Rightarrow> 32 word list \<Rightarrow> bool" where
  "level_check b es fs = (es = fs \<or> (case (es, fs) of
     (efl # es', fl # fs') \<Rightarrow> b \<and> has_quals fl efl \<and> level_check (b \<and> is_const fl) es' fs' | _ \<Rightarrow> False))"

declare level_check.simps [simp del]

lemma has_quals_refl [simp]: "has_quals fl fl" for fl :: "32 word"
  by simp

lemma level_check_iff:
  "level_check b es fs \<longleftrightarrow> length es = length fs \<and> (\<forall>i<length fs. has_quals (fs ! i) (es ! i))
     \<and> (\<forall>j<length fs. es ! j \<noteq> fs ! j \<longrightarrow> b \<and> (\<forall>k<j. is_const (fs ! k)))"
proof (induction b es fs rule: level_check.induct)
  case (1 b es fs)
  show ?case
  proof (cases "es = fs")
    case True
    then show ?thesis by (simp add: level_check.simps)
  next
    case False
    show ?thesis
    proof (cases "\<exists>efl es' fl fs'. es = efl # es' \<and> fs = fl # fs'")
      case True
      then obtain efl es' fl fs' where c: "es = efl # es'" "fs = fl # fs'" by blast
      from False c have d: "efl \<noteq> fl \<or> es' \<noteq> fs'" by simp
      have ne: "length es' = length fs' \<Longrightarrow> es' \<noteq> fs' \<Longrightarrow> \<exists>j<length fs'. es' ! j \<noteq> fs' ! j" by (auto simp: list_eq_iff_nth_eq)
      have all: "(\<forall>i<Suc n. P i) \<longleftrightarrow> P 0 \<and> (\<forall>i<n. P (Suc i))" for P :: "nat \<Rightarrow> bool" and n by (auto simp: less_Suc_eq_0_disj)
      have "level_check b es fs \<longleftrightarrow> b \<and> has_quals fl efl \<and> level_check (b \<and> is_const fl) es' fs'"
        using d c by (auto simp: level_check.simps [of b "efl # es'" "fl # fs'"])
      then show ?thesis unfolding 1 [OF refl c] using d ne unfolding c by (auto simp: all)
    qed (use False in \<open>cases es; cases fs; auto simp: level_check.simps\<close>)
  qed
qed

lemma level_check_qualification: "level_check True es fs = qualification_conversion es fs"
  by (simp add: level_check_iff qualification_conversion_def)

text \<open>One level of pointers: a chain of the handler and one of the thrown type.\<close>

lemma do_catch_level:
  assumes "points_to ts h fl h'" and "points_to ts e efl e'" and "h \<noteq> e" and "ts h' = Some p"
  shows "do_catch (Suc n) m ts v h e obj outer =
    (if outer AND 1 = 0 \<or> \<not> has_quals fl efl then Inr None
     else if type_name p = v then Inr (Some obj)
     else do_catch n m ts v h' e' obj (if is_const fl then outer else outer AND NOT 1))"
  using assms by (auto simp: do_catch.simps Let_def)

lemma chain_store: "pointer_chain ts t es b \<Longrightarrow> \<exists>ti. ts t = Some ti"
  by (auto elim: pointer_chain.cases)

lemma do_catch_same: "ts t = Some ti \<Longrightarrow> do_catch (Suc n) m ts v t t obj outer = Inr (Some obj)"
  by (cases "ti_class ti") (simp_all add: do_catch.simps Let_def)

text \<open>A base that is no pointer to member.\<close>

definition plain :: "types \<Rightarrow> ptr \<Rightarrow> bool" where
  "plain ts t \<longleftrightarrow> (\<forall>fl p c. class_of ts t \<noteq> Some (pointer_to_member_type_info fl p c))"

lemma do_catch_plain_pointer:
  assumes "pointer_chain ts h [] h" and "plain ts h" and "points_to ts e fl e'"
  shows "do_catch (Suc n) m ts v h e obj outer = Inr None"
proof -
  obtain ti where "ts h = Some ti" "\<not> is_pointer_p ti" using assms(1) by (auto elim: chain_NilE)
  then show ?thesis using assms(2,3)
    by (cases "ti_class ti") (auto simp: do_catch.simps is_pointer_p_def plain_def is_class_def do_upcast.simps)
qed

lemma do_catch_pointer_plain:
  assumes "points_to ts h fl h'" and "pointer_chain ts e [] e"
  shows "do_catch (Suc n) m ts v h e obj outer = Inr None"
proof -
  obtain ti where "ts e = Some ti" "\<not> is_pointer_p ti" using assms(2) by (auto elim: chain_NilE)
  then show ?thesis using assms(1)
    by (cases "ti_class ti") (auto simp: do_catch.simps is_pointer_p_def)
qed

text \<open>Without pointers: the same type, or a base class.\<close>

lemma do_catch_base:
  assumes "pointer_chain ts h [] c" and "pointer_chain ts e [] d" and "plain ts c"
  shows "do_catch (Suc n) m ts v h e obj outer =
    (if c = d then Inr (Some obj) else if class_at ts c then do_upcast (Suc n) m ts c d obj else Inr None)"
proof -
  obtain ti where ti: "ts c = Some ti" "\<not> is_pointer_p ti" "h = c" "e = d" using assms(1,2) by (auto elim!: chain_NilE)
  then show ?thesis using assms(3)
    by (cases "ti_class ti") (auto simp: do_catch.simps is_pointer_p_def plain_def class_at_def is_class_def)
qed

lemma upcast_not_class: "ts d = Some ti \<Longrightarrow> \<not> class_at ts d \<Longrightarrow> do_upcast (Suc n) m ts c d obj = Inr None"
  by (cases "ti_class ti") (auto simp: do_upcast.simps class_at_def is_class_def)

lemma outer_bit: "(outer AND - 2) AND 1 = 0" "outer AND (- 2 AND 1) = 0" for outer :: "32 word"
  by (simp_all add: and.assoc)

text \<open>The same base: the code walks down the two chains.\<close>

lemma do_catch_levels:
  assumes "pointer_chain ts h fs c" and "pointer_chain ts e es c" and "canonical ts" and "plain ts c" and "\<not> is_void ts v c"
    and "\<forall>t fl u. points_to ts t fl u \<longrightarrow> \<not> is_void ts v t" and "length fs < n"
  shows "do_catch n m ts v h e obj outer = Inr (if level_check (outer AND 1 \<noteq> 0) es fs then Some obj else None)"
  using assms(1,2,7)
proof (induction fs arbitrary: h e es n outer)
  case Nil
  obtain k where n: "n = Suc k" using Nil.prems(3) by (cases n) auto
  have h: "h = c" using Nil.prems(1) by (auto elim: chain_NilE)
  show ?case
  proof (cases es)
    case Nil
    then have "e = c" using \<open>pointer_chain ts e es c\<close> by (auto elim: chain_NilE)
    then show ?thesis using h n Nil chain_store [OF \<open>pointer_chain ts h [] c\<close>] by (auto simp: do_catch_same level_check.simps)
  next
    case (Cons efl es')
    then obtain e' where "points_to ts e efl e'" using \<open>pointer_chain ts e es c\<close> by (auto elim: chain_ConsE)
    with do_catch_plain_pointer [of ts h e efl e' k] Nil.prems(1) assms(4) h n Cons show ?thesis by (simp add: level_check.simps)
  qed
next
  case (Cons fl fs)
  obtain k where n: "n = Suc k" "length fs < k" using Cons.prems(3) by (cases n) auto
  obtain h' where h': "points_to ts h fl h'" "pointer_chain ts h' fs c" using Cons.prems(1) by (auto elim: chain_ConsE)
  show ?case
  proof (cases es)
    case Nil
    then have "pointer_chain ts e [] e" using Cons.prems(2) by (auto elim: chain_NilE intro: chain_base)
    from do_catch_pointer_plain [OF h'(1) this] n Nil show ?thesis by (simp add: level_check.simps)
  next
    case (Cons efl es')
    then obtain e' where e': "points_to ts e efl e'" "pointer_chain ts e' es' c" using \<open>pointer_chain ts e es c\<close> by (auto elim: chain_ConsE)
    show ?thesis
    proof (cases "h = e")
      case True
      then have "es = fl # fs" using chain_same \<open>pointer_chain ts h (fl # fs) c\<close> \<open>pointer_chain ts e es c\<close> by blast
      then show ?thesis using True n chain_store [OF \<open>pointer_chain ts h (fl # fs) c\<close>] by (auto simp: do_catch_same level_check.simps)
    next
      case False
      then have ne: "es \<noteq> fl # fs" using chain_unique [OF assms(3)] \<open>pointer_chain ts h (fl # fs) c\<close> \<open>pointer_chain ts e es c\<close> by blast
      obtain p where p: "ts h' = Some p" using chain_store [OF h'(2)] by blast
      have nv: "type_name p \<noteq> v"
      proof (cases fs)
        case Nil
        then show ?thesis using h'(2) assms(5) p by (auto elim!: chain_NilE simp: is_void_def)
      next
        case (Cons f fs')
        then obtain u where "points_to ts h' f u" using h'(2) by (auto elim: chain_ConsE)
        then show ?thesis using assms(6) p by (auto simp: is_void_def)
      qed
      have lc: "level_check b es (fl # fs) \<longleftrightarrow> b \<and> has_quals fl efl \<and> level_check (b \<and> is_const fl) es' fs" for b
        using ne Cons by (auto simp: level_check.simps [of b "efl # es'" "fl # fs"])
      show ?thesis
        unfolding lc n(1) do_catch_level [OF h'(1) e'(1) False p] using nv
        by (cases "outer AND 1 = 0") (simp_all add: Cons.IH [OF h'(2) e'(2) n(2)] outer_bit)
    qed
  qed
qed

text \<open>A handler without pointers.\<close>

lemma catch_base_spec:
  assumes "pointer_chain ts h [] c" and "pointer_chain ts e es d" and "plain ts c" and "ranked ts rank" and "rank d < n"
  shows "case do_catch n m ts v h e obj outer of
      Inr (Some r) \<Rightarrow> es = [] \<and> (if c = d then r = obj else class_at ts c \<and> class_at ts d \<and> subobject m ts d obj c r)
    | Inr None \<Rightarrow> es \<noteq> [] \<or> c \<noteq> d \<and> (class_at ts c \<longrightarrow> class_at ts d \<longrightarrow> (\<forall>r. \<not> subobject m ts d obj c r))
    | Inl f \<Rightarrow> f = Out_Of_Bounds \<and> broken m ts d obj"
proof -
  obtain k where n: "n = Suc k" using assms(5) by (cases n) auto
  have h: "h = c" using assms(1) by (auto elim: chain_NilE)
  show ?thesis
  proof (cases es)
    case Nil
    with do_catch_base [OF assms(1) _ assms(3), of e d k m v obj outer] assms(2) n
    have eq: "do_catch n m ts v h e obj outer =
      (if c = d then Inr (Some obj) else if class_at ts c then do_upcast n m ts c d obj else Inr None)" by simp
    have up: "case do_upcast n m ts c d obj of Inr (Some r) \<Rightarrow> class_at ts d \<and> subobject m ts d obj c r
        | Inr None \<Rightarrow> class_at ts d \<longrightarrow> (\<forall>r. \<not> subobject m ts d obj c r)
        | Inl f \<Rightarrow> f = Out_Of_Bounds \<and> broken m ts d obj"
    proof (cases "class_at ts d")
      case True
      with do_upcast_spec [OF assms(4) True assms(5), where m = m and u = c and p = obj] show ?thesis by (auto split: sum.splits option.splits)
    next
      case False
      obtain ti where "ts d = Some ti" using assms(2) Nil by (auto elim: chain_NilE)
      from upcast_not_class [OF this False] n False show ?thesis by simp
    qed
    show ?thesis unfolding eq using Nil up by (auto split: sum.splits option.splits)
  next
    case (Cons efl es')
    then obtain e' where "points_to ts e efl e'" using assms(2) by (auto elim: chain_ConsE)
    with do_catch_plain_pointer [of ts h e efl e' k] assms(1,3) h n Cons show ?thesis by simp
  qed
qed

section \<open>Properties\<close>


text \<open>\<open>char\<close>, \<open>char *\<close>, \<open>char **\<close>, \<open>char const *\<close>, \<open>char const **\<close> and \<open>char const *const *\<close>.\<close>

definition char_types :: types where
  "char_types = Map.empty(
     0x10 \<mapsto> \<lparr>type_name = 1, ti_class = fundamental_type_info\<rparr>,
     0x20 \<mapsto> \<lparr>type_name = 2, ti_class = pointer_type_info 0 0x10\<rparr>,
     0x30 \<mapsto> \<lparr>type_name = 3, ti_class = pointer_type_info 0 0x20\<rparr>,
     0x40 \<mapsto> \<lparr>type_name = 4, ti_class = pointer_type_info 1 0x10\<rparr>,
     0x50 \<mapsto> \<lparr>type_name = 5, ti_class = pointer_type_info 0 0x40\<rparr>,
     0x60 \<mapsto> \<lparr>type_name = 6, ti_class = pointer_type_info 1 0x40\<rparr>)"

lemma char_chains:
  "pointer_chain char_types 0x30 [0, 0] 0x10" "pointer_chain char_types 0x50 [0, 1] 0x10" "pointer_chain char_types 0x60 [1, 1] 0x10"
  by (auto simp: char_types_def is_pointer_p_def intro!: pointer_chain.intros)

lemma char_types_ok:
  "canonical char_types" "plain char_types 0x10" "\<forall>t fl u. points_to char_types t fl u \<longrightarrow> \<not> is_void char_types 0 t"
  "\<not> is_void char_types 0 0x10" "ranked char_types (\<lambda>t. 0)"
  by (auto simp: canonical_def plain_def is_void_def ranked_def bases_def char_types_def split: if_splits)


text \<open>
  C37. A handler for a pointer to a data member also catches plain pointers: \<open>__pbase_type_info::__do_catch\<close> does not ask whether the handler's
  own type is a pointer, so a thrown \<open>int *\<close> is caught as an \<open>int A::*\<close>.
\<close>

theorem member_handler_catches_pointer:
  assumes "class_of ts h = Some (pointer_to_member_type_info fl p c)" and "points_to ts e efl p" and "has_quals fl efl" and "ts p = Some pi"
  shows "do_catch (Suc (Suc n)) m ts v h e obj 1 = Inr (Some obj)"
  using assms by (auto simp: do_catch.simps(2) [of "Suc n"] Let_def do_catch_same)

theorem member_handler_catches_pointer_witness:
  "do_catch 2 (\<lambda>p. None) (char_types(0x70 \<mapsto> \<lparr>type_name = 7, ti_class = pointer_to_member_type_info 0 0x10 0x80\<rparr>)) 0 0x70 0x20 9 1 = Inr (Some 9)"
proof -
  let ?ts = "char_types(0x70 \<mapsto> \<lparr>type_name = 7, ti_class = pointer_to_member_type_info 0 0x10 0x80\<rparr>)"
  have "do_catch (Suc (Suc 0)) (\<lambda>p. None) ?ts 0 0x70 0x20 9 1 = Inr (Some 9)"
    by (rule member_handler_catches_pointer [where fl = 0 and p = "0x10" and c = "0x80" and efl = 0]) (simp_all add: char_types_def)
  then show ?thesis by (simp add: numeral_2_eq_2)
qed

text \<open>
  A thrown pointer to a class that was incomplete where it was thrown is not caught by a handler for \<open>void *\<close>: the flag
  \<open>__incomplete_mask\<close> is compared as if it were a qualifier.
\<close>

definition incomplete_mask :: "32 word" where "incomplete_mask = 0x8"

theorem void_handler_misses_incomplete:
  assumes "points_to ts h fl u" and "ts u = Some ui" and "type_name ui = v" and "fl AND incomplete_mask = 0"
    and "points_to ts e efl d" and "efl AND incomplete_mask \<noteq> 0"
  shows "do_catch (Suc n) m ts v h e obj 1 = Inr None"
proof -
  have "efl AND NOT fl \<noteq> 0"
  proof
    have "bit (fl AND incomplete_mask) k = bit (0 :: 32 word) k" for k using assms(4) by simp
    then have "efl AND incomplete_mask = (efl AND NOT fl) AND incomplete_mask"
      by (intro bit_word_eqI) (auto simp: bit_and_iff bit_not_iff)
    moreover assume "efl AND NOT fl = 0"
    ultimately show False using assms(6) by simp
  qed
  moreover have "h \<noteq> e" using assms(1,4-6) by auto
  ultimately show ?thesis using do_catch_level [OF assms(1,5) _ assms(2), of n m v obj 1] by simp
qed

theorem void_handler_misses_incomplete_witness:
  "do_catch 1 (\<lambda>p. None) (Map.empty(1 \<mapsto> \<lparr>type_name = 5, ti_class = fundamental_type_info\<rparr>,
      2 \<mapsto> \<lparr>type_name = 6, ti_class = pointer_type_info 0 1\<rparr>, 3 \<mapsto> \<lparr>type_name = 7, ti_class = pointer_type_info 8 4\<rparr>)) 5 2 3 9 1 = Inr None"
  unfolding One_nat_def
  by (rule void_handler_misses_incomplete [where fl = 0 and u = 1 and efl = 8 and d = 4 and ui = "\<lparr>type_name = 5, ti_class = fundamental_type_info\<rparr>"]) (simp_all add: incomplete_mask_def)

end
