(* ===== verification/Guard_Platform.thy ===== *)
theory Guard_Platform
  imports Guard
begin

text \<open>
  The choice of the guard class in \<open>guard.cc\<close>: the preprocessor selects a class and its bits from the target, and compiled
  code tests the first byte of the guard before it calls the library. \<open>suits\<close> says that a class agrees with
  a byte order; it is what the theorems of \<open>Guard\<close> assume.
\<close>

section \<open>The classes and their sizes\<close>

datatype guard_class =
    SingleWordGuard nat nat nat   \<comment> \<open>bits of the word, the lock bit, the bit of initialisation\<close>
  | DoubleWordGuard nat nat

fun guard_size :: "guard_class \<Rightarrow> nat" where
  "guard_size (SingleWordGuard w lockedBit initBit) = w div 8"
| "guard_size (DoubleWordGuard lockedBit initBit) = 4 + 4"

text \<open>The three assertions on the sizes.\<close>

definition guard_static_asserts :: bool where
  "guard_static_asserts \<longleftrightarrow> guard_size (SingleWordGuard 32 31 0) = 4 \<and> guard_size (SingleWordGuard 64 63 0) = 8
     \<and> guard_size (DoubleWordGuard 31 0) = 8"

lemma guard_sizes: guard_static_asserts
  by (simp add: guard_static_asserts_def)

text \<open>
  A target: its byte order, and the macros its compiler predefines. \<open>byte_order\<close> is the value of \<open>__BYTE_ORDER__\<close>, when it is
  defined: whether it equals \<open>__ORDER_LITTLE_ENDIAN__\<close>.
\<close>

record target =
  big_endian :: bool
  arm :: bool
  lp64 :: bool
  x86 :: bool
  predefined_little :: bool
  byte_order :: "bool option"

definition LITTLE_ENDIAN :: "target \<Rightarrow> bool" where
  "LITTLE_ENDIAN t =
     (if predefined_little t then True
      else case byte_order t of Some little \<Rightarrow> little | None \<Rightarrow> x86 t)"

definition Guard_class :: "target \<Rightarrow> guard_class" where
  "Guard_class t =
     (if arm t then SingleWordGuard 32 31 0
      else if lp64 t then (if LITTLE_ENDIAN t then SingleWordGuard 64 63 0 else SingleWordGuard 64 0 56)
      else (if LITTLE_ENDIAN t then DoubleWordGuard 31 0 else DoubleWordGuard 0 24))"

section \<open>The first byte\<close>

text \<open>Bit \<open>b\<close> of a word of \<open>w\<close> bits lies in the byte with the lowest address.\<close>

definition in_first_byte :: "nat \<Rightarrow> bool \<Rightarrow> nat \<Rightarrow> bool" where
  "in_first_byte w big b \<longleftrightarrow> (if big then w - 8 \<le> b else b < 8)"

text \<open>The word that compiled code reads has \<open>w\<close> bits; of the double-word guard it is the first word.\<close>

fun suits :: "bool \<Rightarrow> guard_class \<Rightarrow> bool" where
  "suits big (SingleWordGuard w lockedBit initBit) \<longleftrightarrow> lockedBit < w \<and> initBit < w \<and> in_first_byte w big initBit \<and> \<not> in_first_byte w big lockedBit"
| "suits big (DoubleWordGuard lockedBit initBit) \<longleftrightarrow> lockedBit < 32 \<and> initBit < 32 \<and> in_first_byte 32 big initBit \<and> \<not> in_first_byte 32 big lockedBit"

lemma first_byte_bit:
  assumes "b < LENGTH('w::len)" and "8 \<le> LENGTH('w)"
  shows "(first_byte big (bit_value b :: 'w word) \<noteq> 0) = in_first_byte LENGTH('w) big b"
proof -
  have ne: "w \<noteq> 0 \<longleftrightarrow> (\<exists>n<LENGTH('w). bit w n)" for w :: "'w word"
    by (metis bit_0_eq bit_word_eqI bot_apply bot_bool_def)
  show ?thesis
    unfolding ne using assms
    by (auto simp: first_byte_def bit_value_def in_first_byte_def bit_take_bit_iff bit_drop_bit_eq bit_exp_iff
      intro: exI [of _ b] exI [of _ "b - (LENGTH('w) - 8)"])
qed

lemma suits_layout:
  assumes "8 \<le> LENGTH('w::len)"
  shows "suits big (SingleWordGuard LENGTH('w) lockedBit initBit) = layout TYPE('w) lockedBit initBit big"
  using first_byte_bit [OF _ assms] by (auto simp: layout_def)

section \<open>Properties\<close>

text \<open>The macros of a target do not lie about it; ARM is taken to be little-endian.\<close>

definition truthful :: "target \<Rightarrow> bool" where
  "truthful t \<longleftrightarrow> (predefined_little t \<longrightarrow> \<not> big_endian t) \<and> (x86 t \<longrightarrow> \<not> big_endian t) \<and> (arm t \<longrightarrow> \<not> big_endian t)
     \<and> (byte_order t \<noteq> None \<longrightarrow> byte_order t = Some (\<not> big_endian t))"


definition gcc_x86_64 :: target where
  "gcc_x86_64 = \<lparr>big_endian = False, arm = False, lp64 = True, x86 = True, predefined_little = False, byte_order = Some True\<rparr>"


text \<open>A run that leaves thread 0 in the constructor.\<close>

lemma owned_run:
  assumes "initBit < LENGTH('w::len)"
  shows "(sw_step lockedBit initBit big)\<^sup>*\<^sup>* sw_start (sw_goto 0 S_Own ((sw_start :: 'w word sw)\<lparr>sw_val := bit_value lockedBit\<rparr>))"
  by (rule sw_acquire_run) (use assms in \<open>simp_all add: sw_start_def\<close>)

text \<open>
  Why this matters: with the bits of the other byte order, compiled code takes the static for ready while it is being constructed, and
  the assertion of \<open>unlock\<close> stops the program when the constructor returns.
\<close>

lemma guard_wrong_byte_order:
  "\<exists>s. (sw_step 0 56 False)\<^sup>*\<^sup>* (sw_start :: 64 word sw) s \<and> sw_pc s 0 = S_Own \<and> first_byte False (sw_val s) \<noteq> 0
    \<and> sw_step 0 56 False s (sw_goto 0 S_Failed (s\<lparr>sw_val := sw_unlock 56 True\<rparr>))"
proof -
  define s where "s = sw_goto 0 S_Own ((sw_start :: 64 word sw)\<lparr>sw_val := bit_value 0\<rparr>)"
  have run: "(sw_step 0 56 False)\<^sup>*\<^sup>* sw_start s" unfolding s_def by (rule owned_run) simp
  have own: "sw_pc s 0 = S_Own" "first_byte False (sw_val s) \<noteq> 0"
    by (simp_all add: s_def sw_goto_def first_byte_bit in_first_byte_def)
  have "\<not> sw_unlock_assert False 56 (sw_unlock 56 True :: 64 word)"
    using first_byte_bit [of 56 False, where 'w = 64] by (simp add: sw_unlock_assert_def in_first_byte_def)
  then have "sw_step 0 56 False s (sw_goto 0 S_Failed (s\<lparr>sw_val := sw_unlock 56 True\<rparr>))"
    using sw_release [OF own(1) refl, of 0 56 False] by simp
  with run own show ?thesis by blast
qed

end
