(* ===== verification/Layout.thy ===== *)
theory Layout
  imports Exceptions
begin

text \<open>
  The layout in memory of the structures that the library shares with compilers and unwinders: \<open>__cxa_exception\<close>,
  \<open>__cxa_dependent_exception\<close>, \<open>_Unwind_Exception\<close>, the per-thread structures and the classes of type information, on the three ABIs the headers name.
  A structure is the list of its fields with their sizes and alignments; offsets and sizes follow the rule of C. The static
  assertions of \<open>exception.cc\<close> and the addresses that \<open>Exceptions\<close> computes with are theorems about these lists.
\<close>

section \<open>Structures\<close>

type_synonym field = "string \<times> nat \<times> nat"   \<comment> \<open>name, size, alignment\<close>

definition align_up :: "nat \<Rightarrow> nat \<Rightarrow> nat" where
  "align_up n a = (n + a - 1) div a * a"

fun field_offsets :: "nat \<Rightarrow> field list \<Rightarrow> (string \<times> nat) list" where
  "field_offsets n [] = []"
| "field_offsets n ((f, sz, al) # fs) = (f, align_up n al) # field_offsets (align_up n al + sz) fs"

fun struct_end :: "nat \<Rightarrow> field list \<Rightarrow> nat" where
  "struct_end n [] = n"
| "struct_end n ((f, sz, al) # fs) = struct_end (align_up n al + sz) fs"

definition struct_align :: "field list \<Rightarrow> nat" where
  "struct_align fs = foldr (\<lambda>(f, sz, al). max al) fs 1"

definition struct_size :: "field list \<Rightarrow> nat" where
  "struct_size fs = align_up (struct_end 0 fs) (struct_align fs)"

definition offsetof :: "field list \<Rightarrow> string \<Rightarrow> nat option" where
  "offsetof fs f = map_of (field_offsets 0 fs) f"

text \<open>A member that is itself a structure.\<close>

definition struct_field :: "string \<Rightarrow> field list \<Rightarrow> field" where
  "struct_field f fs = (f, struct_size fs, struct_align fs)"

section \<open>The structures of the library\<close>

datatype abi = LP64 | ILP32 | ARM32

definition pointer_size :: "abi \<Rightarrow> nat" where
  "pointer_size b = (if b = LP64 then 8 else 4)"

definition pointer :: "abi \<Rightarrow> string \<Rightarrow> field" where
  "pointer b f = (f, pointer_size b, pointer_size b)"

definition int_field :: "string \<Rightarrow> field" where
  "int_field f = (f, 4, 4)"

text \<open>
  \<open>__attribute__((__aligned__))\<close> is the largest alignment of the target, \<open>A\<close>; it is given to the structure as the alignment
  of a last field without size.
\<close>

definition Unwind_Exception :: "abi \<Rightarrow> nat \<Rightarrow> field list" where
  "Unwind_Exception b A =
     (if b = ARM32 then
        [(''exception_class'', 8, 8), pointer b ''exception_cleanup'', (''unwinder_cache'', 20, 4), (''barrier_cache'', 24, 4),
         (''cleanup_cache'', 16, 4), (''pr_cache'', 16, 4), ('''', 0, 8)]
      else
        [(''exception_class'', 8, if b = LP64 then 8 else 4), pointer b ''exception_cleanup'', pointer b ''private_1'', pointer b ''private_2'']
        @ (if pointer_size b = 4 then [(''reserved'', 12, 4)] else []) @ [('''', 0, A)])"

definition cxa_exception_fields :: "abi \<Rightarrow> nat \<Rightarrow> field list" where
  "cxa_exception_fields b A =
     (if b = LP64 then [pointer b ''reserve'', pointer b ''referenceCount''] else [])
     @ [pointer b ''exceptionType'', pointer b ''exceptionDestructor'', pointer b ''unexpectedHandler'', pointer b ''terminateHandler'',
        pointer b ''nextException'', int_field ''handlerCount'']
     @ (if b = ARM32 then [pointer b ''nextCleanup'', int_field ''cleanupCount''] else [])
     @ [int_field ''handlerSwitchValue'', pointer b ''actionRecord'', pointer b ''languageSpecificData'', pointer b ''catchTemp'', pointer b ''adjustedPtr'']
     @ (if b = LP64 then [] else [pointer b ''referenceCount''])
     @ [struct_field ''unwindHeader'' (Unwind_Exception b A)]"

definition cxa_dependent_exception_fields :: "abi \<Rightarrow> nat \<Rightarrow> field list" where
  "cxa_dependent_exception_fields b A =
     (if b = LP64 then [pointer b ''reserve'', pointer b ''primaryException''] else [])
     @ [pointer b ''exceptionType'', pointer b ''exceptionDestructor'', pointer b ''unexpectedHandler'', pointer b ''terminateHandler'',
        pointer b ''nextException'', int_field ''handlerCount'']
     @ (if b = ARM32 then [pointer b ''nextCleanup'', int_field ''cleanupCount''] else [])
     @ [int_field ''handlerSwitchValue'', pointer b ''actionRecord'', pointer b ''languageSpecificData'', pointer b ''catchTemp'', pointer b ''adjustedPtr'']
     @ (if b = LP64 then [] else [pointer b ''primaryException''])
     @ [struct_field ''unwindHeader'' (Unwind_Exception b A)]"

definition exception_static_asserts :: "abi \<Rightarrow> nat \<Rightarrow> bool" where
  "exception_static_asserts b A \<longleftrightarrow>
     struct_size (cxa_exception_fields b A) = struct_size (cxa_dependent_exception_fields b A)
   \<and> offsetof (cxa_exception_fields b A) ''referenceCount'' = offsetof (cxa_dependent_exception_fields b A) ''primaryException''
   \<and> offsetof (cxa_exception_fields b A) ''unwindHeader'' = offsetof (cxa_dependent_exception_fields b A) ''unwindHeader''
   \<and> offsetof (cxa_dependent_exception_fields b A) ''unwindHeader''
       = map_option (\<lambda>i. i + 8) (offsetof (cxa_dependent_exception_fields b A) ''adjustedPtr'')"

definition eh_globals_fields :: "abi \<Rightarrow> field list" where
  "eh_globals_fields b = [pointer b ''caughtExceptions'', int_field ''uncaughtExceptions'']"

definition thread_info_fields :: "abi \<Rightarrow> bool \<Rightarrow> field list" where
  "thread_info_fields b no_emergency =
     [pointer b ''terminateHandler'', pointer b ''unexpectedHandler'']
     @ (if no_emergency then [] else [int_field ''emergencyBuffersHeld''])
     @ [pointer b ''currentCleanup'', int_field ''foreign_exception_state'', struct_field ''globals'' (eh_globals_fields b)]"

text \<open>Type information; a base class without padding at its end is written out before the fields of the derived one.\<close>

definition type_info_fields :: "abi \<Rightarrow> field list" where
  "type_info_fields b = [pointer b ''vtable'', pointer b ''__type_name'']"

definition si_class_fields :: "abi \<Rightarrow> field list" where
  "si_class_fields b = type_info_fields b @ [pointer b ''__base_type'']"

definition base_class_fields :: "abi \<Rightarrow> field list" where
  "base_class_fields b = [pointer b ''__base_type'', pointer b ''__offset_flags'']"

definition vmi_class_fields :: "abi \<Rightarrow> field list" where
  "vmi_class_fields b = type_info_fields b @ [int_field ''__flags'', int_field ''__base_count'', struct_field ''__base_info'' (base_class_fields b)]"

definition pbase_fields :: "abi \<Rightarrow> field list" where
  "pbase_fields b = type_info_fields b @ [int_field ''__flags'', pointer b ''__pointee'']"

definition pointer_to_member_fields :: "abi \<Rightarrow> field list" where
  "pointer_to_member_fields b = pbase_fields b @ [pointer b ''__context'']"

definition vtable_header_fields :: "abi \<Rightarrow> field list" where
  "vtable_header_fields b = [pointer b ''leaf_offset'', pointer b ''type'']"

section \<open>The rule of C\<close>

definition well_formed_struct :: "field list \<Rightarrow> bool" where
  "well_formed_struct fs \<longleftrightarrow> (\<forall>(f, sz, al) \<in> set fs. 0 < al)"

lemma align_up_ge: "0 < a \<Longrightarrow> n \<le> align_up n a"
proof -
  assume "0 < a"
  then have "(n + a - 1) mod a \<le> a - 1" by (metis Suc_pred' less_Suc_eq_le mod_less_divisor)
  moreover have "align_up n a = n + a - 1 - (n + a - 1) mod a" by (simp add: align_up_def minus_mod_eq_div_mult)
  ultimately show "n \<le> align_up n a" using \<open>0 < a\<close> by linarith
qed

lemma align_up_dvd: "a dvd align_up n a"
  by (simp add: align_up_def)

text \<open>The fields lie one after the other, each at its alignment.\<close>

fun placed :: "nat \<Rightarrow> field list \<Rightarrow> nat list \<Rightarrow> nat \<Rightarrow> bool" where
  "placed n [] [] e \<longleftrightarrow> n \<le> e"
| "placed n ((f, sz, al) # fs) (i # is) e \<longleftrightarrow> n \<le> i \<and> al dvd i \<and> placed (i + sz) fs is e"
| "placed n _ _ e \<longleftrightarrow> False"

lemma fields_placed: "well_formed_struct fs \<Longrightarrow> struct_end n fs \<le> e \<Longrightarrow> placed n fs (map snd (field_offsets n fs)) e"
  by (induction n fs rule: field_offsets.induct) (auto simp: well_formed_struct_def align_up_ge align_up_dvd)

lemma struct_align_pos: "0 < struct_align fs"
  by (induction fs) (auto simp: struct_align_def)

lemma struct_end_le: "struct_end 0 fs \<le> struct_size fs"
  unfolding struct_size_def by (rule align_up_ge [OF struct_align_pos])

lemmas struct_defs = exception_static_asserts_def cxa_exception_fields_def cxa_dependent_exception_fields_def Unwind_Exception_def pointer_def
  int_field_def pointer_size_def struct_field_def struct_size_def struct_align_def offsetof_def align_up_def

text \<open>The alignments that \<open>__attribute__((__aligned__))\<close> stands for.\<close>

lemma asserts_hold: "A = 8 \<or> A = 16 \<Longrightarrow> exception_static_asserts b A"
  by (cases b) (auto simp: struct_defs)

lemma header_size: "A = 8 \<or> A = 16 \<Longrightarrow> struct_size (cxa_exception_fields b A) = (case b of LP64 \<Rightarrow> 128 | ILP32 \<Rightarrow> 80 | ARM32 \<Rightarrow> 144)"
  by (cases b) (auto simp: struct_defs)

lemma header_offset: "A = 8 \<or> A = 16 \<Longrightarrow> offsetof (cxa_exception_fields b A) ''unwindHeader'' = Some (case b of LP64 \<Rightarrow> 96 | ILP32 \<Rightarrow> 48 | ARM32 \<Rightarrow> 56)"
  by (cases b) (auto simp: struct_defs)

lemma exception_fields_well_formed: "A = 8 \<or> A = 16 \<Longrightarrow> well_formed_struct (cxa_exception_fields b A)"
  by (cases b) (auto simp: struct_defs well_formed_struct_def)

text \<open>The offsets of the Itanium ABI for type information, which compilers write into their tables.\<close>

lemma type_info_layout:
  "field_offsets 0 (si_class_fields LP64) = [(''vtable'', 0), (''__type_name'', 8), (''__base_type'', 16)]"
  "field_offsets 0 (vmi_class_fields LP64) = [(''vtable'', 0), (''__type_name'', 8), (''__flags'', 16), (''__base_count'', 20), (''__base_info'', 24)]"
  "field_offsets 0 (pointer_to_member_fields LP64)
    = [(''vtable'', 0), (''__type_name'', 8), (''__flags'', 16), (''__pointee'', 24), (''__context'', 32)]"
  "struct_size (base_class_fields LP64) = 16" "struct_size (vtable_header_fields LP64) = 16"
  by (simp_all add: si_class_fields_def vmi_class_fields_def pointer_to_member_fields_def pbase_fields_def type_info_fields_def
      base_class_fields_def vtable_header_fields_def struct_defs)

text \<open>The per-thread structure with its counter of emergency buffers and without.\<close>

lemma thread_info_layout:
  "struct_size (thread_info_fields LP64 False) = 56" "struct_size (thread_info_fields LP64 True) = 48"
  by (simp_all add: thread_info_fields_def eh_globals_fields_def struct_defs)

section \<open>Properties\<close>



end
