(* ===== verification/Build_Variants.thy ===== *)
theory Build_Variants
  imports Exceptions New_Delete
begin

text \<open>
  What the sources compile to under their other build options: exceptions without emergency buffers (\<open>LIBCXXRT_NO_EMERGENCY_MALLOC\<close> in
  \<open>exception.cc\<close>) and \<open>operator new\<close> without exceptions (\<open>_CXXRT_NO_EXCEPTIONS\<close> in \<open>memory.cc\<close>), compared with the default build;
  and the copy operations of \<open>std::type_info\<close> (\<open>typeinfo.cc\<close>).
\<close>

section \<open>No emergency buffers\<close>

definition plain_alloc_or_die :: "outside \<Rightarrow> 64 word \<Rightarrow> ptr X" where
  "plain_alloc_or_die E sz = bind (do_calloc E sz) (\<lambda>buffer. case buffer of
     None \<Rightarrow> crash Terminated
   | Some p \<Rightarrow> upd (\<lambda>w. w\<lparr>exns := (exns w)(p \<mapsto> zero_exception)\<rparr>) (ret p))"

definition plain_free_exception :: "ptr \<Rightarrow> unit X" where
  "plain_free_exception e = (\<lambda>w. if exns w e = None then Fault Double_Free else Ok () (w\<lparr>exns := (exns w)(e := None)\<rparr>))"

text \<open>While \<open>calloc\<close> has memory the two builds do the same; without it this one terminates.\<close>

theorem plain_allocation:
  "plain_alloc_or_die E sz w = (if calloc E (callocs w) sz = None then Fault Terminated else alloc_or_die E sz w)"
  by (auto simp: plain_alloc_or_die_def alloc_or_die_def do_calloc_def bind_def ret_def crash_def upd_def)

theorem plain_release:
  "\<not> (emergency_buffer E \<le> e \<and> e < emergency_buffer E + 16384) \<Longrightarrow> plain_free_exception e = free_exception E e"
  by (auto simp: plain_free_exception_def free_exception_def)

section \<open>Allocation without exceptions\<close>

text \<open>The result is a block or null, or the exception of a handler, which nothing here stops.\<close>

partial_function (option) noexc_new_loop ::
    "'m nd_env \<Rightarrow> nat \<Rightarrow> nat option \<Rightarrow> 'm nd \<Rightarrow> ((thrown + nat option) \<times> 'm nd) option" where
  "noexc_new_loop E sz p s = (case p of Some a \<Rightarrow> Some (Inr (Some a), s)
     | None \<Rightarrow>
        (if get_new_handler s \<noteq> 0 then
           (case nd_call E (get_new_handler s) s of
              (Some e, s) \<Rightarrow> Some (Inl e, s)
            | (None, s) \<Rightarrow> (case malloc_in E sz s of (p, s) \<Rightarrow> noexc_new_loop E sz p s))
         else Some (Inr None, s)))"

definition noexc_operator_new :: "'m nd_env \<Rightarrow> nat \<Rightarrow> 'm nd \<Rightarrow> ((thrown + nat option) \<times> 'm nd) option" where
  "noexc_operator_new E sz s =
     (let sz = (if 0 = sz then 1 else sz);
          (p, s) = malloc_in E sz s
      in noexc_new_loop E sz p s)"

definition noexc_operator_new_nothrow :: "'m nd_env \<Rightarrow> nat \<Rightarrow> 'm nd \<Rightarrow> ((thrown + nat option) \<times> 'm nd) option" where
  "noexc_operator_new_nothrow E sz s = noexc_operator_new E sz s"

definition as_null :: "(thrown + nat) \<times> 'm nd \<Rightarrow> (thrown + nat option) \<times> 'm nd" where
  "as_null rs = ((case fst rs of Inr a \<Rightarrow> Inr (Some a) | Inl e \<Rightarrow> Inr None), snd rs)"

lemma noexc_sound:
  assumes "new_loop E sz p s = Some r" and "\<forall>h s. fst (nd_call E h s) = None"
  shows "noexc_new_loop E sz p s = Some (as_null r)"
proof -
  have "(\<forall>h s. fst (nd_call E h s) = None) \<longrightarrow> noexc_new_loop E sz p s = Some (as_null r)"
  proof (rule new_loop.raw_induct [where P = "\<lambda>E sz p s r. (\<forall>h s. fst (nd_call E h s) = None) \<longrightarrow> noexc_new_loop E sz p s = Some (as_null r)",
      OF _ assms(1)], intro impI)
    fix loop and E :: "'a nd_env" and sz s r and p :: "nat option"
    assume IH: "\<And>E sz p s r. loop E sz p s = Some r \<Longrightarrow> (\<forall>h s. fst (nd_call E h s) = None) \<longrightarrow> noexc_new_loop E sz p s = Some (as_null r)"
      and step: "(case p of Some a \<Rightarrow> Some (Inr a, s) | None \<Rightarrow>
        (if get_new_handler s \<noteq> 0 then (case nd_call E (get_new_handler s) s of (Some e, s) \<Rightarrow> Some (Inl e, s)
            | (None, s) \<Rightarrow> (case malloc_in E sz s of (p, s) \<Rightarrow> loop E sz p s))
         else Some (Inl Bad_alloc, s))) = Some r"
      and h: "\<forall>h s. fst (nd_call E h s) = None"
    obtain u where call: "nd_call E (get_new_handler s) s = (None, u)" using h by (metis prod.collapse)
    obtain q v where m: "malloc_in E sz u = (q, v)" by force
    from step call m IH [of E sz q v r] h show "noexc_new_loop E sz p s = Some (as_null r)"
      unfolding noexc_new_loop.simps [of E sz p s] by (auto simp: as_null_def split: option.splits if_splits)
  qed
  then show ?thesis using assms(2) by blast
qed

lemma noexc_complete:
  assumes "noexc_new_loop E sz p s = Some r" and "\<forall>h s. fst (nd_call E h s) = None"
  shows "new_loop E sz p s \<noteq> None"
proof -
  have "(\<forall>h s. fst (nd_call E h s) = None) \<longrightarrow> new_loop E sz p s \<noteq> None"
  proof (rule noexc_new_loop.raw_induct [where P = "\<lambda>E sz p s r. (\<forall>h s. fst (nd_call E h s) = None) \<longrightarrow> new_loop E sz p s \<noteq> None",
      OF _ assms(1)], intro impI)
    fix loop and E :: "'a nd_env" and sz s r and p :: "nat option"
    assume IH: "\<And>E sz p s r. loop E sz p s = Some r \<Longrightarrow> (\<forall>h s. fst (nd_call E h s) = None) \<longrightarrow> new_loop E sz p s \<noteq> None"
      and step: "(case p of Some a \<Rightarrow> Some (Inr (Some a), s) | None \<Rightarrow>
        (if get_new_handler s \<noteq> 0 then (case nd_call E (get_new_handler s) s of (Some e, s) \<Rightarrow> Some (Inl e, s)
            | (None, s) \<Rightarrow> (case malloc_in E sz s of (p, s) \<Rightarrow> loop E sz p s))
         else Some (Inr None, s))) = Some r"
      and h: "\<forall>h s. fst (nd_call E h s) = None"
    obtain u where call: "nd_call E (get_new_handler s) s = (None, u)" using h by (metis prod.collapse)
    obtain q v where m: "malloc_in E sz u = (q, v)" by force
    from step call m IH [of E sz q v r] h show "new_loop E sz p s \<noteq> None"
      unfolding new_loop.simps [of E sz p s] by (auto split: option.splits if_splits)
  qed
  then show ?thesis using assms(2) by blast
qed

text \<open>
  Without exceptions, and with handlers that do not throw, \<open>operator new\<close> and its nothrow form return
  exactly when the default build does, in the same state, with null in place of \<open>bad_alloc\<close>.
\<close>

theorem new_without_exceptions:
  assumes "\<forall>h s. fst (nd_call E h s) = None"
  shows "noexc_operator_new E sz s = map_option as_null (operator_new E sz s)
    \<and> noexc_operator_new_nothrow E sz s = map_option (apfst Inr) (operator_new_nothrow E sz s)"
proof -
  have loop: "noexc_new_loop E n p u = map_option as_null (new_loop E n p u)" for n p u
    using noexc_sound [OF _ assms, of n p u] noexc_complete [OF _ assms, of n p u]
    by (cases "new_loop E n p u"; cases "noexc_new_loop E n p u") auto
  then have "noexc_operator_new E sz s = map_option as_null (operator_new E sz s)"
    by (simp add: noexc_operator_new_def operator_new_def Let_def split: prod.split)
  then show ?thesis
    by (auto simp: noexc_operator_new_nothrow_def operator_new_nothrow_def noexcept_new_def as_null_def apfst_def map_prod_def
        split: option.splits sum.splits)
qed

theorem new_without_exceptions_witness:
  "noexc_operator_new pool_env 100 \<lparr>new_handl = 0, memory = (10, 3)\<rparr> = Some (Inr None, \<lparr>new_handl = 0, memory = (10, 3)\<rparr>)"
proof -
  have h: "\<forall>h s. fst (nd_call pool_env h s) = None" by (simp add: pool_env_def)
  have "operator_new pool_env 100 \<lparr>new_handl = 0, memory = (10, 3)\<rparr> = Some (Inl Bad_alloc, \<lparr>new_handl = 0, memory = (10, 3)\<rparr>)"
    by (simp add: operator_new_def malloc_in_def pool_env_def new_loop.simps [of _ _ None] get_new_handler_def)
  with new_without_exceptions [OF h, of 100 "\<lparr>new_handl = 0, memory = (10, 3)\<rparr>"] show ?thesis by (simp add: as_null_def)
qed

section \<open>Copies of type information\<close>

text \<open>The name pointers of the \<open>type_info\<close> objects; \<open>None\<close> is not an object.\<close>

type_synonym names = "ptr \<Rightarrow> ptr option"

definition type_info_copy :: "ptr \<Rightarrow> ptr \<Rightarrow> names \<Rightarrow> names option" where
  "type_info_copy this rhs N = (case N rhs of None \<Rightarrow> None | Some n \<Rightarrow> Some (N(this \<mapsto> n)))"

text \<open>\<open>fresh\<close> is the block that \<open>new\<close> returns; the result is the object the reference refers to.\<close>

definition type_info_assign :: "ptr \<Rightarrow> ptr \<Rightarrow> ptr \<Rightarrow> names \<Rightarrow> (ptr \<times> names) option" where
  "type_info_assign fresh this rhs N = (case type_info_copy fresh rhs N of None \<Rightarrow> None | Some N' \<Rightarrow> Some (fresh, N'))"

text \<open>The assignment operator does not assign: it makes a new object, which nothing frees, and leaves its left side.\<close>

theorem assignment_leaves_this:
  assumes "N rhs = Some n" and "N fresh = None" and "N this = Some k"
  shows "\<exists>N'. type_info_assign fresh this rhs N = Some (fresh, N') \<and> N' this = Some k \<and> N' fresh = Some n"
  using assms by (auto simp: type_info_assign_def type_info_copy_def)

theorem assignment_leaves_this_witness:
  "\<exists>N'. type_info_assign 3 1 2 [1 \<mapsto> 10, 2 \<mapsto> 20] = Some (3, N') \<and> N' 1 = Some 10"
  using assignment_leaves_this [of "[1 \<mapsto> 10, 2 \<mapsto> 20]" 2 20 3 1 10] by auto

end
