(* ===== verification/Specifications.thy ===== *)
theory Specifications
  imports Personality
begin

text \<open>
  Exception specifications in the personality routine (\<open>check_action_record\<close> in \<open>exception.cc\<close>): a negative filter names a list of
  allowed types. The Itanium loop (\<open>check_spec\<close> of \<open>Personality\<close>) reads one byte for each index into the type table; the ARM loop
  reads the type table itself, beyond its end. Both are compared with the list of types that the compiler meant.
\<close>

section \<open>The two loops\<close>

text \<open>
  On ARM; \<open>entry\<close> is \<open>get_type_info_entry\<close> on the frame's tables, whose pointers have 32 bits there, and \<open>sig\<close> is
  \<open>check_type_signature\<close> on the exception.
\<close>

primrec arm_spec_loop :: "nat \<Rightarrow> (int \<Rightarrow> fault + 'p :: zero) \<Rightarrow> ('p \<Rightarrow> fault + bool \<times> ptr option) \<Rightarrow> 'p \<Rightarrow> int \<Rightarrow> ptr option
    \<Rightarrow> fault + bool \<times> ptr option" where
  "arm_spec_loop 0 entry sig handler_type filt adj = Inl Out_Of_Fuel"
| "arm_spec_loop (Suc n) entry sig handler_type filt adj =
     (if handler_type = 0 then Inr (False, adj)
      else case sig handler_type of Inl f \<Rightarrow> Inl f
      | Inr (matched, a) \<Rightarrow>
          if matched then Inr (True, assigned adj a)
          else (case entry filt of Inl f \<Rightarrow> Inl f
            | Inr t \<Rightarrow> arm_spec_loop n entry sig t (filt - 1) (assigned adj a)))"

definition arm_check_spec :: "nat \<Rightarrow> (int \<Rightarrow> fault + 'p :: zero) \<Rightarrow> ('p \<Rightarrow> fault + bool \<times> ptr option) \<Rightarrow> int \<Rightarrow> ptr option
    \<Rightarrow> fault + bool \<times> ptr option" where
  "arm_check_spec n entry sig filt adj =
     (let filt = filt + 1 in case entry filt of Inl f \<Rightarrow> Inl f | Inr t \<Rightarrow> arm_spec_loop n entry sig t (filt - 1) adj)"

section \<open>Lists of allowed types\<close>

fun spec_verdict :: "('p \<Rightarrow> fault + bool \<times> ptr option) \<Rightarrow> 'p list \<Rightarrow> ptr option \<Rightarrow> fault + bool \<times> ptr option" where
  "spec_verdict sig [] adj = Inr (False, adj)"
| "spec_verdict sig (t # ts) adj = (case sig t of Inl f \<Rightarrow> Inl f
     | Inr (matched, a) \<Rightarrow> if matched then Inr (True, assigned adj a) else spec_verdict sig ts (assigned adj a))"

lemma spec_verdict_matches:
  assumes "\<forall>t\<in>set ts. \<exists>m a. sig t = Inr (m, a)"
  shows "\<exists>adj'. spec_verdict sig ts adj = Inr (\<exists>t\<in>set ts. \<exists>a. sig t = Inr (True, a), adj')"
  using assms
proof (induction ts arbitrary: adj)
  case (Cons t ts)
  then obtain m a where "sig t = Inr (m, a)" by auto
  with Cons.IH [of "assigned adj a"] Cons.prems show ?case by auto
qed simp

text \<open>The list in the ARM tables: the entries from index \<open>i\<close> downwards, up to a null pointer.\<close>

fun arm_entries :: "(int \<Rightarrow> fault + 'p :: zero) \<Rightarrow> int \<Rightarrow> 'p list \<Rightarrow> bool" where
  "arm_entries entry i [] \<longleftrightarrow> entry i = Inr 0"
| "arm_entries entry i (t # ts) \<longleftrightarrow> entry i = Inr t \<and> t \<noteq> 0 \<and> arm_entries entry (i - 1) ts"

lemma arm_spec_loop_verdict:
  "arm_entries entry (i + 1) ts \<Longrightarrow> entry (i + 1) = Inr t \<Longrightarrow> length ts < n \<Longrightarrow> arm_spec_loop n entry sig t i adj = spec_verdict sig ts adj"
proof (induction ts arbitrary: i t n adj)
  case Nil
  then show ?case by (cases n) simp_all
next
  case (Cons u ts)
  then obtain k where k: "n = Suc k" "length ts < k" by (cases n) auto
  from Cons.prems have u: "t = u" "u \<noteq> 0" "arm_entries entry i ts" by simp_all
  then obtain v where v: "entry i = Inr v" by (cases ts) auto
  have "arm_spec_loop k entry sig v (i - 1) adj' = spec_verdict sig ts adj'" for adj'
    using Cons.IH [of "i - 1" v k adj'] u(3) v k(2) by simp
  with u v k show ?case by (auto split: sum.splits)
qed

text \<open>The list in the Itanium tables: a byte for each index, up to a zero byte.\<close>

fun byte_entries :: "memory \<Rightarrow> (int \<Rightarrow> fault + ptr) \<Rightarrow> ptr \<Rightarrow> ptr list \<Rightarrow> bool" where
  "byte_entries m entry p [] \<longleftrightarrow> m p = Some 0"
| "byte_entries m entry p (t # ts) \<longleftrightarrow> (\<exists>b. m p = Some b \<and> b \<noteq> 0 \<and> entry (uint b) = Inr t) \<and> byte_entries m entry (p + 1) ts"

lemma check_spec_verdict:
  "byte_entries (mem_of F) (get_type_info_entry F lsda) p ts \<Longrightarrow> length ts < n
    \<Longrightarrow> check_spec n F lsda ex p adj = spec_verdict (check_type_signature F ex) ts adj"
proof (induction ts arbitrary: p n adj)
  case Nil
  then show ?case by (cases n) simp_all
next
  case (Cons t ts)
  then obtain k where k: "n = Suc k" "length ts < k" by (cases n) auto
  from Cons.prems obtain b where b: "mem_of F p = Some b" "b \<noteq> 0" "get_type_info_entry F lsda (uint b) = Inr t"
    "byte_entries (mem_of F) (get_type_info_entry F lsda) (p + 1) ts" by auto
  show ?case using Cons.IH [OF b(4) k(2)] b k by (auto split: sum.splits)
qed

section \<open>Properties\<close>



text \<open>
  The indices are unsigned LEB128 numbers in the tables that compilers emit; the loop takes each byte for an index, so for index 300 it looks at the
  entries 172 and 2.
\<close>

theorem specification_index_bytes:
  assumes "stored (mem_of F) p (uleb 300 @ [0])" and "get_type_info_entry F lsda 172 = Inr t" and "get_type_info_entry F lsda 2 = Inr u"
  shows "check_spec (Suc (Suc (Suc n))) F lsda ex p adj = spec_verdict (check_type_signature F ex) [t, u] adj"
proof -
  have "uleb 300 = [172, 2]" by (simp add: uleb.simps)
  then have "mem_of F p = Some 172" "mem_of F (p + 1) = Some 2" "mem_of F (p + 1 + 1) = Some 0" using assms(1) by simp_all
  then show ?thesis using assms(2,3) by (intro check_spec_verdict) auto
qed

end
