(* ===== verification/Spec2Isabelle.thy ===== *)
theory Spec2Isabelle
  imports Demangle_Runs Demangle_Api Guard Atexit Helpers Dwarf_Codec Typeinfo Handlers Thread_Info Emergency Exception_Protocol Exception_Pointers Refcount
    Personality Unwinding Cleanups Arm Diagnostics Catch_Types Guard_Platform Layout Build_Variants Specifications
begin

text \<open>
  Verification of libcxxrt, the C++ runtime library: the Itanium demangler, exception handling, type information and casts, guards of static variables, exit
  handlers and the allocation operators. Sources are named below by their path under \<open>src/src\<close>.

  \<^bold>\<open>Conventions\<close> (\<open>Prelude\<close>). A piece of C or C++ that changes state is a function from a state to \<open>Ok\<close> with a result and a new
  state, or to a \<open>Fault\<close>: undefined behaviour, a failed assertion, \<open>abort\<close>, \<open>terminate\<close>, a self-deadlock. A theorem that a run
  returns \<open>Ok\<close> therefore says that it met none of them. Allocation may fail at every call. \<open>bind\<close>, \<open>check\<close>, \<open>gets\<close>, \<open>upd\<close>
  and \<open>limited\<close> are the statements of the sources, with a weakest-precondition calculus (\<open>wp_rules\<close>) and rules to run them (\<open>run_rules\<close>). Machine integers
  are words where their width matters (DWARF, type information, guards, exception headers) and unbounded with the bound written out in the
  demangler.

  \<^bold>\<open>The demangler\<close> (\<open>libelftc_dem_gnu3.c\<close>).
  \<^item> \<open>Vectors\<close>: the three growable arrays, every operation with its failures; the locale \<open>growable\<close> is their common contract.
  \<^item> \<open>Demangle_Data\<close>: \<open>struct cpp_demangle_data\<close> and the primitive readers; \<open>Demangle_Tables\<close>: the switch statements over operators and types;
    \<open>Decode_Fp\<close>: floating-point literals; \<open>Demangle_Read\<close> and \<open>Demangle_Main\<close>: one definition per \<open>cpp_demangle_read_*\<close> function, over a parameter that
    stands for the recursive calls, and \<open>run\<close>, which ties the recursion with fuel.
  \<^item> \<open>Demangle_Safe\<close>, \<open>Demangle_Fuel\<close>: the invariant of the state and of every reader (locale \<open>safe_callees\<close>), termination with fuel \<open>4 * length + 7\<close>
    on every input (locale \<open>approx_callees\<close>), and that no array is overrun.
  \<^item> \<open>Numbers\<close>, \<open>Demangle_Triples\<close>, \<open>Demangle_Seq\<close>, \<open>Demangle_Names\<close>, \<open>Demangle_Types\<close>: total-correctness triples, which record the
    output written and the candidates for substitutions. \<open>Mangling\<close>: the mangling of the ABI with its dictionary of substitutions, for
    functions, variables and types over nested names, builtin types, classes, pointers, references and qualifiers; \<open>Demangle_Dictionary\<close>: the
    demangler's candidates are that dictionary; \<open>Demangle_Roundtrip\<close>: the demangler undoes the mangling. \<open>Demangle_Runs\<close>: runs that show defects.
  \<^item> \<open>Demangle_Api\<close>: \<open>__cxa_demangle\<close> of \<open>typeinfo.cc\<close> with its buffer protocol.

  \<^bold>\<open>Exceptions\<close> (\<open>exception.cc\<close>, \<open>cxxabi.h\<close>, \<open>dwarf_eh.h\<close>, \<open>typeinfo.h\<close>, \<open>dynamic_cast.cc\<close>), for 64-bit programs on the Itanium ABI.
  \<^item> \<open>Dwarf_Eh\<close>: LEB128 numbers, encoded values, the language-specific data area and the call-site table, over byte-addressed memory.
    \<open>Dwarf_Codec\<close>: the readers against the encodings of the standard (locale \<open>value_codec\<close>, three encodings), the search of sorted tables.
    The fuel of the table search is the number of entries; \<open>find_callsite_ends\<close> bounds it for any memory.
  \<^item> \<open>Typeinfo\<close>: \<open>type_info\<close> objects, \<open>__do_upcast\<close>, \<open>__do_catch\<close>, \<open>cast_to\<close>, \<open>__dynamic_cast\<close>, against an inductive subobject relation. The fuel is the
    rank of a class in the acyclic hierarchy. \<open>Catch_Types\<close>: what a handler catches against the conversions of the C++ standard.
  \<^item> \<open>Thread_Info\<close>: the per-thread structure over thread-specific data; \<open>Handlers\<close>: terminate and unexpected handlers (locale \<open>handler_register\<close>);
    \<open>Emergency\<close>: the emergency buffers as interleaved threads.
  \<^item> \<open>Exceptions\<close>: headers, allocation, throw, catch, rethrow, exception pointers and end of a thread. \<open>Exception_Protocol\<close>: an abstract machine of
    exceptions in flight, in handlers and held by pointers, and the proof that the runtime implements it on every sequence of operations.
    \<open>Exception_Pointers\<close>: dependent, foreign and unexpected exceptions, memory shortage, end of a thread. \<open>Refcount\<close>: the reference count of an exception shared by
    threads, in every interleaving of its atomic operations.
  \<^item> \<open>Layout\<close>: sizes and offsets of the structures, with the static assertions on them, on the 64-bit, 32-bit and ARM ABIs. \<open>Build_Variants\<close>: the builds without
    emergency buffers and without exceptions, and the copy operations of \<open>type_info\<close>.
  \<^item> \<open>Personality\<close>: \<open>__gxx_personality_v0\<close> in both phases. \<open>Specifications\<close>: its loops over exception specifications, in the Itanium and the ARM tables. \<open>Unwinding\<close>: from \<open>__cxa_throw\<close> over a stack of frames to \<open>__cxa_begin_catch\<close>, which joins
    the tables, the casts, the personality routine and the protocol. \<open>Cleanups\<close>: the same two phases with the destructors of the frames in between run
    at their landing pads, by code that may use the runtime as long as it leaves the exception in flight alone. \<open>Diagnostics\<close>: the default terminate handler, which joins headers, casts and the
    demangler.
  \<^item> \<open>Arm\<close>: the ARM variant of entry, landing pads and running cleanups (locale \<open>cleanup_list\<close>), from \<open>unwind-arm.h\<close> and \<open>exception.cc\<close>.

  \<^bold>\<open>The rest.\<close> \<open>Guard\<close> (\<open>guard.cc\<close>, \<open>atomic.h\<close>): both guard classes at the granularity of atomic accesses, refining an abstract lock (locale
  \<open>guard_refinement\<close>, interpreted for the five platforms the source names); \<open>Guard_Platform\<close>: the
  choice of the class by the preprocessor, which agrees with the byte order. \<open>Atexit\<close> (\<open>cxa_atexit.c\<close>, \<open>cxa_finalize.c\<close>): the linked list of exit handlers against
  an abstract list (locale \<open>exit_registry\<close>). \<open>New_Delete\<close> (\<open>memory.cc\<close>): the new-handler loop as a partial function, equal to an inductive contract. \<open>Helpers\<close>
  (\<open>auxhelper.cc\<close>, \<open>stdexcept.cc\<close>, \<open>terminate.cc\<close>, \<open>noexception.cc\<close>).

  \<^bold>\<open>Outside code\<close> is a parameter: the allocator, the unwinder (\<open>raise\<close> and \<open>resume\<close>; \<open>Unwinding.unwind\<close> is the two-phase process of the ABI that the end-to-end theorem
  uses), pthreads, destructors, exit handlers, new-handlers, \<open>dladdr\<close>.

  \<^bold>\<open>Not modelled.\<close> Memory orders weaker than sequential consistency; exception headers outside 64-bit programs and ARM, beyond their layout; the 32-bit reading of
  the type table on ARM (a parameter of \<open>Specifications\<close>) and the assembly of \<open>__cxa_end_cleanup\<close>; the handler protocol for several threads at once
  (each thread has its own list of caught exceptions; what threads share, the reference counts, is in \<open>Refcount\<close>); destructors of \<open>type_info\<close> and copy operations of the
  exception classes; the tests and the build.
\<close>

end
